(* ===== verification/Gw_Prelude.thy ===== *)
theory Gw_Prelude
  imports Main "HOL-Library.Word"
begin

text \<open>
  Shared vocabulary of the development: the faults a C execution can run into, the
  error monad the models are written in, the error numbers, C strings and byte
  buffers, and the parts of the C library (\<open>strnlen\<close>, \<open>strncmp\<close>, \<open>isspace\<close>,
  \<open>atoi\<close>, the decimal conversions of \<open>printf\<close>) that the sources use.
\<close>

section \<open>Faults and results\<close>

text \<open>
  What stops an execution instead of letting a function return: a failed
  \<open>TASSERT\<close> (\<open>base.h\<close>), an access outside the object a pointer points into, a
  null or dangling pointer, or a call of \<open>abort()\<close>.  A loop or recursion that is
  modelled with fuel has \<open>OutOfFuel\<close> when the fuel is used up.  The return code of a
  function, an \<open>int\<close>, is an ordinary value and not a fault.
\<close>

datatype fault = AssertFail | OutOfBounds | NullDeref | UseAfterFree | WildPointer | Aborted | OutOfFuel

type_synonym 'a res = "fault + 'a"

fun ebind :: "'e + 'a \<Rightarrow> ('a \<Rightarrow> 'e + 'b) \<Rightarrow> 'e + 'b" where
  "ebind (Inl e) f = Inl e"
| "ebind (Inr x) f = f x"

definition guard :: "bool \<Rightarrow> fault \<Rightarrow> unit res" where
  "guard b e = (if b then Inr () else Inl e)"

type_synonym u16 = "16 word"
type_synonym u32 = "32 word"
type_synonym u64 = "64 word"

text \<open>Rules that rewrite a run of the error monad.\<close>
named_theorems run_simps

section \<open>Error numbers\<close>

text \<open>The Linux values of the \<open>errno.h\<close> names the sources use.\<close>

abbreviation (input) EPERM :: int where "EPERM \<equiv> 1"
abbreviation (input) EINTR :: int where "EINTR \<equiv> 4"
abbreviation (input) E2BIG :: int where "E2BIG \<equiv> 7"
abbreviation (input) EAGAIN :: int where "EAGAIN \<equiv> 11"
abbreviation (input) ENOMEM :: int where "ENOMEM \<equiv> 12"
abbreviation (input) EINVAL :: int where "EINVAL \<equiv> 22"
abbreviation (input) EBADMSG :: int where "EBADMSG \<equiv> 74"
abbreviation (input) EOVERFLOW :: int where "EOVERFLOW \<equiv> 75"
abbreviation (input) ENETDOWN :: int where "ENETDOWN \<equiv> 100"
abbreviation (input) EINPROGRESS :: int where "EINPROGRESS \<equiv> 115"
abbreviation (input) ECANCELED :: int where "ECANCELED \<equiv> 125"

section \<open>C strings and buffers\<close>

text \<open>
  Memory that a \<open>char *\<close> points into is a list of bytes.  The C string at the
  start of such a memory is what comes before the first null byte.
\<close>

type_synonym bytes = "char list"

definition NUL :: char where "NUL = CHR 0x00"

definition cstr :: "bytes \<Rightarrow> bytes" where
  "cstr s = takeWhile (\<lambda>c. c \<noteq> NUL) s"

definition strnlen :: "bytes \<Rightarrow> nat \<Rightarrow> nat" where
  "strnlen s n = length (cstr (take n s))"

text \<open>\<open>!strncmp(a, b, n)\<close>: equal up to \<open>n\<close> bytes or to the common end.\<close>

definition strneq :: "bytes \<Rightarrow> bytes \<Rightarrow> nat \<Rightarrow> bool" where
  "strneq a b n \<longleftrightarrow> take n (cstr a) = take n (cstr b)"

text \<open>
  A destination of \<open>cap\<close> bytes that is written from its start, one byte after the
  other: \<open>out\<close> is what has been written, and a write past the end is a fault.
\<close>

definition buf_app :: "nat \<Rightarrow> bytes \<Rightarrow> bytes \<Rightarrow> bytes res" where
  "buf_app cap out xs = (if length out + length xs \<le> cap then Inr (out @ xs) else Inl OutOfBounds)"

text \<open>A single write \<open>buf[i] = c\<close> and a \<open>memcpy(&buf[i], xs, length xs)\<close>.\<close>

definition buf_set :: "bytes \<Rightarrow> nat \<Rightarrow> char \<Rightarrow> bytes res" where
  "buf_set buf i c = (if i < length buf then Inr (buf[i := c]) else Inl OutOfBounds)"

definition buf_put :: "bytes \<Rightarrow> nat \<Rightarrow> bytes \<Rightarrow> bytes res" where
  "buf_put buf i xs =
     (if i + length xs \<le> length buf then Inr (take i buf @ xs @ drop (i + length xs) buf)
      else Inl OutOfBounds)"

definition isspace :: "char \<Rightarrow> bool" where
  "isspace c \<longleftrightarrow> c \<in> {CHR '' '', CHR 0x09, CHR 0x0A, CHR 0x0B, CHR 0x0C, CHR 0x0D}"

abbreviation byte :: "char \<Rightarrow> nat" where "byte c \<equiv> of_char c"

section \<open>Decimal numbers\<close>

definition digit_char :: "nat \<Rightarrow> char" where
  "digit_char d = char_of (48 + d)"

fun show_nat :: "nat \<Rightarrow> bytes" where
  "show_nat n = (if n < 10 then [digit_char n] else show_nat (n div 10) @ [digit_char (n mod 10)])"

declare show_nat.simps [simp del]

definition show_int :: "int \<Rightarrow> bytes" where
  "show_int i = (if i < 0 then CHR ''-'' # show_nat (nat (- i)) else show_nat (nat i))"

definition is_digit :: "char \<Rightarrow> bool" where
  "is_digit c \<longleftrightarrow> 48 \<le> byte c \<and> byte c \<le> (57::nat)"

fun read_nat :: "nat \<Rightarrow> bytes \<Rightarrow> nat" where
  "read_nat acc [] = acc"
| "read_nat acc (c # cs) =
     (if is_digit c then read_nat (10 * acc + (byte c - 48)) cs else acc)"

text \<open>
  \<open>strtol(s, NULL, 10)\<close> clamps to the range of \<open>long\<close>; \<open>atoi\<close> is its conversion
  to \<open>int\<close>, which keeps the low 32 bits.
\<close>

definition strtol :: "bytes \<Rightarrow> int" where
  "strtol s =
     (case dropWhile isspace (cstr s) of
        [] \<Rightarrow> 0
      | c # cs \<Rightarrow>
          (let v = (if c = CHR ''-'' then - int (read_nat 0 cs)
                    else if c = CHR ''+'' then int (read_nat 0 cs)
                    else int (read_nat 0 (c # cs)))
           in max (- (2 ^ 63)) (min (2 ^ 63 - 1) v)))"

definition atoi :: "bytes \<Rightarrow> int" where
  "atoi s = sint (word_of_int (strtol s) :: 32 word)"

section \<open>Shared lemmas\<close>

lemma ebind_assoc: "ebind (ebind m f) g = ebind m (\<lambda>x. ebind (f x) g)"
  by (cases m) auto

lemma ebind_Inr_id [simp]: "ebind m Inr = m"
  by (cases m) auto

lemma ebind_eq_Inr [run_simps]: "ebind m f = Inr y \<longleftrightarrow> (\<exists>x. m = Inr x \<and> f x = Inr y)"
  by (cases m) auto

lemma ebind_eq_Inl [run_simps]:
  "ebind m f = Inl e \<longleftrightarrow> m = Inl e \<or> (\<exists>x. m = Inr x \<and> f x = Inl e)"
  by (cases m) auto

lemma guard_simps [run_simps]:
  "guard b e = Inr u \<longleftrightarrow> b"
  "guard b e = Inl e' \<longleftrightarrow> \<not> b \<and> e' = e"
  by (auto simp: guard_def)

lemma guard_True [simp]: "guard True e = Inr ()"
  by (simp add: guard_def)

lemma guard_False [simp]: "guard False e = Inl e"
  by (simp add: guard_def)

lemma buf_app_fits [simp]:
  "length out + length xs \<le> cap \<Longrightarrow> buf_app cap out xs = Inr (out @ xs)"
  by (simp add: buf_app_def)

lemma buf_app_Inr [run_simps]:
  "buf_app cap out xs = Inr r \<longleftrightarrow> length out + length xs \<le> cap \<and> r = out @ xs"
  by (auto simp: buf_app_def)

lemma buf_set_fits [simp]: "i < length buf \<Longrightarrow> buf_set buf i c = Inr (buf[i := c])"
  by (simp add: buf_set_def)

lemma buf_set_Inr [run_simps]: "buf_set buf i c = Inr r \<longleftrightarrow> i < length buf \<and> r = buf[i := c]"
  by (auto simp: buf_set_def)

lemma buf_put_fits [simp]:
  "i + length xs \<le> length buf \<Longrightarrow>
     buf_put buf i xs = Inr (take i buf @ xs @ drop (i + length xs) buf)"
  by (simp add: buf_put_def)

lemma buf_put_Inr [run_simps]:
  "buf_put buf i xs = Inr r \<longleftrightarrow>
     i + length xs \<le> length buf \<and> r = take i buf @ xs @ drop (i + length xs) buf"
  by (auto simp: buf_put_def)

lemma length_buf_put: "buf_put buf i xs = Inr r \<Longrightarrow> length r = length buf"
  by (auto simp: run_simps)

lemma length_buf_set: "buf_set buf i c = Inr r \<Longrightarrow> length r = length buf"
  by (auto simp: run_simps)

lemma cstr_no_NUL [simp]: "NUL \<notin> set (cstr s)"
  by (auto simp: cstr_def dest: set_takeWhileD)

lemma cstr_id [simp]: "NUL \<notin> set s \<Longrightarrow> cstr s = s"
  by (induction s) (auto simp: cstr_def)

lemma cstr_idem [simp]: "cstr (cstr s) = cstr s"
  by simp

lemma cstr_append_NUL [simp]: "NUL \<notin> set s \<Longrightarrow> cstr (s @ NUL # t) = s"
  by (induction s) (auto simp: cstr_def)

lemma cstr_terminated: "cstr (s @ NUL # t) = cstr s"
  by (induction s) (auto simp: cstr_def)

lemma length_cstr_le: "length (cstr s) \<le> length s"
  by (simp add: cstr_def length_takeWhile_le)

lemma cstr_take: "cstr (take n s) = take n (cstr s)"
  unfolding cstr_def
  by (induction s arbitrary: n) (auto simp: take_Cons split: nat.splits)

lemma take_strlen: "take (min n (length (cstr s))) s = take n (cstr s)"
  by (metis take_take cstr_def takeWhile_eq_take)

lemma cstr_prefix:
  "length (cstr s) < length s \<Longrightarrow> take (Suc (length (cstr s))) s = cstr s @ [NUL]"
  by (induction s) (auto simp: cstr_def)

lemma cstr_take_cstr [simp]: "cstr (take n (cstr s) @ NUL # t) = take n (cstr s)"
  by (metis cstr_append_NUL cstr_no_NUL in_set_takeD)

lemma strnlen_eq: "strnlen s n = min n (length (cstr s))"
  by (simp add: strnlen_def cstr_take min.commute)

lemma strnlen_le: "strnlen s n \<le> n"
  by (simp add: strnlen_eq)

lemma digit_char_byte [simp]: "d < 10 \<Longrightarrow> byte (digit_char d) = 48 + d"
  by (simp add: digit_char_def)

lemma is_digit_digit_char [simp]: "d < 10 \<Longrightarrow> is_digit (digit_char d)"
  by (simp add: is_digit_def)

lemma read_nat_append:
  "\<forall>c \<in> set xs. is_digit c \<Longrightarrow> read_nat acc (xs @ ys) = read_nat (read_nat acc xs) ys"
  by (induction xs arbitrary: acc) auto

lemma show_nat_digits: "c \<in> set (show_nat n) \<Longrightarrow> is_digit c"
proof (induction n rule: show_nat.induct)
  case (1 n)
  then show ?case by (cases "n < 10") (auto simp: show_nat.simps [of n])
qed

lemma show_nat_not_Nil [simp]: "show_nat n \<noteq> []"
  by (subst show_nat.simps) simp

lemma read_show_nat: "read_nat 0 (show_nat n) = n"
proof (induction n rule: show_nat.induct)
  case (1 n)
  show ?case
  proof (cases "n < 10")
    case True
    then show ?thesis by (simp add: show_nat.simps [of n])
  next
    case False
    then have "read_nat 0 (show_nat n) =
        read_nat (read_nat 0 (show_nat (n div 10))) [digit_char (n mod 10)]"
      by (simp add: show_nat.simps [of n] read_nat_append show_nat_digits)
    with "1" False show ?thesis by simp
  qed
qed

lemma length_show_nat: "n < 10 ^ k \<Longrightarrow> 0 < k \<Longrightarrow> length (show_nat n) \<le> k"
proof (induction n arbitrary: k rule: show_nat.induct)
  case (1 n)
  show ?case
  proof (cases "n < 10")
    case True
    with "1.prems" show ?thesis by (simp add: show_nat.simps [of n])
  next
    case False
    then obtain j where k: "k = Suc j" and "0 < j"
      using "1.prems" by (cases k; cases "k - 1") auto
    from False "1.prems" k have "n div 10 < 10 ^ j" by (simp add: div_less_iff_less_mult)
    with "1.IH" [OF False, of j] \<open>0 < j\<close> have "length (show_nat (n div 10)) \<le> j" by simp
    with False k show ?thesis by (simp add: show_nat.simps [of n])
  qed
qed

lemma unat_u16_less: "unat (w :: u16) < 65536"
  using unsigned_less [of w, where 'a = nat] by simp

lemma unat_u32_less: "unat (w :: u32) < 4294967296"
  using unsigned_less [of w, where 'a = nat] by simp

lemma unat_u64_less: "unat (w :: u64) < 18446744073709551616"
  using unsigned_less [of w, where 'a = nat] by simp

lemma length_show_u64: "length (show_nat (unat (w :: u64))) \<le> 20"
proof (rule length_show_nat)
  show "unat w < 10 ^ 20" using unat_u64_less [of w] by simp
qed simp

lemma length_show_s64: "length (show_int (sint (w :: u64))) \<le> 20"
proof -
  have lo: "- (2 ^ 63) \<le> sint w" and hi: "sint w < 2 ^ 63"
    using sint_ge [of w] sint_lt [of w] by simp_all
  have "nat (- sint w) < 10 ^ 19" "nat (sint w) < 10 ^ 19" using lo hi by auto
  then have "length (show_nat (nat (- sint w))) \<le> 19" "length (show_nat (nat (sint w))) \<le> 19"
    by (auto intro: length_show_nat)
  then show ?thesis by (simp add: show_int_def)
qed

end
