(* ===== verification/Json_Object.thy ===== *)
theory Json_Object
  imports Gw_Prelude Complex_Main
begin

text \<open>
  The JSON documents of the vendored json-c library (\<open>src/ext/json-c\<close>) as the bot uses them:
  the values of \<open>json_object.c\<close>, the functions that build and read them, and the serialiser.
  A \<open>json_object *\<close> is an option, \<open>None\<close> being the null pointer, which is also how json-c
  represents the value \<open>null\<close>.  Reference counts are not part of a value: a document has
  one owner, and the members of an object are released with it.
\<close>

section \<open>Values\<close>

text \<open>
  A double keeps the text it is printed with (\<open>json_object_new_double_s\<close>).  An integer is
  stored as \<open>int64_t\<close> or \<open>uint64_t\<close>.  The table of an object is the list of its entries in the
  order of insertion, which is the order of the links between the entries of \<open>lh_table\<close>.
\<close>

datatype dbl = Finite rat | PlusInf | MinusInf | NotANumber

datatype json_object =
    JBool bool
  | JDouble dbl bytes
  | JInt64 u64
  | JUint64 u64
  | JStr bytes
  | JArr "json_object option list"
  | JObj "(bytes \<times> json_object option) list"

type_synonym json = "json_object option"

section \<open>Numbers in strings\<close>

text \<open>
  \<open>strtoll\<close> and \<open>strtoull\<close> in base 10: white space, a sign, digits.  \<open>None\<close> stands for
  \<open>end == buf\<close>.  The value saturates; a minus sign makes \<open>strtoull\<close> negate modulo \<open>2^64\<close>.
\<close>

fun read_int :: "int \<Rightarrow> bytes \<Rightarrow> int" where
  "read_int acc [] = acc"
| "read_int acc (c # cs) = (if is_digit c then read_int (10 * acc + (int (byte c) - 48)) cs else acc)"

fun strto_digits :: "bytes \<Rightarrow> (bool \<times> int) option" where
  "strto_digits s =
     (let s = dropWhile isspace s;
          (neg, ds) = (case s of
                         [] \<Rightarrow> (False, s)
                       | c # cs \<Rightarrow> if c = CHR ''-'' then (True, cs) else if c = CHR ''+'' then (False, cs) else (False, s))
      in (case ds of
            [] \<Rightarrow> None
          | d # _ \<Rightarrow> if is_digit d then Some (neg, read_int 0 ds) else None))"

definition strtoll :: "bytes \<Rightarrow> int option" where
  "strtoll s =
     map_option (\<lambda>(neg, n). max (- (2 ^ 63)) (min (2 ^ 63 - 1) (if neg then - n else n)))
       (strto_digits s)"

definition strtoull :: "bytes \<Rightarrow> u64 option" where
  "strtoull s =
     map_option (\<lambda>(neg, n). if n \<ge> 2 ^ 64 then - 1 else if neg then - word_of_int n else word_of_int n)
       (strto_digits s)"

text \<open>\<open>val == 0 && errno != 0\<close> does not happen: a saturated value is not 0.\<close>

definition json_parse_int64 :: "bytes \<Rightarrow> u64 option" where
  "json_parse_int64 buf = map_option word_of_int (strtoll (cstr buf))"

definition json_parse_uint64 :: "bytes \<Rightarrow> u64 option" where
  "json_parse_uint64 buf =
     (let buf = dropWhile (\<lambda>c. c = CHR '' '') (cstr buf)
      in if take 1 buf = ''-'' then None else strtoull buf)"

section \<open>Building\<close>

fun jtable_put :: "bytes \<Rightarrow> json \<Rightarrow> (bytes \<times> json) list \<Rightarrow> (bytes \<times> json) list" where
  "jtable_put k v [] = [(k, v)]"
| "jtable_put k v ((k', v') # es) = (if k' = k then (k, v) # es else (k', v') # jtable_put k v es)"

text \<open>The value of an entry that exists is replaced in place; the key is a C string.\<close>

fun json_object_object_add :: "json \<Rightarrow> bytes \<Rightarrow> json \<Rightarrow> json res" where
  "json_object_object_add (Some (JObj es)) key val = Inr (Some (JObj (jtable_put (cstr key) val es)))"
| "json_object_object_add _ key val = Inl AssertFail"

fun json_object_array_add :: "json \<Rightarrow> json \<Rightarrow> json res" where
  "json_object_array_add (Some (JArr xs)) val = Inr (Some (JArr (xs @ [val])))"
| "json_object_array_add _ val = Inl AssertFail"

section \<open>Reading\<close>

text \<open>\<open>None\<close> for the answer 0; \<open>Some res\<close> for the answer 1 and the value of the out-parameter.\<close>

fun json_object_object_get_ex :: "json \<Rightarrow> bytes \<Rightarrow> json option" where
  "json_object_object_get_ex (Some (JObj es)) key = map_of es (cstr key)"
| "json_object_object_get_ex _ key = None"

abbreviation (input) INT64_MAX :: u64 where "INT64_MAX \<equiv> 0x7FFFFFFFFFFFFFFF"
abbreviation (input) INT64_MIN :: u64 where "INT64_MIN \<equiv> 0x8000000000000000"
abbreviation (input) UINT64_MAX :: u64 where "UINT64_MAX \<equiv> 0xFFFFFFFFFFFFFFFF"

text \<open>
  \<open>(int64_t)d\<close> and \<open>(uint64_t)d\<close> drop the fraction.  The constants of the comparisons are
  doubles: \<open>(double)INT64_MAX\<close> is \<open>2^63\<close> and \<open>(double)UINT64_MAX\<close> is \<open>2^64\<close>.  Not-a-number
  passes no comparison, and its conversion gives the machine's indefinite value.
\<close>

definition trunc_rat :: "rat \<Rightarrow> int" where
  "trunc_rat q = (if q < 0 then \<lceil>q\<rceil> else \<lfloor>q\<rfloor>)"

fun dbl_int64 :: "dbl \<Rightarrow> u64" where
  "dbl_int64 (Finite q) =
     (if q \<ge> 2 ^ 63 then INT64_MAX else if q \<le> - (2 ^ 63) then INT64_MIN else word_of_int (trunc_rat q))"
| "dbl_int64 PlusInf = INT64_MAX"
| "dbl_int64 MinusInf = INT64_MIN"
| "dbl_int64 NotANumber = INT64_MIN"

fun dbl_uint64 :: "dbl \<Rightarrow> u64" where
  "dbl_uint64 (Finite q) =
     (if q \<ge> 2 ^ 64 then UINT64_MAX else if q < 0 then 0 else word_of_int (trunc_rat q))"
| "dbl_uint64 PlusInf = UINT64_MAX"
| "dbl_uint64 MinusInf = 0"
| "dbl_uint64 NotANumber = INT64_MIN"

fun json_object_get_boolean :: "json \<Rightarrow> bool" where
  "json_object_get_boolean (Some (JBool b)) = b"
| "json_object_get_boolean (Some (JInt64 i)) = (i \<noteq> 0)"
| "json_object_get_boolean (Some (JUint64 i)) = (i \<noteq> 0)"
| "json_object_get_boolean (Some (JDouble d t)) = (d \<noteq> Finite 0)"
| "json_object_get_boolean (Some (JStr s)) = (s \<noteq> [])"
| "json_object_get_boolean _ = False"

fun json_object_get_int64 :: "json \<Rightarrow> u64" where
  "json_object_get_int64 (Some (JInt64 i)) = i"
| "json_object_get_int64 (Some (JUint64 i)) = (if i \<ge> INT64_MAX then INT64_MAX else i)"
| "json_object_get_int64 (Some (JDouble d t)) = dbl_int64 d"
| "json_object_get_int64 (Some (JBool b)) = (if b then 1 else 0)"
| "json_object_get_int64 (Some (JStr s)) = (case json_parse_int64 s of Some i \<Rightarrow> i | None \<Rightarrow> 0)"
| "json_object_get_int64 _ = 0"

fun json_object_get_uint64 :: "json \<Rightarrow> u64" where
  "json_object_get_uint64 (Some (JInt64 i)) = (if sint i < 0 then 0 else i)"
| "json_object_get_uint64 (Some (JUint64 i)) = i"
| "json_object_get_uint64 (Some (JDouble d t)) = dbl_uint64 d"
| "json_object_get_uint64 (Some (JBool b)) = (if b then 1 else 0)"
| "json_object_get_uint64 (Some (JStr s)) = (case json_parse_uint64 s of Some i \<Rightarrow> i | None \<Rightarrow> 0)"
| "json_object_get_uint64 _ = 0"

fun json_object_array_length :: "json \<Rightarrow> nat res" where
  "json_object_array_length (Some (JArr xs)) = Inr (length xs)"
| "json_object_array_length _ = Inl AssertFail"

definition array_list_get_idx :: "json list \<Rightarrow> nat \<Rightarrow> json" where
  "array_list_get_idx xs i = (if i \<ge> length xs then None else xs ! i)"

fun json_object_array_get_idx :: "json \<Rightarrow> nat \<Rightarrow> json res" where
  "json_object_array_get_idx (Some (JArr xs)) i = Inr (array_list_get_idx xs i)"
| "json_object_array_get_idx _ i = Inl AssertFail"

section \<open>Serialising\<close>

record jflags =
  JSON_C_TO_STRING_SPACED :: bool
  JSON_C_TO_STRING_PRETTY :: bool
  JSON_C_TO_STRING_PRETTY_TAB :: bool
  JSON_C_TO_STRING_NOSLASHESCAPE :: bool

definition json_hex_chars :: bytes where "json_hex_chars = ''0123456789abcdefABCDEF''"

text \<open>The two-character escapes, then control characters, then the byte itself.\<close>

definition json_escape_char :: "jflags \<Rightarrow> char \<Rightarrow> bytes" where
  "json_escape_char fl c =
     (if c = CHR 0x08 then [CHR 0x5C, CHR ''b'']
      else if c = CHR 0x0A then [CHR 0x5C, CHR ''n'']
      else if c = CHR 0x0D then [CHR 0x5C, CHR ''r'']
      else if c = CHR 0x09 then [CHR 0x5C, CHR ''t'']
      else if c = CHR 0x0C then [CHR 0x5C, CHR ''f'']
      else if c = CHR 0x22 then [CHR 0x5C, CHR 0x22]
      else if c = CHR 0x5C then [CHR 0x5C, CHR 0x5C]
      else if c = CHR ''/'' then (if JSON_C_TO_STRING_NOSLASHESCAPE fl then [c] else [CHR 0x5C, c])
      else if byte c < (32 :: nat)
        then [CHR 0x5C, CHR ''u'', CHR ''0'', CHR ''0'', json_hex_chars ! (byte c div 16), json_hex_chars ! (byte c mod 16)]
      else [c])"

definition json_escape_str :: "jflags \<Rightarrow> bytes \<Rightarrow> bytes" where
  "json_escape_str fl s = concat (map (json_escape_char fl) s)"

definition indent :: "jflags \<Rightarrow> nat \<Rightarrow> bytes" where
  "indent fl level =
     (if JSON_C_TO_STRING_PRETTY fl
      then if JSON_C_TO_STRING_PRETTY_TAB fl then replicate level (CHR 0x09) else replicate (level * 2) (CHR '' '')
      else [])"

text \<open>What both containers print before an element, after the last one, and at the end.\<close>

definition print_sep :: "jflags \<Rightarrow> nat \<Rightarrow> bool \<Rightarrow> bytes" where
  "print_sep fl level had_children =
     (if had_children then '','' @ (if JSON_C_TO_STRING_PRETTY fl then [CHR 0x0A] else []) else []) @
     (if JSON_C_TO_STRING_SPACED fl \<and> \<not> JSON_C_TO_STRING_PRETTY fl then '' '' else []) @
     indent fl (level + 1)"

definition print_open :: "jflags \<Rightarrow> bytes" where
  "print_open fl = (if JSON_C_TO_STRING_PRETTY fl then [CHR 0x0A] else [])"

definition print_close :: "jflags \<Rightarrow> nat \<Rightarrow> bool \<Rightarrow> bytes" where
  "print_close fl level had_children =
     (if JSON_C_TO_STRING_PRETTY fl then (if had_children then [CHR 0x0A] else []) @ indent fl level else []) @
     (if JSON_C_TO_STRING_SPACED fl \<and> \<not> JSON_C_TO_STRING_PRETTY fl then '' '' else [])"

fun to_json_string :: "jflags \<Rightarrow> nat \<Rightarrow> json_object \<Rightarrow> bytes"
  and to_json_ptr :: "jflags \<Rightarrow> nat \<Rightarrow> json \<Rightarrow> bytes"
  and to_json_elems :: "jflags \<Rightarrow> nat \<Rightarrow> bool \<Rightarrow> json list \<Rightarrow> bytes"
  and to_json_members :: "jflags \<Rightarrow> nat \<Rightarrow> bool \<Rightarrow> (bytes \<times> json) list \<Rightarrow> bytes" where
  "to_json_string fl level (JBool b) = (if b then ''true'' else ''false'')"
| "to_json_string fl level (JDouble d t) = t"
| "to_json_string fl level (JInt64 i) = show_int (sint i)"
| "to_json_string fl level (JUint64 i) = show_nat (unat i)"
| "to_json_string fl level (JStr s) = [CHR 0x22] @ json_escape_str fl s @ [CHR 0x22]"
| "to_json_string fl level (JArr xs) =
     ''['' @ print_open fl @ to_json_elems fl level False xs @ print_close fl level (xs \<noteq> []) @ '']''"
| "to_json_string fl level (JObj es) =
     ''{'' @ print_open fl @ to_json_members fl level False es @ print_close fl level (es \<noteq> []) @ ''}''"
| "to_json_ptr fl level None = ''null''"
| "to_json_ptr fl level (Some j) = to_json_string fl level j"
| "to_json_elems fl level had [] = []"
| "to_json_elems fl level had (x # xs) =
     print_sep fl level had @ to_json_ptr fl (level + 1) x @ to_json_elems fl level True xs"
| "to_json_members fl level had [] = []"
| "to_json_members fl level had ((k, v) # es) =
     print_sep fl level had @ [CHR 0x22] @ json_escape_str fl k @ [CHR 0x22, CHR '':''] @
     (if JSON_C_TO_STRING_SPACED fl then '' '' else []) @
     to_json_ptr fl (level + 1) v @ to_json_members fl level True es"

definition json_object_to_json_string_ext :: "json \<Rightarrow> jflags \<Rightarrow> bytes" where
  "json_object_to_json_string_ext j fl = to_json_ptr fl 0 j"

definition spaced_flags :: jflags where
  "spaced_flags = \<lparr> JSON_C_TO_STRING_SPACED = True, JSON_C_TO_STRING_PRETTY = False,
     JSON_C_TO_STRING_PRETTY_TAB = False, JSON_C_TO_STRING_NOSLASHESCAPE = False \<rparr>"

fun json_object_get_string :: "json \<Rightarrow> bytes option" where
  "json_object_get_string None = None"
| "json_object_get_string (Some (JStr s)) = Some s"
| "json_object_get_string j = Some (json_object_to_json_string_ext j spaced_flags)"

section \<open>A member with a new key\<close>

lemma jtable_put_new: "k \<notin> fst ` set es \<Longrightarrow> jtable_put k v es = es @ [(k, v)]"
  by (induction k v es rule: jtable_put.induct) auto

end
