(* ===== verification/Json_Tokener.thy ===== *)
theory Json_Tokener
  imports Json_Object
begin

text \<open>
  The incremental JSON parser of json-c, \<open>json_tokener.c\<close>, with the flags 0 that the bot
  leaves it with: a machine with a stack of levels that reads one byte after the other.
  The source handles runs of bytes (white space, comments, strings) in tighter loops for
  speed; here each byte is a step, except for numbers, whose loop has local variables.
  Memory for values is taken to be available.  \<open>strtod\<close> of the C library is an argument:
  it gives the value of a text and how many bytes it has read.
\<close>

unbundle bit_operations_syntax

section \<open>State\<close>

text \<open>
  The states that are stored in \<open>saved_state\<close> are a type of their own; \<open>state = saved_state\<close>
  is \<open>St\<close>.  The stack is the level \<open>tok->stack[tok->depth]\<close> and the levels below it.
\<close>

datatype saved_state =
    S_start | S_finish | S_string | S_array | S_array_sep | S_array_after_sep
  | S_object_field_start | S_object_field_start_after_sep | S_object_field | S_object_field_end
  | S_object_value | S_object_sep

datatype tok_state =
    St saved_state
  | S_eatws | S_null | S_inf | S_boolean | S_number
  | S_comment_start | S_comment | S_comment_eol | S_comment_end
  | S_string_escape | S_escape_unicode | S_need_escape | S_need_u
  | S_array_add | S_object_value_add

datatype tok_error =
    json_tokener_success | json_tokener_continue | json_tokener_error_depth
  | json_tokener_error_parse_eof | json_tokener_error_parse_unexpected | json_tokener_error_parse_null
  | json_tokener_error_parse_boolean | json_tokener_error_parse_number | json_tokener_error_parse_array
  | json_tokener_error_parse_object_key_name | json_tokener_error_parse_object_key_sep
  | json_tokener_error_parse_object_value_sep | json_tokener_error_parse_string
  | json_tokener_error_parse_comment | json_tokener_error_parse_utf8_string | json_tokener_error_size

record json_tokener_srec =
  sr_state :: tok_state
  sr_saved_state :: saved_state
  sr_current :: json
  sr_obj_field_name :: "bytes option"

record json_tokener =
  tk_max_depth :: nat
  tk_top :: json_tokener_srec
  tk_below :: "json_tokener_srec list"
  tk_pb :: bytes
  tk_is_double :: bool
  tk_st_pos :: nat
  tk_ucs_char :: u32
  tk_high_surrogate :: u32
  tk_quote_char :: char
  tk_obj :: json                      (* the local variable obj *)

abbreviation tk_depth :: "json_tokener \<Rightarrow> nat" where
  "tk_depth tok \<equiv> length (tk_below tok)"

definition fresh_level :: json_tokener_srec where
  "fresh_level = \<lparr> sr_state = S_eatws, sr_saved_state = S_start, sr_current = None, sr_obj_field_name = None \<rparr>"

text \<open>\<open>JSON_TOKENER_DEFAULT_DEPTH\<close> is 32.\<close>

definition json_tokener_new :: json_tokener where
  "json_tokener_new = \<lparr> tk_max_depth = 32, tk_top = fresh_level, tk_below = [], tk_pb = [],
     tk_is_double = False, tk_st_pos = 0, tk_ucs_char = 0, tk_high_surrogate = 0, tk_quote_char = NUL,
     tk_obj = None \<rparr>"

text \<open>Assignments to the level on top.\<close>

definition set_state :: "tok_state \<Rightarrow> json_tokener \<Rightarrow> json_tokener" where
  "set_state st tok = tok\<lparr> tk_top := (tk_top tok)\<lparr> sr_state := st \<rparr> \<rparr>"

definition eat_then :: "saved_state \<Rightarrow> json_tokener \<Rightarrow> json_tokener" where
  "eat_then sv tok = tok\<lparr> tk_top := (tk_top tok)\<lparr> sr_state := S_eatws, sr_saved_state := sv \<rparr> \<rparr>"

definition set_current :: "json \<Rightarrow> json_tokener \<Rightarrow> json_tokener" where
  "set_current j tok = tok\<lparr> tk_top := (tk_top tok)\<lparr> sr_current := j \<rparr> \<rparr>"

definition set_saved :: "saved_state \<Rightarrow> json_tokener \<Rightarrow> json_tokener" where
  "set_saved sv tok = tok\<lparr> tk_top := (tk_top tok)\<lparr> sr_saved_state := sv \<rparr> \<rparr>"

definition pb_append :: "bytes \<Rightarrow> json_tokener \<Rightarrow> json_tokener" where
  "pb_append s tok = tok\<lparr> tk_pb := tk_pb tok @ s \<rparr>"

definition pb_reset :: "json_tokener \<Rightarrow> json_tokener" where
  "pb_reset tok = tok\<lparr> tk_pb := [] \<rparr>"

definition push_level :: "json_tokener \<Rightarrow> json_tokener" where
  "push_level tok = tok\<lparr> tk_top := fresh_level, tk_below := tk_top tok # tk_below tok \<rparr>"

section \<open>Steps\<close>

text \<open>
  What a step does: \<open>break\<close> out of the switch and advance past the byte; look at the byte
  again (\<open>goto redo_char\<close>); go on at a later byte; \<open>goto out\<close> with an error code.
\<close>

datatype tok_outcome =
    Next json_tokener
  | Redo json_tokener
  | Jump json_tokener bytes
  | Out tok_error json_tokener
  | Crash fault

definition value_done :: "json \<Rightarrow> json_tokener \<Rightarrow> json_tokener" where
  "value_done j tok = eat_then S_finish (set_current j tok)"

definition lower :: "char \<Rightarrow> char" where
  "lower c = (if 65 \<le> byte c \<and> byte c \<le> (90 :: nat) then char_of (byte c + (32 :: nat)) else c)"

definition strncaseeq :: "bytes \<Rightarrow> bytes \<Rightarrow> nat \<Rightarrow> bool" where
  "strncaseeq a b n \<longleftrightarrow> strneq (map lower a) (map lower b) n"

definition step_start :: "json_tokener \<Rightarrow> char \<Rightarrow> tok_outcome" where
  "step_start tok c =
     (if c = CHR ''{'' then Next (eat_then S_object_field_start (set_current (Some (JObj [])) tok))
      else if c = CHR ''['' then Next (eat_then S_array (set_current (Some (JArr [])) tok))
      else if c = CHR ''I'' \<or> c = CHR ''i'' then Redo ((set_state S_inf (pb_reset tok))\<lparr> tk_st_pos := 0 \<rparr>)
      else if c = CHR ''N'' \<or> c = CHR ''n'' then Redo ((set_state S_null (pb_reset tok))\<lparr> tk_st_pos := 0 \<rparr>)
      else if c = CHR 0x27 \<or> c = CHR 0x22 then Next ((set_state (St S_string) (pb_reset tok))\<lparr> tk_quote_char := c \<rparr>)
      else if c = CHR ''T'' \<or> c = CHR ''t'' \<or> c = CHR ''F'' \<or> c = CHR ''f''
        then Redo ((set_state S_boolean (pb_reset tok))\<lparr> tk_st_pos := 0 \<rparr>)
      else if is_digit c \<or> c = CHR ''-''
        then Redo ((set_state S_number (pb_reset tok))\<lparr> tk_is_double := False \<rparr>)
      else Out json_tokener_error_parse_unexpected tok)"

definition step_finish :: "json_tokener \<Rightarrow> tok_outcome" where
  "step_finish tok =
     (case tk_below tok of
        [] \<Rightarrow> Out json_tokener_success tok
      | lv # lvs \<Rightarrow> Redo (tok\<lparr> tk_obj := sr_current (tk_top tok), tk_top := lv, tk_below := lvs \<rparr>))"

definition step_inf :: "json_tokener \<Rightarrow> char \<Rightarrow> tok_outcome" where
  "step_inf tok c =
     (if tk_st_pos tok < 8
      then if lower c \<noteq> ''infinity'' ! tk_st_pos tok then Out json_tokener_error_parse_unexpected tok
           else Next (tok\<lparr> tk_st_pos := tk_st_pos tok + 1 \<rparr>)
      else if take 1 (tk_pb tok) = ''-'' then Redo (value_done (Some (JDouble MinusInf ''-Infinity'')) tok)
      else Redo (value_done (Some (JDouble PlusInf ''Infinity'')) tok))"

definition step_null :: "json_tokener \<Rightarrow> char \<Rightarrow> tok_outcome" where
  "step_null tok c =
     (let tok = pb_append [c] tok;
          sz = min (tk_st_pos tok + 1) 4;
          size_nan = min (tk_st_pos tok + 1) 3
      in if strncaseeq ''null'' (tk_pb tok) sz
         then if tk_st_pos tok = 4 then Redo (value_done None tok)
              else Next (tok\<lparr> tk_st_pos := tk_st_pos tok + 1 \<rparr>)
         else if strncaseeq ''NaN'' (tk_pb tok) size_nan
         then if tk_st_pos tok = 3 then Redo (value_done (Some (JDouble NotANumber ''NaN'')) tok)
              else Next (tok\<lparr> tk_st_pos := tk_st_pos tok + 1 \<rparr>)
         else Out json_tokener_error_parse_null tok)"

definition step_boolean :: "json_tokener \<Rightarrow> char \<Rightarrow> tok_outcome" where
  "step_boolean tok c =
     (let tok = pb_append [c] tok;
          size1 = min (tk_st_pos tok + 1) 4;
          size2 = min (tk_st_pos tok + 1) 5
      in if strncaseeq ''true'' (tk_pb tok) size1
         then if tk_st_pos tok = 4 then Redo (value_done (Some (JBool True)) tok)
              else Next (tok\<lparr> tk_st_pos := tk_st_pos tok + 1 \<rparr>)
         else if strncaseeq ''false'' (tk_pb tok) size2
         then if tk_st_pos tok = 5 then Redo (value_done (Some (JBool False)) tok)
              else Next (tok\<lparr> tk_st_pos := tk_st_pos tok + 1 \<rparr>)
         else Out json_tokener_error_parse_boolean tok)"

definition step_string :: "json_tokener \<Rightarrow> char \<Rightarrow> tok_outcome" where
  "step_string tok c =
     (if c = tk_quote_char tok then Next (value_done (Some (JStr (tk_pb tok))) tok)
      else if c = CHR 0x5C then Next (set_state S_string_escape (set_saved S_string tok))
      else Next (pb_append [c] tok))"

definition step_object_field :: "json_tokener \<Rightarrow> char \<Rightarrow> tok_outcome" where
  "step_object_field tok c =
     (if c = tk_quote_char tok
      then Next (eat_then S_object_field_end
             (tok\<lparr> tk_top := (tk_top tok)\<lparr> sr_obj_field_name := Some (cstr (tk_pb tok)) \<rparr> \<rparr>))
      else if c = CHR 0x5C then Next (set_state S_string_escape (set_saved S_object_field tok))
      else Next (pb_append [c] tok))"

abbreviation back_to_saved :: "json_tokener \<Rightarrow> json_tokener" where
  "back_to_saved tok \<equiv> set_state (St (sr_saved_state (tk_top tok))) tok"

definition step_string_escape :: "json_tokener \<Rightarrow> char \<Rightarrow> tok_outcome" where
  "step_string_escape tok c =
     (if c = CHR 0x22 \<or> c = CHR 0x5C \<or> c = CHR ''/'' then Next (back_to_saved (pb_append [c] tok))
      else if c = CHR ''b'' then Next (back_to_saved (pb_append [CHR 0x08] tok))
      else if c = CHR ''n'' then Next (back_to_saved (pb_append [CHR 0x0A] tok))
      else if c = CHR ''r'' then Next (back_to_saved (pb_append [CHR 0x0D] tok))
      else if c = CHR ''t'' then Next (back_to_saved (pb_append [CHR 0x09] tok))
      else if c = CHR ''f'' then Next (back_to_saved (pb_append [CHR 0x0C] tok))
      else if c = CHR ''u'' then Next ((set_state S_escape_unicode tok)\<lparr> tk_ucs_char := 0, tk_st_pos := 0 \<rparr>)
      else Out json_tokener_error_parse_string tok)"

section \<open>Unicode escapes\<close>

definition jt_hexdigit :: "char \<Rightarrow> nat" where
  "jt_hexdigit c = (if byte c \<le> (57 :: nat) then byte c - 48 else byte c mod 8 + 9)"

definition utf8_replacement_char :: bytes where
  "utf8_replacement_char = [CHR 0xEF, CHR 0xBF, CHR 0xBD]"

definition is_high_surrogate :: "u32 \<Rightarrow> bool" where
  "is_high_surrogate uc \<longleftrightarrow> uc AND 0xFC00 = 0xD800"

definition is_low_surrogate :: "u32 \<Rightarrow> bool" where
  "is_low_surrogate uc \<longleftrightarrow> uc AND 0xFC00 = 0xDC00"

definition decode_surrogate_pair :: "u32 \<Rightarrow> u32 \<Rightarrow> u32" where
  "decode_surrogate_pair hi lo = push_bit 10 (hi AND 0x3FF) + (lo AND 0x3FF) + 0x10000"

definition u8 :: "u32 \<Rightarrow> char" where
  "u8 w = char_of (unat w mod 256)"

definition cont_byte :: "nat \<Rightarrow> u32 \<Rightarrow> char" where
  "cont_byte n uc = u8 (0x80 OR (drop_bit n uc AND 0x3F))"

definition utf8_encode :: "u32 \<Rightarrow> bytes" where
  "utf8_encode uc =
     (if uc < 0x80 then [u8 uc]
      else if uc < 0x800 then [u8 (0xC0 OR drop_bit 6 uc), cont_byte 0 uc]
      else if is_low_surrogate uc then utf8_replacement_char
      else if uc < 0x10000 then [u8 (0xE0 OR drop_bit 12 uc), cont_byte 6 uc, cont_byte 0 uc]
      else if uc < 0x110000
        then [u8 (0xF0 OR (drop_bit 18 uc AND 0x07)), cont_byte 12 uc, cont_byte 6 uc, cont_byte 0 uc]
      else utf8_replacement_char)"

text \<open>A complete \<open>\uNNNN\<close>: the pending high surrogate is settled first.\<close>

definition unicode_done :: "json_tokener \<Rightarrow> json_tokener" where
  "unicode_done tok =
     (let tok = (if tk_high_surrogate tok \<noteq> 0
                 then (if is_low_surrogate (tk_ucs_char tok)
                       then tok\<lparr> tk_ucs_char := decode_surrogate_pair (tk_high_surrogate tok) (tk_ucs_char tok) \<rparr>
                       else pb_append utf8_replacement_char tok)\<lparr> tk_high_surrogate := 0 \<rparr>
                 else tok)
      in if 0x800 \<le> tk_ucs_char tok \<and> is_high_surrogate (tk_ucs_char tok)
         then (set_state S_need_escape tok)\<lparr> tk_high_surrogate := tk_ucs_char tok, tk_ucs_char := 0 \<rparr>
         else back_to_saved (pb_append (utf8_encode (tk_ucs_char tok)) tok))"

definition step_escape_unicode :: "json_tokener \<Rightarrow> char \<Rightarrow> tok_outcome" where
  "step_escape_unicode tok c =
     (if c \<notin> set json_hex_chars then Out json_tokener_error_parse_string tok
      else let tok = tok\<lparr> tk_ucs_char := tk_ucs_char tok OR push_bit ((3 - tk_st_pos tok) * 4) (word_of_nat (jt_hexdigit c)),
                          tk_st_pos := tk_st_pos tok + 1 \<rparr>
           in if tk_st_pos tok < 4 then Next tok else Next (unicode_done (tok\<lparr> tk_st_pos := 0 \<rparr>)))"

definition drop_high :: "json_tokener \<Rightarrow> json_tokener" where
  "drop_high tok = (pb_append utf8_replacement_char tok)\<lparr> tk_high_surrogate := 0, tk_ucs_char := 0, tk_st_pos := 0 \<rparr>"

definition step_need_escape :: "json_tokener \<Rightarrow> char \<Rightarrow> tok_outcome" where
  "step_need_escape tok c =
     (if c \<noteq> CHR 0x5C then Redo (back_to_saved (drop_high tok)) else Next (set_state S_need_u tok))"

definition step_need_u :: "json_tokener \<Rightarrow> char \<Rightarrow> tok_outcome" where
  "step_need_u tok c =
     (if c \<noteq> CHR ''u'' then Redo (set_state S_string_escape (drop_high tok)) else Next (set_state S_escape_unicode tok))"

section \<open>Numbers\<close>

text \<open>
  The loop over the bytes of a number: the flags that tell whether an exponent has begun and
  whether a sign may come, the bytes taken and the bytes left.
\<close>

fun number_scan :: "bool \<Rightarrow> bool \<Rightarrow> bool \<Rightarrow> bool \<Rightarrow> bytes \<Rightarrow> bool \<times> bytes \<times> bytes" where
  "number_scan is_double is_exponent neg_sign_ok pos_sign_ok [] = (is_double, [], [])"
| "number_scan is_double is_exponent neg_sign_ok pos_sign_ok (c # cs) =
     (if c \<noteq> NUL \<and> (is_digit c \<or> (\<not> is_exponent \<and> (c = CHR ''e'' \<or> c = CHR ''E'')) \<or>
          (neg_sign_ok \<and> c = CHR ''-'') \<or> (pos_sign_ok \<and> c = CHR ''+'') \<or> (\<not> is_double \<and> c = CHR ''.''))
      then (case (if c = CHR ''.'' then number_scan True is_exponent True True cs
                  else if c = CHR ''e'' \<or> c = CHR ''E'' then number_scan True True True True cs
                  else number_scan is_double is_exponent False False cs) of
              (d, taken, rest) \<Rightarrow> (d, c # taken, rest))
      else (is_double, [], c # cs))"

definition sign_ok :: "bytes \<Rightarrow> bool" where
  "sign_ok pb \<longleftrightarrow>
     (let e = (if CHR ''e'' \<in> set pb then CHR ''e'' else CHR ''E'')
      in e \<in> set pb \<longrightarrow> dropWhile (\<lambda>c. c \<noteq> e) pb = [e])"

definition has_exponent :: "bytes \<Rightarrow> bool" where
  "has_exponent pb \<longleftrightarrow> CHR ''e'' \<in> set pb \<or> CHR ''E'' \<in> set pb"

text \<open>The bytes that may be dropped from the end of a double, as long as one byte remains.\<close>

fun trim_number :: "bytes \<Rightarrow> bytes" where
  "trim_number (c # d # cs) =
     (if c \<in> {CHR ''e'', CHR ''E'', CHR ''-'', CHR ''+''} then trim_number (d # cs) else c # d # cs)"
| "trim_number cs = cs"

text \<open>The value of a number, from the collected bytes.\<close>

definition number_value :: "(bytes \<Rightarrow> dbl \<times> nat) \<Rightarrow> bool \<Rightarrow> bytes \<Rightarrow> json_object option" where
  "number_value strtod is_double pb =
     (if \<not> is_double \<and> take 1 pb = ''-'' \<and> json_parse_int64 pb \<noteq> None
      then map_option JInt64 (json_parse_int64 pb)
      else if \<not> is_double \<and> take 1 pb \<noteq> ''-'' \<and> json_parse_uint64 pb \<noteq> None
      then map_option (\<lambda>n. if n \<le> INT64_MAX then JInt64 n else JUint64 n) (json_parse_uint64 pb)
      else if is_double \<and> snd (strtod pb) = length pb then Some (JDouble (fst (strtod pb)) pb)
      else None)"

definition number_end :: "char \<Rightarrow> bool" where
  "number_end c \<longleftrightarrow> c \<in> {CHR '','', CHR '']'', CHR ''}'', CHR ''/'', CHR ''I'', CHR ''i''} \<or> isspace c"

definition step_number :: "(bytes \<Rightarrow> dbl \<times> nat) \<Rightarrow> json_tokener \<Rightarrow> bytes \<Rightarrow> tok_outcome" where
  "step_number strtod tok s =
     (case number_scan (tk_is_double tok) (has_exponent (tk_pb tok))
             (sign_ok (tk_pb tok)) (has_exponent (tk_pb tok) \<and> sign_ok (tk_pb tok)) s of
        (d, taken, rest) \<Rightarrow>
          let tok = (pb_append taken tok)\<lparr> tk_is_double := d \<rparr> in
          (case rest of
             [] \<Rightarrow> Out json_tokener_continue tok
           | c # _ \<Rightarrow>
               if 0 < tk_depth tok \<and> \<not> number_end c then Out json_tokener_error_parse_number tok
               else if take 1 (tk_pb tok) = ''-'' \<and> length taken \<le> 1 \<and> (c = CHR ''i'' \<or> c = CHR ''I'')
               then Jump ((set_state S_inf tok)\<lparr> tk_st_pos := 0 \<rparr>) rest
               else
                 let tok = (if d then tok\<lparr> tk_pb := rev (trim_number (rev (tk_pb tok))) \<rparr> else tok) in
                 (case number_value strtod d (tk_pb tok) of
                    Some j \<Rightarrow> Jump (value_done (Some j) tok) rest
                  | None \<Rightarrow> Out json_tokener_error_parse_number tok)))"

section \<open>Containers and white space\<close>

definition step_array :: "json_tokener \<Rightarrow> char \<Rightarrow> tok_outcome" where
  "step_array tok c =
     (if c = CHR '']'' then Next (eat_then S_finish tok)
      else if tk_depth tok \<ge> tk_max_depth tok - 1 then Out json_tokener_error_depth tok
      else Redo (push_level (set_state S_array_add tok)))"

definition step_array_add :: "json_tokener \<Rightarrow> tok_outcome" where
  "step_array_add tok =
     (case json_object_array_add (sr_current (tk_top tok)) (tk_obj tok) of
        Inl e \<Rightarrow> Crash e
      | Inr j \<Rightarrow> Redo (eat_then S_array_sep (set_current j tok)))"

definition step_array_sep :: "json_tokener \<Rightarrow> char \<Rightarrow> tok_outcome" where
  "step_array_sep tok c =
     (if c = CHR '']'' then Next (eat_then S_finish tok)
      else if c = CHR '','' then Next (eat_then S_array_after_sep tok)
      else Out json_tokener_error_parse_array tok)"

definition step_field_start :: "json_tokener \<Rightarrow> char \<Rightarrow> tok_outcome" where
  "step_field_start tok c =
     (if c = CHR ''}'' then Next (eat_then S_finish tok)
      else if c = CHR 0x22 \<or> c = CHR 0x27
      then Next ((set_state (St S_object_field) (pb_reset tok))\<lparr> tk_quote_char := c \<rparr>)
      else Out json_tokener_error_parse_object_key_name tok)"

definition step_field_end :: "json_tokener \<Rightarrow> char \<Rightarrow> tok_outcome" where
  "step_field_end tok c =
     (if c = CHR '':'' then Next (eat_then S_object_value tok) else Out json_tokener_error_parse_object_key_sep tok)"

definition step_object_value :: "json_tokener \<Rightarrow> tok_outcome" where
  "step_object_value tok =
     (if tk_depth tok \<ge> tk_max_depth tok - 1 then Out json_tokener_error_depth tok
      else Redo (push_level (set_state S_object_value_add tok)))"

definition step_object_value_add :: "json_tokener \<Rightarrow> tok_outcome" where
  "step_object_value_add tok =
     (case sr_obj_field_name (tk_top tok) of
        None \<Rightarrow> Crash NullDeref
      | Some key \<Rightarrow>
          (case json_object_object_add (sr_current (tk_top tok)) key (tk_obj tok) of
             Inl e \<Rightarrow> Crash e
           | Inr j \<Rightarrow>
               Redo (eat_then S_object_sep
                 (tok\<lparr> tk_top := (tk_top tok)\<lparr> sr_current := j, sr_obj_field_name := None \<rparr> \<rparr>))))"

definition step_object_sep :: "json_tokener \<Rightarrow> char \<Rightarrow> tok_outcome" where
  "step_object_sep tok c =
     (if c = CHR ''}'' then Next (eat_then S_finish tok)
      else if c = CHR '','' then Next (eat_then S_object_field_start_after_sep tok)
      else Out json_tokener_error_parse_object_value_sep tok)"

definition step_eatws :: "json_tokener \<Rightarrow> char \<Rightarrow> tok_outcome" where
  "step_eatws tok c =
     (if isspace c then Next tok
      else if c = CHR ''/'' then Next (set_state S_comment_start (pb_append [c] (pb_reset tok)))
      else Redo (back_to_saved tok))"

definition step_comment :: "json_tokener \<Rightarrow> char \<Rightarrow> tok_outcome" where
  "step_comment tok c =
     (case sr_state (tk_top tok) of
        S_comment_start \<Rightarrow>
          if c = CHR ''*'' then Next (set_state S_comment (pb_append [c] tok))
          else if c = CHR ''/'' then Next (set_state S_comment_eol (pb_append [c] tok))
          else Out json_tokener_error_parse_comment tok
      | S_comment \<Rightarrow>
          if c = CHR ''*'' then Next (set_state S_comment_end (pb_append [c] tok)) else Next (pb_append [c] tok)
      | S_comment_eol \<Rightarrow>
          if c = CHR 0x0A then Next (set_state S_eatws tok) else Next (pb_append [c] tok)
      | _ \<Rightarrow>
          if c = CHR ''/'' then Next (set_state S_eatws (pb_append [c] tok))
          else Next (set_state S_comment (pb_append [c] tok)))"

section \<open>The loop\<close>

text \<open>\<open>switch (state)\<close> at the byte \<open>c\<close>, with the bytes after it.\<close>

definition tok_step :: "(bytes \<Rightarrow> dbl \<times> nat) \<Rightarrow> json_tokener \<Rightarrow> char \<Rightarrow> bytes \<Rightarrow> tok_outcome" where
  "tok_step strtod tok c cs =
     (case sr_state (tk_top tok) of
        S_eatws \<Rightarrow> step_eatws tok c
      | St S_start \<Rightarrow> step_start tok c
      | St S_finish \<Rightarrow> step_finish tok
      | S_inf \<Rightarrow> step_inf tok c
      | S_null \<Rightarrow> step_null tok c
      | S_comment_start \<Rightarrow> step_comment tok c
      | S_comment \<Rightarrow> step_comment tok c
      | S_comment_eol \<Rightarrow> step_comment tok c
      | S_comment_end \<Rightarrow> step_comment tok c
      | St S_string \<Rightarrow> step_string tok c
      | S_string_escape \<Rightarrow> step_string_escape tok c
      | S_escape_unicode \<Rightarrow> step_escape_unicode tok c
      | S_need_escape \<Rightarrow> step_need_escape tok c
      | S_need_u \<Rightarrow> step_need_u tok c
      | S_boolean \<Rightarrow> step_boolean tok c
      | S_number \<Rightarrow> step_number strtod tok (c # cs)
      | St S_array_after_sep \<Rightarrow> step_array tok c
      | St S_array \<Rightarrow> step_array tok c
      | S_array_add \<Rightarrow> step_array_add tok
      | St S_array_sep \<Rightarrow> step_array_sep tok c
      | St S_object_field_start \<Rightarrow> step_field_start tok c
      | St S_object_field_start_after_sep \<Rightarrow> step_field_start tok c
      | St S_object_field \<Rightarrow> step_object_field tok c
      | St S_object_field_end \<Rightarrow> step_field_end tok c
      | St S_object_value \<Rightarrow> step_object_value tok
      | S_object_value_add \<Rightarrow> step_object_value_add tok
      | St S_object_sep \<Rightarrow> step_object_sep tok c)"

text \<open>
  Looking at the same byte again does not go on for ever: each level of the stack has a
  weight, and every \<open>goto redo_char\<close> makes the sum of the weights smaller.
\<close>

fun saved_weight :: "saved_state \<Rightarrow> nat" where
  "saved_weight S_finish = 1"
| "saved_weight S_start = 5"
| "saved_weight S_array = 9"
| "saved_weight S_array_after_sep = 9"
| "saved_weight S_object_value = 9"
| "saved_weight _ = 0"

fun level_weight :: "json_tokener_srec \<Rightarrow> nat" where
  "level_weight lv =
     (case sr_state lv of
        St sv \<Rightarrow> saved_weight sv
      | S_eatws \<Rightarrow> 1 + saved_weight (sr_saved_state lv)
      | S_need_escape \<Rightarrow> 1 + saved_weight (sr_saved_state lv)
      | S_need_u \<Rightarrow> 1
      | S_null \<Rightarrow> 3 | S_inf \<Rightarrow> 3 | S_boolean \<Rightarrow> 3 | S_number \<Rightarrow> 4
      | S_array_add \<Rightarrow> 2 | S_object_value_add \<Rightarrow> 2
      | _ \<Rightarrow> 0)"

definition tok_weight :: "json_tokener \<Rightarrow> nat" where
  "tok_weight tok = level_weight (tk_top tok) + sum_list (map level_weight (tk_below tok))"

lemmas tok_set_defs = set_state_def eat_then_def set_current_def set_saved_def pb_append_def pb_reset_def
  push_level_def value_done_def drop_high_def

lemmas step_defs = step_eatws_def step_start_def step_finish_def step_inf_def step_null_def step_comment_def
  step_string_def step_string_escape_def step_escape_unicode_def step_need_escape_def step_need_u_def
  step_boolean_def step_array_def step_array_add_def step_array_sep_def step_field_start_def
  step_object_field_def step_field_end_def step_object_value_def step_object_value_add_def step_object_sep_def

lemmas weight_simps = tok_set_defs tok_weight_def fresh_level_def Let_def

lemma redo_eatws: "step_eatws tok c = Redo tok' \<Longrightarrow> sr_state (tk_top tok) = S_eatws \<Longrightarrow> tok_weight tok' < tok_weight tok"
  by (auto simp: step_eatws_def weight_simps split: if_splits)

lemma redo_start: "step_start tok c = Redo tok' \<Longrightarrow> sr_state (tk_top tok) = St S_start \<Longrightarrow> tok_weight tok' < tok_weight tok"
  by (simp only: step_start_def split: if_split_asm) (clarsimp simp: weight_simps)+

lemma redo_finish: "step_finish tok = Redo tok' \<Longrightarrow> sr_state (tk_top tok) = St S_finish \<Longrightarrow> tok_weight tok' < tok_weight tok"
  by (cases "tk_below tok")
    (auto simp: step_finish_def tok_weight_def simp del: level_weight.simps simp: level_weight.simps [of "tk_top tok"])

lemma redo_inf: "step_inf tok c = Redo tok' \<Longrightarrow> sr_state (tk_top tok) = S_inf \<Longrightarrow> tok_weight tok' < tok_weight tok"
  by (auto simp: step_inf_def weight_simps split: if_splits)

lemma redo_null: "step_null tok c = Redo tok' \<Longrightarrow> sr_state (tk_top tok) = S_null \<Longrightarrow> tok_weight tok' < tok_weight tok"
  by (auto simp: step_null_def weight_simps split: if_splits)

lemma redo_boolean: "step_boolean tok c = Redo tok' \<Longrightarrow> sr_state (tk_top tok) = S_boolean \<Longrightarrow> tok_weight tok' < tok_weight tok"
  by (auto simp: step_boolean_def weight_simps split: if_splits)

lemma redo_need_escape: "step_need_escape tok c = Redo tok' \<Longrightarrow> sr_state (tk_top tok) = S_need_escape \<Longrightarrow> tok_weight tok' < tok_weight tok"
  by (auto simp: step_need_escape_def weight_simps split: if_splits)

lemma redo_need_u: "step_need_u tok c = Redo tok' \<Longrightarrow> sr_state (tk_top tok) = S_need_u \<Longrightarrow> tok_weight tok' < tok_weight tok"
  by (auto simp: step_need_u_def weight_simps split: if_splits)

lemma redo_array: "step_array tok c = Redo tok' \<Longrightarrow> sr_state (tk_top tok) \<in> {St S_array, St S_array_after_sep} \<Longrightarrow>
    tok_weight tok' < tok_weight tok"
  by (auto simp: step_array_def weight_simps split: if_splits)

lemma redo_array_add: "step_array_add tok = Redo tok' \<Longrightarrow> sr_state (tk_top tok) = S_array_add \<Longrightarrow> tok_weight tok' < tok_weight tok"
  by (auto simp: step_array_add_def weight_simps split: sum.splits)

lemma redo_object_value: "step_object_value tok = Redo tok' \<Longrightarrow> sr_state (tk_top tok) = St S_object_value \<Longrightarrow>
    tok_weight tok' < tok_weight tok"
  by (auto simp: step_object_value_def weight_simps split: if_splits)

lemma redo_object_value_add: "step_object_value_add tok = Redo tok' \<Longrightarrow> sr_state (tk_top tok) = S_object_value_add \<Longrightarrow>
    tok_weight tok' < tok_weight tok"
  by (auto simp: step_object_value_add_def weight_simps split: option.splits sum.splits)

lemma no_redo:
  "step_comment tok c \<noteq> Redo tok'" "step_string tok c \<noteq> Redo tok'" "step_string_escape tok c \<noteq> Redo tok'"
  "step_escape_unicode tok c \<noteq> Redo tok'" "step_array_sep tok c \<noteq> Redo tok'" "step_field_start tok c \<noteq> Redo tok'"
  "step_object_field tok c \<noteq> Redo tok'" "step_field_end tok c \<noteq> Redo tok'" "step_object_sep tok c \<noteq> Redo tok'"
  "step_number strtod tok s \<noteq> Redo tok'"
  by (auto simp: step_comment_def step_string_def step_string_escape_def step_escape_unicode_def step_array_sep_def
      step_field_start_def step_object_field_def step_field_end_def step_object_sep_def step_number_def Let_def
      split: tok_state.split prod.split list.split option.split)

lemma redo_weight:
  assumes "tok_step strtod tok c cs = Redo tok'"
  shows "tok_weight tok' < tok_weight tok"
proof (cases "sr_state (tk_top tok)")
  case (St sv)
  then show ?thesis using assms redo_start redo_finish redo_array redo_object_value
    by (cases sv) (simp_all add: tok_step_def no_redo)
qed (use assms redo_eatws redo_inf redo_null redo_boolean redo_need_escape redo_need_u redo_array_add
    redo_object_value_add in \<open>simp_all add: tok_step_def no_redo\<close>)

lemma number_scan_length: "number_scan d e n p s = (d', taken, rest) \<Longrightarrow> length taken + length rest = length s"
  by (induction d e n p s arbitrary: d' taken rest rule: number_scan.induct)
    (auto split: if_splits prod.splits)

lemma jump_number:
  assumes "step_number strtod tok s = Jump tok' rest" and "sr_state (tk_top tok) = S_number"
  shows "length rest \<le> length s \<and> tok_weight tok' < tok_weight tok"
proof -
  obtain d taken r where scan: "number_scan (tk_is_double tok) (has_exponent (tk_pb tok))
      (sign_ok (tk_pb tok)) (has_exponent (tk_pb tok) \<and> sign_ok (tk_pb tok)) s = (d, taken, r)"
    by (cases "number_scan (tk_is_double tok) (has_exponent (tk_pb tok))
      (sign_ok (tk_pb tok)) (has_exponent (tk_pb tok) \<and> sign_ok (tk_pb tok)) s")
  then have "length r \<le> length s" by (drule_tac number_scan_length) simp
  then show ?thesis using assms scan
    by (auto simp: step_number_def weight_simps split: list.splits if_splits option.splits)
qed

lemma no_jump:
  "step_comment tok c \<noteq> Jump tok' r" "step_string tok c \<noteq> Jump tok' r" "step_string_escape tok c \<noteq> Jump tok' r"
  "step_escape_unicode tok c \<noteq> Jump tok' r" "step_array_sep tok c \<noteq> Jump tok' r" "step_field_start tok c \<noteq> Jump tok' r"
  "step_object_field tok c \<noteq> Jump tok' r" "step_field_end tok c \<noteq> Jump tok' r" "step_object_sep tok c \<noteq> Jump tok' r"
  "step_eatws tok c \<noteq> Jump tok' r" "step_start tok c \<noteq> Jump tok' r" "step_finish tok \<noteq> Jump tok' r"
  "step_inf tok c \<noteq> Jump tok' r" "step_null tok c \<noteq> Jump tok' r" "step_boolean tok c \<noteq> Jump tok' r"
  "step_need_escape tok c \<noteq> Jump tok' r" "step_need_u tok c \<noteq> Jump tok' r" "step_array tok c \<noteq> Jump tok' r"
  "step_array_add tok \<noteq> Jump tok' r" "step_object_value tok \<noteq> Jump tok' r" "step_object_value_add tok \<noteq> Jump tok' r"
  by (auto simp: step_defs Let_def split: tok_state.split list.split option.split sum.split)

lemma jump_weight:
  assumes "tok_step strtod tok c cs = Jump tok' rest"
  shows "length rest \<le> length (c # cs) \<and> tok_weight tok' < tok_weight tok"
proof (cases "sr_state (tk_top tok)")
  case (St sv)
  then show ?thesis using assms by (cases sv) (simp_all add: tok_step_def no_jump)
qed (use assms jump_number [of strtod tok "c # cs"] in \<open>simp_all add: tok_step_def no_jump\<close>)

text \<open>
  The loop ends with an error code, the tokener, and whether the byte it stopped at is the
  null byte (\<open>c\<close> keeps its last value when the text is used up).
\<close>

function tok_loop :: "(bytes \<Rightarrow> dbl \<times> nat) \<Rightarrow> json_tokener \<Rightarrow> bytes \<Rightarrow> (tok_error \<times> bool \<times> json_tokener) res" where
  "tok_loop strtod tok [] =
     Inr (if tk_depth tok = 0 \<and> sr_state (tk_top tok) = S_eatws \<and> sr_saved_state (tk_top tok) = S_finish
          then json_tokener_success else json_tokener_continue, False, tok)"
| "tok_loop strtod tok (c # cs) =
     (case tok_step strtod tok c cs of
        Next tok' \<Rightarrow> if c = NUL then Inr (json_tokener_success, True, tok') else tok_loop strtod tok' cs
      | Redo tok' \<Rightarrow> tok_loop strtod tok' (c # cs)
      | Jump tok' rest \<Rightarrow> tok_loop strtod tok' rest
      | Out err tok' \<Rightarrow> Inr (err, c = NUL, tok')
      | Crash e \<Rightarrow> Inl e)"
  by pat_completeness auto

termination
  by (relation "measures [\<lambda>(_, _, s). length s, \<lambda>(_, tok, _). tok_weight tok]")
    (auto dest: redo_weight jump_weight)

declare tok_loop.simps [simp del]

text \<open>
  The code after \<open>out\<close>, and the reset of the levels after a success.  The text is one whose length is an
  \<open>int\<close>: a longer one, which is refused with \<open>json_tokener_error_size\<close> before anything is read, is left out.  A packet has at
  most 0x6000 bytes, and a printed document fits the \<open>int\<close> of its print buffer.
\<close>

definition json_tokener_parse_ex ::
  "(bytes \<Rightarrow> dbl \<times> nat) \<Rightarrow> json_tokener \<Rightarrow> bytes \<Rightarrow> (json \<times> tok_error \<times> json_tokener) res" where
  "json_tokener_parse_ex strtod tok s =
     ebind (tok_loop strtod (tok\<lparr> tk_obj := None \<rparr>) s) (\<lambda>(err, at_nul, tok).
       let err = (if at_nul \<and> sr_state (tk_top tok) \<noteq> St S_finish \<and> sr_saved_state (tk_top tok) \<noteq> S_finish
                  then json_tokener_error_parse_eof else err)
       in if err = json_tokener_success
          then Inr (sr_current (tk_top tok), err,
                    tok\<lparr> tk_top := fresh_level, tk_below := map (\<lambda>_. fresh_level) (tk_below tok) \<rparr>)
          else Inr (None, err, tok))"

definition json_tokener_parse :: "(bytes \<Rightarrow> dbl \<times> nat) \<Rightarrow> bytes \<Rightarrow> json res" where
  "json_tokener_parse strtod str =
     ebind (json_tokener_parse_ex strtod json_tokener_new (cstr str @ [NUL])) (\<lambda>(obj, err, tok).
       Inr (if err \<noteq> json_tokener_success then None else obj))"

end
