(* ===== verification/Json_Roundtrip.thy ===== *)
theory Json_Roundtrip
  imports Json_Tokener
begin

text \<open>
  The serialiser and the parser of json-c fit together: what \<open>json_object_to_json_string_ext\<close>
  prints, with any flags, \<open>json_tokener_parse\<close> reads back as the same document, as long as
  it is not nested deeper than the parser's 32 levels.
\<close>

section \<open>Documents that are read back\<close>

text \<open>
  Doubles are left out (their text is whatever it was read from).  The parser makes an
  \<open>int64_t\<close> of every number that fits, keys are C strings and occur once in an object.
\<close>

fun json_ok :: "json_object \<Rightarrow> bool" and json_ptr_ok :: "json \<Rightarrow> bool"
  and json_elems_ok :: "json list \<Rightarrow> bool" and json_members_ok :: "(bytes \<times> json) list \<Rightarrow> bool" where
  "json_ok (JBool b) = True"
| "json_ok (JDouble d t) = False"
| "json_ok (JInt64 i) = True"
| "json_ok (JUint64 i) = (INT64_MAX < i)"
| "json_ok (JStr s) = True"
| "json_ok (JArr xs) = json_elems_ok xs"
| "json_ok (JObj es) = (distinct (map fst es) \<and> json_members_ok es)"
| "json_ptr_ok None = True"
| "json_ptr_ok (Some j) = json_ok j"
| "json_elems_ok [] = True"
| "json_elems_ok (x # xs) = (json_ptr_ok x \<and> json_elems_ok xs)"
| "json_members_ok [] = True"
| "json_members_ok ((k, v) # es) = (NUL \<notin> set k \<and> json_ptr_ok v \<and> json_members_ok es)"

text \<open>How many levels of the parser's stack a value needs above its own.\<close>

fun json_depth :: "json_object \<Rightarrow> nat" and json_ptr_depth :: "json \<Rightarrow> nat"
  and json_elems_depth :: "json list \<Rightarrow> nat" and json_members_depth :: "(bytes \<times> json) list \<Rightarrow> nat" where
  "json_depth (JArr xs) = json_elems_depth xs"
| "json_depth (JObj es) = json_members_depth es"
| "json_depth _ = 0"
| "json_ptr_depth None = 0"
| "json_ptr_depth (Some j) = json_depth j"
| "json_elems_depth [] = 0"
| "json_elems_depth (x # xs) = max (Suc (json_ptr_depth x)) (json_elems_depth xs)"
| "json_members_depth [] = 0"
| "json_members_depth ((k, v) # es) = max (Suc (json_ptr_depth v)) (json_members_depth es)"

section \<open>Single steps\<close>

lemma loop_Next:
  "tok_step strtod tok c cs = Next tok' \<Longrightarrow> c \<noteq> NUL \<Longrightarrow> tok_loop strtod tok (c # cs) = tok_loop strtod tok' cs"
  by (simp add: tok_loop.simps)

lemma loop_Redo:
  "tok_step strtod tok c cs = Redo tok' \<Longrightarrow> tok_loop strtod tok (c # cs) = tok_loop strtod tok' (c # cs)"
  by (subst tok_loop.simps) simp

lemma loop_Jump:
  "tok_step strtod tok c cs = Jump tok' rest \<Longrightarrow> tok_loop strtod tok (c # cs) = tok_loop strtod tok' rest"
  by (simp add: tok_loop.simps)

lemma space_not_NUL: "isspace c \<Longrightarrow> c \<noteq> NUL"
  by (auto simp: isspace_def NUL_def)

text \<open>White space is skipped in \<open>S_eatws\<close>, and another byte is looked at in the saved state.\<close>

lemma skip_spaces:
  "sr_state (tk_top tok) = S_eatws \<Longrightarrow> list_all isspace ws \<Longrightarrow> tok_loop strtod tok (ws @ s) = tok_loop strtod tok s"
  by (induction ws) (simp_all add: loop_Next tok_step_def step_eatws_def space_not_NUL)

lemma leave_spaces:
  assumes "sr_state (tk_top tok) = S_eatws" and "\<not> isspace c" and "c \<noteq> CHR ''/''"
  shows "tok_loop strtod tok (c # cs) = tok_loop strtod (back_to_saved tok) (c # cs)"
  using assms by (simp add: loop_Redo tok_step_def step_eatws_def)

section \<open>Levels\<close>

definition level :: "saved_state \<Rightarrow> json \<Rightarrow> bytes option \<Rightarrow> json_tokener_srec" where
  "level sv j key = \<lparr> sr_state = S_eatws, sr_saved_state = sv, sr_current = j, sr_obj_field_name = key \<rparr>"

lemma fresh_level_eq: "fresh_level = level S_start None None"
  by (simp add: fresh_level_def level_def)

lemma level_sel [simp]:
  "sr_state (level sv j k) = S_eatws" "sr_saved_state (level sv j k) = sv"
  "sr_current (level sv j k) = j" "sr_obj_field_name (level sv j k) = k"
  by (simp_all add: level_def)

text \<open>\<open>goes strtod tok lv s rest\<close>: reading \<open>s\<close> leaves the level \<open>lv\<close> on top of the same stack.\<close>

definition goes ::
  "(bytes \<Rightarrow> dbl \<times> nat) \<Rightarrow> json_tokener \<Rightarrow> bytes \<Rightarrow> json_tokener_srec \<Rightarrow> bytes \<Rightarrow> bool" where
  "goes strtod tok s lv rest \<longleftrightarrow>
     (\<exists>tok'. tok_loop strtod tok (s @ rest) = tok_loop strtod tok' rest \<and> tk_top tok' = lv \<and>
        tk_below tok' = tk_below tok \<and> tk_max_depth tok' = tk_max_depth tok \<and> tk_high_surrogate tok' = 0)"

text \<open>What may follow a value: white space or a separator, and the null byte at the outermost level.\<close>

definition ends_value :: "nat \<Rightarrow> bytes \<Rightarrow> bool" where
  "ends_value depth rest \<longleftrightarrow>
     (case rest of [] \<Rightarrow> False | c # _ \<Rightarrow> c \<in> {CHR '','', CHR '']'', CHR ''}''} \<or> isspace c \<or> (c = NUL \<and> depth = 0))"

text \<open>The first byte of a value on a fresh level.\<close>

lemma start_redo:
  assumes "tk_top tok = fresh_level" and "\<not> isspace c" and "c \<noteq> CHR ''/''"
    and "step_start (set_state (St S_start) tok) c = Redo tok'"
  shows "tok_loop strtod tok (c # cs) = tok_loop strtod tok' (c # cs)"
proof -
  have "tok_loop strtod tok (c # cs) = tok_loop strtod (set_state (St S_start) tok) (c # cs)"
    using leave_spaces [of tok c] assms by (simp add: fresh_level_eq)
  also have "\<dots> = tok_loop strtod tok' (c # cs)"
    using assms(4) by (intro loop_Redo) (simp add: tok_step_def set_state_def)
  finally show ?thesis .
qed

lemma start_next:
  assumes "tk_top tok = fresh_level" and "\<not> isspace c" and "c \<noteq> CHR ''/''" and "c \<noteq> NUL"
    and "step_start (set_state (St S_start) tok) c = Next tok'"
  shows "tok_loop strtod tok (c # cs) = tok_loop strtod tok' cs"
proof -
  have "tok_loop strtod tok (c # cs) = tok_loop strtod (set_state (St S_start) tok) (c # cs)"
    using leave_spaces [of tok c] assms by (simp add: fresh_level_eq)
  also have "\<dots> = tok_loop strtod tok' cs"
    using assms(4,5) by (intro loop_Next) (simp_all add: tok_step_def set_state_def)
  finally show ?thesis .
qed

section \<open>Numbers\<close>

lemma read_int_nat: "\<forall>c \<in> set xs. is_digit c \<Longrightarrow> read_int (int a) xs = int (read_nat a xs)"
proof (induction xs arbitrary: a)
  case (Cons c xs)
  obtain k where k: "byte c = 48 + k" using Cons.prems le_Suc_ex [of 48 "byte c"] by (auto simp: is_digit_def)
  then show ?case using Cons.IH [of "10 * a + k"] Cons.prems by simp
qed simp

lemma read_int_show: "read_int 0 (show_nat n) = int n"
  using read_int_nat [of "show_nat n" 0] by (simp add: show_nat_digits read_show_nat)


lemma digit_chars:
  "is_digit c \<Longrightarrow> c \<noteq> NUL \<and> \<not> isspace c \<and> c \<notin> {CHR ''.'', CHR ''e'', CHR ''E'', CHR ''-'', CHR ''+'', CHR '' ''}"
  by (auto simp: is_digit_def NUL_def isspace_def)

lemma show_nat_Cons: "\<exists>d ds. show_nat n = d # ds \<and> is_digit d"
  using show_nat_digits [of "hd (show_nat n)" n] by (cases "show_nat n") auto

lemma cstr_show_nat [simp]: "cstr (show_nat n) = show_nat n"
  by (rule cstr_id) (auto dest: show_nat_digits digit_chars)

lemma strto_digits_nat: "strto_digits (show_nat n) = Some (False, int n)"
proof -
  obtain d ds where s: "show_nat n = d # ds" and d: "is_digit d" using show_nat_Cons by blast
  have "read_int 0 (d # ds) = int n" using read_int_show [of n] s by simp
  then show ?thesis using digit_chars [OF d] d by (simp add: s)
qed

lemma strto_digits_neg: "strto_digits (CHR ''-'' # show_nat n) = Some (True, int n)"
proof -
  obtain d ds where s: "show_nat n = d # ds" and d: "is_digit d" using show_nat_Cons by blast
  have "read_int 0 (d # ds) = int n" using read_int_show [of n] s by simp
  then show ?thesis using d by (simp add: s isspace_def)
qed

lemma parse_uint64_show: "n < 2 ^ 64 \<Longrightarrow> json_parse_uint64 (show_nat n) = Some (word_of_nat n)"
proof -
  assume n: "n < 2 ^ 64"
  obtain d ds where s: "show_nat n = d # ds" and d: "is_digit d" using show_nat_Cons by blast
  have "strtoull (d # ds) = Some (word_of_nat n)"
    using n strto_digits_nat [of n] by (simp add: strtoull_def s del: strto_digits.simps)
  then show ?thesis using digit_chars [OF d] cstr_show_nat [of n]
    by (simp add: json_parse_uint64_def s)
qed

lemma parse_uint64_u64: "json_parse_uint64 (show_nat (unat (i :: u64))) = Some i"
  using parse_uint64_show [of "unat i"] unsigned_less [of i] by simp

lemma parse_int64_show_neg: "n \<le> 2 ^ 63 \<Longrightarrow> json_parse_int64 (CHR ''-'' # show_nat n) = Some (word_of_int (- int n))"
proof -
  assume n: "n \<le> 2 ^ 63"
  have "NUL \<notin> set (CHR ''-'' # show_nat n)" by (auto simp: NUL_def is_digit_def dest!: show_nat_digits)
  then have "cstr (CHR ''-'' # show_nat n) = CHR ''-'' # show_nat n" by (rule cstr_id)
  then show ?thesis using n strto_digits_neg [of n]
    by (simp add: json_parse_int64_def strtoll_def del: strto_digits.simps)
qed

lemma sint_u64: "sint (i::u64) = (if uint i < 2 ^ 63 then uint i else uint i - 2 ^ 64)"
proof -
  have u: "0 \<le> uint i" "uint i < 2 ^ 64" using uint_lt2p [of i] by simp_all
  have s: "sint i = (uint i + 2 ^ 63) mod 2 ^ 64 - 2 ^ 63"
    by (simp add: sint_uint signed_take_bit_eq_take_bit_shift take_bit_eq_mod)
  show ?thesis
  proof (cases "uint i < 2 ^ 63")
    case True
    then show ?thesis using u s by simp
  next
    case False
    then have "(uint i + 2 ^ 63) mod 2 ^ 64 = uint i + 2 ^ 63 - 2 ^ 64"
      using u by (intro int_mod_pos_eq [where q = 1]) (simp_all)
    then show ?thesis using False s by simp
  qed
qed

lemma number_value_int64: "number_value strtod False (show_int (sint (i :: u64))) = Some (JInt64 i)"
proof (cases "sint i < 0")
  case True
  have "- (2 ^ 63) \<le> sint i" using sint_greater_eq [of i] by simp
  then have n: "nat (- sint i) \<le> 2 ^ 63" by simp
  show ?thesis using True parse_int64_show_neg [OF n] by (simp add: number_value_def show_int_def)
next
  case False
  then have u: "uint i < 2 ^ 63" using uint_lt2p [of i] by (auto simp: sint_u64 split: if_splits)
  then have eq: "nat (sint i) = unat i" by (simp add: sint_u64)
  have le: "i \<le> INT64_MAX" using u by (simp add: word_le_def)
  obtain d ds where s: "show_nat (unat i) = d # ds" and d: "is_digit d" using show_nat_Cons by blast
  show ?thesis using False parse_uint64_u64 [of i] le digit_chars [OF d]
    by (simp add: number_value_def show_int_def eq s)
qed

lemma number_value_uint64:
  assumes "INT64_MAX < (i :: u64)"
  shows "number_value strtod False (show_nat (unat i)) = Some (JUint64 i)"
proof -
  obtain d ds where s: "show_nat (unat i) = d # ds" and d: "is_digit d" using show_nat_Cons by blast
  show ?thesis using assms parse_uint64_u64 [of i] digit_chars [OF d]
    by (simp add: number_value_def s)
qed


text \<open>The loop over the digits stops at what ends a value.\<close>

lemma ends_valueE:
  assumes "ends_value depth rest"
  obtains c r where "rest = c # r" and "\<not> is_digit c"
    and "c \<notin> {CHR ''.'', CHR ''e'', CHR ''E'', CHR ''-'', CHR ''+'', CHR ''i'', CHR ''I'', CHR ''/''}"
    and "depth > 0 \<Longrightarrow> number_end c"
  using assms by (cases rest) (auto simp: ends_value_def isspace_def NUL_def is_digit_def number_end_def)

lemma scan_digits:
  assumes "\<forall>c \<in> set ds. is_digit c" and "ends_value depth rest"
  shows "number_scan False False False False (ds @ rest) = (False, ds, rest)"
  using assms(1)
proof (induction ds)
  case Nil
  then show ?case using assms(2) by (auto elim!: ends_valueE)
next
  case (Cons d ds)
  then show ?case using digit_chars [of d] by simp
qed

lemma scan_nat:
  assumes "ends_value depth rest"
  shows "number_scan False False True False (show_nat n @ rest) = (False, show_nat n, rest)"
proof -
  obtain d ds where s: "show_nat n = d # ds" and d: "is_digit d" using show_nat_Cons by blast
  have "\<forall>c \<in> set ds. is_digit c" using show_nat_digits [of _ n] s by simp
  then show ?thesis using scan_digits [OF _ assms, of ds] digit_chars [OF d] d by (simp add: s)
qed

lemma scan_neg:
  assumes "ends_value depth rest"
  shows "number_scan False False True False (CHR ''-'' # show_nat n @ rest) = (False, CHR ''-'' # show_nat n, rest)"
  using scan_digits [OF _ assms, of "show_nat n"] show_nat_digits by (simp add: NUL_def)

lemma scan_int:
  "ends_value depth rest \<Longrightarrow> number_scan False False True False (show_int i @ rest) = (False, show_int i, rest)"
  by (simp add: show_int_def scan_nat scan_neg del: number_scan.simps)

lemma start_number:
  assumes "is_digit c \<or> c = CHR ''-''"
  shows "step_start tok c = Redo ((set_state S_number (pb_reset tok))\<lparr> tk_is_double := False \<rparr>)"
proof (cases "is_digit c")
  case True
  then have "c \<notin> {CHR ''{'', CHR ''['', CHR ''I'', CHR ''i'', CHR ''N'', CHR ''n'', CHR 0x27, CHR 0x22, CHR ''T'',
      CHR ''t'', CHR ''F'', CHR ''f''}"
    by (auto simp: is_digit_def)
  then show ?thesis using True by (simp add: step_start_def)
next
  case False
  then show ?thesis using assms by (simp add: step_start_def)
qed

lemma number_goes:
  assumes top: "tk_top tok = fresh_level" and high: "tk_high_surrogate tok = 0"
    and s: "s = c # s'" "is_digit c \<or> c = CHR ''-''"
    and rest: "ends_value (tk_depth tok) rest"
    and scan: "number_scan False False True False (s @ rest) = (False, s, rest)"
    and val: "number_value strtod False s = Some j"
  shows "goes strtod tok s (level S_finish (Some j) None) rest"
proof -
  define tok1 where "tok1 = (set_state S_number (pb_reset (set_state (St S_start) tok)))\<lparr> tk_is_double := False \<rparr>"
  have c: "\<not> isspace c" "c \<noteq> CHR ''/''"
    using s(2) digit_chars [of c] by (auto simp: isspace_def is_digit_def)
  have "tok_loop strtod tok (s @ rest) = tok_loop strtod tok1 (s @ rest)"
    using start_redo [OF top c] start_number [OF s(2)] by (simp add: s(1) tok1_def)
  also have "\<dots> = tok_loop strtod (value_done (Some j) ((pb_append s tok1)\<lparr> tk_is_double := False \<rparr>)) rest"
  proof -
    obtain e r where r: "rest = e # r" "e \<notin> {CHR ''i'', CHR ''I''}" "tk_below tok = [] \<or> number_end e"
      using rest by (auto elim!: ends_valueE)
    have "step_number strtod tok1 (s @ rest) = Jump (value_done (Some j) ((pb_append s tok1)\<lparr> tk_is_double := False \<rparr>)) rest"
      using r scan val
      by (simp add: step_number_def tok1_def tok_set_defs has_exponent_def sign_ok_def Let_def)
    then show ?thesis by (simp add: s(1) loop_Jump tok_step_def tok1_def set_state_def pb_reset_def)
  qed
  finally show ?thesis unfolding goes_def
    by (intro exI [of _ "value_done (Some j) ((pb_append s tok1)\<lparr> tk_is_double := False \<rparr>)"])
      (simp add: tok1_def tok_set_defs top fresh_level_eq high level_def)
qed


section \<open>Strings\<close>

text \<open>Inside a string or a key: what has been read is in the buffer.\<close>

definition in_string :: "saved_state \<Rightarrow> bytes \<Rightarrow> json_tokener_srec \<Rightarrow> json_tokener \<Rightarrow> json_tokener \<Rightarrow> bool" where
  "in_string sv pb lv tok0 tok \<longleftrightarrow>
     sv \<in> {S_string, S_object_field} \<and> sr_state (tk_top tok) = St sv \<and> tk_quote_char tok = CHR 0x22 \<and>
     tk_pb tok = pb \<and> sr_current (tk_top tok) = sr_current lv \<and> sr_obj_field_name (tk_top tok) = sr_obj_field_name lv \<and>
     tk_below tok = tk_below tok0 \<and> tk_max_depth tok = tk_max_depth tok0 \<and> tk_high_surrogate tok = 0"

lemma plain_char:
  assumes "in_string sv pb lv tok0 tok" and "c \<noteq> CHR 0x22" and "c \<noteq> CHR 0x5C" and "c \<noteq> NUL"
  shows "\<exists>tok'. tok_loop strtod tok (c # cs) = tok_loop strtod tok' cs \<and> in_string sv (pb @ [c]) lv tok0 tok'"
  using assms
  by (intro exI [of _ "pb_append [c] tok"])
    (auto simp: in_string_def loop_Next tok_step_def step_string_def step_object_field_def pb_append_def)

lemma backslash:
  assumes "in_string sv pb lv tok0 tok"
  shows "tok_loop strtod tok (CHR 0x5C # cs) = tok_loop strtod (set_state S_string_escape (set_saved sv tok)) cs"
  using assms
  by (auto simp: in_string_def loop_Next tok_step_def step_string_def step_object_field_def NUL_def)

definition simple_escapes :: "(char \<times> char) set" where
  "simple_escapes = {(CHR 0x22, CHR 0x22), (CHR 0x5C, CHR 0x5C), (CHR ''/'', CHR ''/''), (CHR ''b'', CHR 0x08),
     (CHR ''n'', CHR 0x0A), (CHR ''r'', CHR 0x0D), (CHR ''t'', CHR 0x09), (CHR ''f'', CHR 0x0C)}"

lemma simple_escape:
  assumes "in_string sv pb lv tok0 tok"
    and "(e, c) \<in> simple_escapes"
  shows "\<exists>tok'. tok_loop strtod tok (CHR 0x5C # e # cs) = tok_loop strtod tok' cs \<and> in_string sv (pb @ [c]) lv tok0 tok'"
proof -
  let ?t = "set_state S_string_escape (set_saved sv tok)"
  have "tok_step strtod ?t e cs = Next (back_to_saved (pb_append [c] ?t))" and "e \<noteq> NUL"
    using assms(2) by (auto simp: simple_escapes_def tok_step_def step_string_escape_def set_state_def NUL_def)
  then have "tok_loop strtod tok (CHR 0x5C # e # cs) = tok_loop strtod (back_to_saved (pb_append [c] ?t)) cs"
    using backslash [OF assms(1)] by (simp add: loop_Next)
  moreover have "in_string sv (pb @ [c]) lv tok0 (back_to_saved (pb_append [c] ?t))"
    using assms(1) by (simp add: in_string_def tok_set_defs)
  ultimately show ?thesis by blast
qed

lemma hex_escape:
  assumes "in_string sv pb lv tok0 tok"
    and hex: "h1 \<in> set json_hex_chars" "h2 \<in> set json_hex_chars"
    and val: "utf8_encode (push_bit 4 (word_of_nat (jt_hexdigit h1)) OR word_of_nat (jt_hexdigit h2)) = [c]"
    and low: "push_bit 4 (word_of_nat (jt_hexdigit h1)) OR word_of_nat (jt_hexdigit h2) < (0x800 :: u32)"
  shows "\<exists>tok'. tok_loop strtod tok ([CHR 0x5C, CHR ''u'', CHR ''0'', CHR ''0'', h1, h2] @ cs) = tok_loop strtod tok' cs \<and>
      in_string sv (pb @ [c]) lv tok0 tok'"
proof -
  let ?t = "set_state S_string_escape (set_saved sv tok)"
  let ?t0 = "(set_state S_escape_unicode ?t)\<lparr> tk_ucs_char := 0, tk_st_pos := 0 \<rparr>"
  let ?u = "push_bit 4 (word_of_nat (jt_hexdigit h1)) OR word_of_nat (jt_hexdigit h2) :: u32"
  have h0: "CHR ''0'' \<in> set json_hex_chars" "jt_hexdigit (CHR ''0'') = 0" by (simp_all add: json_hex_chars_def jt_hexdigit_def)
  have nn: "h1 \<noteq> NUL" "h2 \<noteq> NUL" using hex by (auto simp: json_hex_chars_def NUL_def)
  have "tok_loop strtod tok ([CHR 0x5C, CHR ''u'', CHR ''0'', CHR ''0'', h1, h2] @ cs) =
      tok_loop strtod ?t0 ([CHR ''0'', CHR ''0'', h1, h2] @ cs)"
    using backslash [OF assms(1)]
    by (simp add: loop_Next tok_step_def step_string_escape_def set_state_def NUL_def)
  also have "\<dots> = tok_loop strtod (?t0\<lparr> tk_ucs_char := 0, tk_st_pos := 2 \<rparr>) ([h1, h2] @ cs)"
    by (simp add: loop_Next tok_step_def step_escape_unicode_def set_state_def NUL_def h0 numeral_2_eq_2)
  also have "\<dots> = tok_loop strtod (unicode_done (?t0\<lparr> tk_ucs_char := ?u, tk_st_pos := 0 \<rparr>)) cs"
    using hex nn by (simp add: loop_Next tok_step_def step_escape_unicode_def set_state_def)
  finally have run: "tok_loop strtod tok ([CHR 0x5C, CHR ''u'', CHR ''0'', CHR ''0'', h1, h2] @ cs) =
      tok_loop strtod (unicode_done (?t0\<lparr> tk_ucs_char := ?u, tk_st_pos := 0 \<rparr>)) cs" .
  moreover have "in_string sv (pb @ [c]) lv tok0 (unicode_done (?t0\<lparr> tk_ucs_char := ?u, tk_st_pos := 0 \<rparr>))"
    using assms(1) val low by (simp add: in_string_def unicode_done_def tok_set_defs not_le [symmetric])
  ultimately show ?thesis by blast
qed

lemma hex_chars:
  assumes "k < 16"
  shows "json_hex_chars ! k \<in> set json_hex_chars" "jt_hexdigit (json_hex_chars ! k) = k"
proof -
  have "\<forall>k < 16. jt_hexdigit (json_hex_chars ! k) = k"
    by (simp add: All_less_Suc eval_nat_numeral) (simp add: json_hex_chars_def jt_hexdigit_def)
  then show "jt_hexdigit (json_hex_chars ! k) = k" using assms by blast
  show "json_hex_chars ! k \<in> set json_hex_chars" using assms by (intro nth_mem) (simp add: json_hex_chars_def)
qed

lemma hex_byte:
  assumes "n < 32"
  shows "push_bit 4 (word_of_nat (n div 16)) OR word_of_nat (n mod 16) = (word_of_nat n :: u32)"
proof (cases "n < 16")
  case False
  have "(16 :: u32) OR word_of_nat b = 16 + word_of_nat b" if "b < 16" for b :: nat
  proof -
    have "b \<in> set [0..<16]" using that by simp
    then show ?thesis by (auto simp: upt_rec)
  qed
  moreover obtain b where "n = 16 + b" "b < 16" using False assms le_Suc_ex [of 16 n] by (auto simp: not_less)
  ultimately show ?thesis by simp
qed simp

lemma control_escape:
  assumes "byte c < (32 :: nat)"
  shows "json_hex_chars ! (byte c div 16) \<in> set json_hex_chars" "json_hex_chars ! (byte c mod 16) \<in> set json_hex_chars"
    "utf8_encode (push_bit 4 (word_of_nat (jt_hexdigit (json_hex_chars ! (byte c div 16)))) OR
       word_of_nat (jt_hexdigit (json_hex_chars ! (byte c mod 16)))) = [c]"
    "push_bit 4 (word_of_nat (jt_hexdigit (json_hex_chars ! (byte c div 16)))) OR
       word_of_nat (jt_hexdigit (json_hex_chars ! (byte c mod 16))) < (0x800 :: u32)"
proof -
  have d: "byte c div 16 < (16 :: nat)" "byte c mod 16 < (16 :: nat)" using assms by simp_all
  have u: "unat (word_of_nat (byte c) :: u32) = byte c"
    using assms by (simp add: unsigned_of_nat take_bit_nat_eq_self)
  show "json_hex_chars ! (byte c div 16) \<in> set json_hex_chars" "json_hex_chars ! (byte c mod 16) \<in> set json_hex_chars"
    using hex_chars d by blast+
  show "utf8_encode (push_bit 4 (word_of_nat (jt_hexdigit (json_hex_chars ! (byte c div 16)))) OR
       word_of_nat (jt_hexdigit (json_hex_chars ! (byte c mod 16)))) = [c]"
    using assms u by (simp add: hex_chars d hex_byte utf8_encode_def word_less_nat_alt u8_def)
  show "push_bit 4 (word_of_nat (jt_hexdigit (json_hex_chars ! (byte c div 16)))) OR
       word_of_nat (jt_hexdigit (json_hex_chars ! (byte c mod 16))) < (0x800 :: u32)"
    using assms u by (simp add: hex_chars d hex_byte word_less_nat_alt)
qed

lemma escape_two:
  assumes "c \<in> snd ` (simple_escapes - {(CHR ''/'', CHR ''/'')})"
  shows "\<exists>e. json_escape_char fl c = [CHR 0x5C, e] \<and> (e, c) \<in> simple_escapes"
  using assms by (auto simp: simple_escapes_def json_escape_char_def)

lemma escape_slash:
  "json_escape_char fl (CHR ''/'') = (if JSON_C_TO_STRING_NOSLASHESCAPE fl then ''/'' else [CHR 0x5C, CHR ''/''])"
  by (simp add: json_escape_char_def)

lemma escape_other:
  assumes "c \<notin> snd ` simple_escapes"
  shows "json_escape_char fl c =
     (if byte c < (32 :: nat)
      then [CHR 0x5C, CHR ''u'', CHR ''0'', CHR ''0'', json_hex_chars ! (byte c div 16), json_hex_chars ! (byte c mod 16)]
      else [c])"
  using assms by (simp add: simple_escapes_def json_escape_char_def)

lemma escape_char:
  assumes "in_string sv pb lv tok0 tok"
  shows "\<exists>tok'. tok_loop strtod tok (json_escape_char fl c @ cs) = tok_loop strtod tok' cs \<and>
      in_string sv (pb @ [c]) lv tok0 tok'"
proof -
  consider (two) "c \<in> snd ` (simple_escapes - {(CHR ''/'', CHR ''/'')})" | (slash) "c = CHR ''/''"
    | (hex) "c \<notin> snd ` simple_escapes" "byte c < (32 :: nat)"
    | (plain) "c \<notin> snd ` simple_escapes" "\<not> byte c < (32 :: nat)"
    by force
  then show ?thesis
  proof cases
    case two
    then obtain e where e: "json_escape_char fl c = [CHR 0x5C, e]" "(e, c) \<in> simple_escapes" using escape_two by blast
    then show ?thesis using simple_escape [OF assms, of e c] by simp
  next
    case slash
    have "(CHR ''/'', c) \<in> simple_escapes" using slash by (simp add: simple_escapes_def)
    then show ?thesis using slash simple_escape [OF assms, of "CHR ''/''" c] plain_char [OF assms, of c]
      by (auto simp: escape_slash NUL_def)
  next
    case hex
    then show ?thesis using hex_escape [OF assms control_escape [OF hex(2)]] by (simp add: escape_other)
  next
    case plain
    have "c \<noteq> CHR 0x22" "c \<noteq> CHR 0x5C" using plain(1) by (simp_all add: simple_escapes_def)
    moreover have "c \<noteq> NUL" using plain(2) by (auto simp: NUL_def)
    ultimately show ?thesis using plain plain_char [OF assms] by (simp add: escape_other)
  qed
qed

lemma escape_str:
  assumes "in_string sv pb lv tok0 tok"
  shows "\<exists>tok'. tok_loop strtod tok (json_escape_str fl s @ cs) = tok_loop strtod tok' cs \<and>
      in_string sv (pb @ s) lv tok0 tok'"
  using assms
proof (induction s arbitrary: pb tok)
  case Nil
  then show ?case by (auto simp: json_escape_str_def)
next
  case (Cons c s)
  obtain tok1 where 1: "tok_loop strtod tok (json_escape_char fl c @ json_escape_str fl s @ cs) =
      tok_loop strtod tok1 (json_escape_str fl s @ cs)" "in_string sv (pb @ [c]) lv tok0 tok1"
    using escape_char [OF Cons.prems] by blast
  then show ?case using Cons.IH [OF 1(2)] by (auto simp: json_escape_str_def)
qed


lemma string_goes:
  assumes "tk_top tok = fresh_level" and "tk_high_surrogate tok = 0"
  shows "goes strtod tok ([CHR 0x22] @ json_escape_str fl s @ [CHR 0x22]) (level S_finish (Some (JStr s)) None) rest"
proof -
  let ?t = "(set_state (St S_string) (pb_reset (set_state (St S_start) tok)))\<lparr> tk_quote_char := CHR 0x22 \<rparr>"
  have 0: "tok_loop strtod tok (CHR 0x22 # cs) = tok_loop strtod ?t cs" for cs
    by (rule start_next [OF assms(1)]) (simp_all add: isspace_def NUL_def step_start_def)
  have "in_string S_string [] (tk_top tok) tok ?t" using assms by (simp add: in_string_def tok_set_defs)
  then obtain tok1 where 1: "tok_loop strtod ?t (json_escape_str fl s @ [CHR 0x22] @ rest) = tok_loop strtod tok1 ([CHR 0x22] @ rest)"
      "in_string S_string s (tk_top tok) tok tok1"
    using escape_str [of S_string "[]" "tk_top tok" tok ?t strtod fl s "[CHR 0x22] @ rest"] by auto
  have 2: "tok_loop strtod tok1 (CHR 0x22 # rest) = tok_loop strtod (value_done (Some (JStr s)) tok1) rest"
    using 1(2) by (simp add: in_string_def loop_Next tok_step_def step_string_def NUL_def)
  show ?thesis unfolding goes_def
    by (rule exI [of _ "value_done (Some (JStr s)) tok1"])
      (use 0 1 2 assms in \<open>simp add: in_string_def tok_set_defs fresh_level_eq level_def\<close>)
qed

section \<open>Words\<close>

text \<open>The parser is in the middle of \<open>null\<close>, \<open>true\<close> or \<open>false\<close>.\<close>

definition in_word :: "tok_state \<Rightarrow> json_tokener \<Rightarrow> bytes \<Rightarrow> json_tokener" where
  "in_word st tok pb = (set_state st tok)\<lparr> tk_pb := pb, tk_st_pos := length pb \<rparr>"

lemma in_word_start: "(set_state st (pb_reset (set_state st' tok)))\<lparr> tk_st_pos := 0 \<rparr> = in_word st tok []"
  by (cases tok) (simp add: in_word_def tok_set_defs)

lemma word_start:
  assumes "tk_top tok = fresh_level"
  shows "tok_loop strtod tok (CHR ''n'' # cs) = tok_loop strtod (in_word S_null tok []) (CHR ''n'' # cs)"
    "tok_loop strtod tok (CHR ''t'' # cs) = tok_loop strtod (in_word S_boolean tok []) (CHR ''t'' # cs)"
    "tok_loop strtod tok (CHR ''f'' # cs) = tok_loop strtod (in_word S_boolean tok []) (CHR ''f'' # cs)"
  by (rule start_redo [OF assms], simp_all add: isspace_def step_start_def in_word_start)+

lemmas word_defs = tok_step_def strncaseeq_def strneq_def cstr_def lower_def NUL_def in_word_def tok_set_defs

lemma null_steps:
  "tok_loop strtod (in_word S_null tok []) (CHR ''n'' # cs) = tok_loop strtod (in_word S_null tok ''n'') cs"
  "tok_loop strtod (in_word S_null tok ''n'') (CHR ''u'' # cs) = tok_loop strtod (in_word S_null tok ''nu'') cs"
  "tok_loop strtod (in_word S_null tok ''nu'') (CHR ''l'' # cs) = tok_loop strtod (in_word S_null tok ''nul'') cs"
  "tok_loop strtod (in_word S_null tok ''nul'') (CHR ''l'' # cs) = tok_loop strtod (in_word S_null tok ''null'') cs"
  "tok_loop strtod (in_word S_null tok ''null'') (c # cs) =
     tok_loop strtod (value_done None (pb_append [c] (in_word S_null tok ''null''))) (c # cs)"
  by (simp_all add: loop_Next loop_Redo step_null_def word_defs)

lemma true_steps:
  "tok_loop strtod (in_word S_boolean tok []) (CHR ''t'' # cs) = tok_loop strtod (in_word S_boolean tok ''t'') cs"
  "tok_loop strtod (in_word S_boolean tok ''t'') (CHR ''r'' # cs) = tok_loop strtod (in_word S_boolean tok ''tr'') cs"
  "tok_loop strtod (in_word S_boolean tok ''tr'') (CHR ''u'' # cs) = tok_loop strtod (in_word S_boolean tok ''tru'') cs"
  "tok_loop strtod (in_word S_boolean tok ''tru'') (CHR ''e'' # cs) = tok_loop strtod (in_word S_boolean tok ''true'') cs"
  "tok_loop strtod (in_word S_boolean tok ''true'') (c # cs) =
     tok_loop strtod (value_done (Some (JBool True)) (pb_append [c] (in_word S_boolean tok ''true''))) (c # cs)"
  by (simp_all add: loop_Next loop_Redo step_boolean_def word_defs)

lemma false_steps:
  "tok_loop strtod (in_word S_boolean tok []) (CHR ''f'' # cs) = tok_loop strtod (in_word S_boolean tok ''f'') cs"
  "tok_loop strtod (in_word S_boolean tok ''f'') (CHR ''a'' # cs) = tok_loop strtod (in_word S_boolean tok ''fa'') cs"
  "tok_loop strtod (in_word S_boolean tok ''fa'') (CHR ''l'' # cs) = tok_loop strtod (in_word S_boolean tok ''fal'') cs"
  "tok_loop strtod (in_word S_boolean tok ''fal'') (CHR ''s'' # cs) = tok_loop strtod (in_word S_boolean tok ''fals'') cs"
  "tok_loop strtod (in_word S_boolean tok ''fals'') (CHR ''e'' # cs) = tok_loop strtod (in_word S_boolean tok ''false'') cs"
  "tok_loop strtod (in_word S_boolean tok ''false'') (c # cs) =
     tok_loop strtod (value_done (Some (JBool False)) (pb_append [c] (in_word S_boolean tok ''false''))) (c # cs)"
  by (simp_all add: loop_Next loop_Redo step_boolean_def word_defs)

lemma word_goes:
  assumes "tk_top tok = fresh_level" and "tk_high_surrogate tok = 0" and "ends_value depth rest"
  shows "goes strtod tok ''null'' (level S_finish None None) rest"
    "goes strtod tok ''true'' (level S_finish (Some (JBool True)) None) rest"
    "goes strtod tok ''false'' (level S_finish (Some (JBool False)) None) rest"
proof -
  obtain c r where r: "rest = c # r" using assms(3) by (cases rest) (simp_all add: ends_value_def)
  show "goes strtod tok ''null'' (level S_finish None None) rest" unfolding goes_def
    by (rule exI [of _ "value_done None (pb_append [c] (in_word S_null tok ''null''))"])
      (use assms in \<open>simp add: r word_start null_steps, simp add: in_word_def tok_set_defs fresh_level_eq level_def\<close>)
  show "goes strtod tok ''true'' (level S_finish (Some (JBool True)) None) rest" unfolding goes_def
    by (rule exI [of _ "value_done (Some (JBool True)) (pb_append [c] (in_word S_boolean tok ''true''))"])
      (use assms in \<open>simp add: r word_start true_steps, simp add: in_word_def tok_set_defs fresh_level_eq level_def\<close>)
  show "goes strtod tok ''false'' (level S_finish (Some (JBool False)) None) rest" unfolding goes_def
    by (rule exI [of _ "value_done (Some (JBool False)) (pb_append [c] (in_word S_boolean tok ''false''))"])
      (use assms in \<open>simp add: r word_start false_steps, simp add: in_word_def tok_set_defs fresh_level_eq level_def\<close>)
qed


section \<open>Containers\<close>

definition spaces :: "bytes \<Rightarrow> bool" where
  "spaces ws \<longleftrightarrow> list_all isspace ws"

lemma spaces_simps [simp]: "spaces []" "spaces (c # ws) \<longleftrightarrow> isspace c \<and> spaces ws" "spaces (v @ w) \<longleftrightarrow> spaces v \<and> spaces w"
  "isspace (CHR '' '')" "isspace (CHR 0x0A)" "isspace (CHR 0x09)" "isspace c \<Longrightarrow> spaces (replicate n c)"
  by (auto simp: spaces_def isspace_def list_all_iff)

lemma print_spaces: "spaces (indent fl n)" "spaces (print_open fl)" "spaces (print_close fl n had)"
  by (simp_all add: indent_def print_open_def print_close_def)

lemma print_sep_spaces: "\<exists>ws. print_sep fl n had = (if had then '','' else []) @ ws \<and> spaces ws"
  by (cases had) (simp_all add: print_sep_def print_spaces)

text \<open>What comes after an element: white space, then a comma or the closing bracket.\<close>

definition closes :: "char \<Rightarrow> bytes \<Rightarrow> bool" where
  "closes cl s \<longleftrightarrow> (\<exists>ws c r. s = ws @ c # r \<and> spaces ws \<and> c \<in> {CHR '','', cl})"

lemma closes_ends: "cl \<in> {CHR '']'', CHR ''}''} \<Longrightarrow> closes cl s \<Longrightarrow> ends_value depth s"
  unfolding closes_def by (elim exE conjE, case_tac ws) (auto simp: ends_value_def)

lemma closesI: "spaces ws \<Longrightarrow> closes cl (ws @ cl # r)" "closes cl (CHR '','' # r)"
  by (auto simp: closes_def intro: exI [of _ "[]"])

lemma elems_closes: "spaces ws \<Longrightarrow> closes (CHR '']'') (to_json_elems fl n True xs @ ws @ CHR '']'' # r)"
  using print_sep_spaces [of fl n True] by (cases xs) (auto intro: closesI)

lemma members_closes: "spaces ws \<Longrightarrow> closes (CHR ''}'') (to_json_members fl n True es @ ws @ CHR ''}'' # r)"
  using print_sep_spaces [of fl n True] by (cases es) (auto intro: closesI)

text \<open>Leaving a level when its value is complete and a byte of the enclosing container follows.\<close>

lemma pop_level:
  assumes top: "tk_top tok = level S_finish v None" and below: "tk_below tok = lv # lvs"
    and add: "\<And>cs c. tok_step strtod (tok\<lparr> tk_obj := v, tk_top := lv, tk_below := lvs \<rparr>) c cs = Redo tok'"
    and top': "sr_state (tk_top tok') = S_eatws" and cl: "closes cl s" "cl \<in> {CHR '']'', CHR ''}''}"
  shows "tok_loop strtod tok s = tok_loop strtod tok' s"
proof -
  obtain ws c r where s: "s = ws @ c # r" and ws: "spaces ws" and c: "\<not> isspace c" "c \<noteq> CHR ''/''"
    using cl by (auto simp: closes_def isspace_def)
  have "tok_loop strtod tok s = tok_loop strtod (back_to_saved tok) (c # r)"
    using top c ws skip_spaces [of tok ws strtod "c # r"] by (simp add: s spaces_def leave_spaces)
  also have "\<dots> = tok_loop strtod (tok\<lparr> tk_obj := v, tk_top := lv, tk_below := lvs \<rparr>) (c # r)"
    by (rule loop_Redo) (cases tok, use top below in \<open>simp add: tok_step_def step_finish_def set_state_def level_def\<close>)
  also have "\<dots> = tok_loop strtod tok' (c # r)" by (rule loop_Redo) (rule add)
  also have "\<dots> = tok_loop strtod tok' s"
    using top' ws skip_spaces [of tok' ws strtod "c # r"] by (simp add: s spaces_def)
  finally show ?thesis .
qed

lemma goes_from:
  assumes "tok_loop strtod tok (s @ rest) = tok_loop strtod tok1 (s1 @ rest)"
    and "tk_below tok1 = tk_below tok" and "tk_max_depth tok1 = tk_max_depth tok"
    and "goes strtod tok1 s1 lv rest"
  shows "goes strtod tok s lv rest"
  using assms unfolding goes_def by auto

subsection \<open>Arrays\<close>

definition on_top :: "json_tokener \<Rightarrow> json_tokener_srec \<Rightarrow> json_tokener" where
  "on_top tok lv = tok\<lparr> tk_top := lv \<rparr>"

lemma on_top_sel [simp]:
  "tk_top (on_top tok lv) = lv" "tk_below (on_top tok lv) = tk_below tok"
  "tk_max_depth (on_top tok lv) = tk_max_depth tok" "tk_high_surrogate (on_top tok lv) = tk_high_surrogate tok"
  by (simp_all add: on_top_def)

lemma array_open:
  "tk_top tok = fresh_level \<Longrightarrow>
     tok_loop strtod tok (CHR ''['' # cs) = tok_loop strtod (on_top tok (level S_array (Some (JArr [])) None)) cs"
  by (rule start_next) (simp_all add: isspace_def NUL_def step_start_def tok_set_defs on_top_def fresh_level_def level_def)

lemma array_close:
  assumes "tk_top tok = level sv j None" and "sv \<in> {S_array, S_array_sep}" and "spaces ws"
  shows "tok_loop strtod tok (ws @ CHR '']'' # cs) = tok_loop strtod (on_top tok (level S_finish j None)) cs"
proof -
  have "tok_loop strtod tok (ws @ CHR '']'' # cs) = tok_loop strtod (back_to_saved tok) (CHR '']'' # cs)"
    using assms skip_spaces [of tok ws strtod "CHR '']'' # cs"] by (simp add: spaces_def leave_spaces isspace_def)
  also have "\<dots> = tok_loop strtod (on_top tok (level S_finish j None)) cs"
    using assms(1,2)
    by (intro loop_Next) (auto simp: tok_step_def step_array_def step_array_sep_def tok_set_defs on_top_def level_def NUL_def)
  finally show ?thesis .
qed

lemma array_comma:
  assumes "tk_top tok = level S_array_sep j None"
  shows "tok_loop strtod tok (CHR '','' # cs) = tok_loop strtod (on_top tok (level S_array_after_sep j None)) cs"
proof -
  have "tok_loop strtod tok (CHR '','' # cs) = tok_loop strtod (back_to_saved tok) (CHR '','' # cs)"
    using assms by (simp add: leave_spaces isspace_def)
  also have "\<dots> = tok_loop strtod (on_top tok (level S_array_after_sep j None)) cs"
    using assms by (intro loop_Next) (simp_all add: tok_step_def step_array_sep_def tok_set_defs on_top_def level_def NUL_def)
  finally show ?thesis .
qed

definition inside :: "tok_state \<Rightarrow> json_tokener \<Rightarrow> json_tokener" where
  "inside st tok = push_level (set_state st tok)"

lemma inside_sel [simp]:
  "tk_top (inside st tok) = fresh_level" "tk_below (inside st tok) = (tk_top tok)\<lparr> sr_state := st \<rparr> # tk_below tok"
  "tk_max_depth (inside st tok) = tk_max_depth tok" "tk_high_surrogate (inside st tok) = tk_high_surrogate tok"
  by (simp_all add: inside_def push_level_def set_state_def)

lemma array_enter:
  assumes "tk_top tok = level sv j None" and "sv \<in> {S_array, S_array_after_sep}"
    and "\<not> isspace c" and "c \<noteq> CHR ''/''" and "c \<noteq> CHR '']''" and "Suc (tk_depth tok) < tk_max_depth tok"
  shows "tok_loop strtod tok (c # cs) = tok_loop strtod (inside S_array_add tok) (c # cs)"
proof -
  have "tok_loop strtod tok (c # cs) = tok_loop strtod (back_to_saved tok) (c # cs)"
    using assms by (simp add: leave_spaces)
  also have "\<dots> = tok_loop strtod (inside S_array_add tok) (c # cs)"
    using assms by (intro loop_Redo) (auto simp: tok_step_def step_array_def tok_set_defs inside_def level_def)
  finally show ?thesis .
qed

lemma array_leave:
  assumes "tk_top tok = level S_finish v None"
    and "tk_below tok = (level sv (Some (JArr ys)) None)\<lparr> sr_state := S_array_add \<rparr> # lvs"
    and "closes (CHR '']'') s"
  shows "\<exists>tok'. tok_loop strtod tok s = tok_loop strtod tok' s \<and> tk_top tok' = level S_array_sep (Some (JArr (ys @ [v]))) None \<and>
     tk_below tok' = lvs \<and> tk_max_depth tok' = tk_max_depth tok \<and> tk_high_surrogate tok' = tk_high_surrogate tok"
proof -
  let ?t = "tok\<lparr> tk_obj := v, tk_top := (level sv (Some (JArr ys)) None)\<lparr> sr_state := S_array_add \<rparr>, tk_below := lvs \<rparr>"
  let ?t' = "eat_then S_array_sep (set_current (Some (JArr (ys @ [v]))) ?t)"
  have "tok_step strtod ?t c cs = Redo ?t'" for c cs by (simp add: tok_step_def step_array_add_def level_def)
  then have "tok_loop strtod tok s = tok_loop strtod ?t' s"
    by (rule pop_level [OF assms(1,2) _ _ assms(3)]) (simp_all add: tok_set_defs)
  then show ?thesis by (intro exI [of _ ?t']) (simp add: tok_set_defs level_def)
qed


subsection \<open>Objects\<close>

lemma object_open:
  "tk_top tok = fresh_level \<Longrightarrow>
     tok_loop strtod tok (CHR ''{'' # cs) = tok_loop strtod (on_top tok (level S_object_field_start (Some (JObj [])) None)) cs"
  by (rule start_next) (simp_all add: isspace_def NUL_def step_start_def tok_set_defs on_top_def fresh_level_def level_def)

lemma object_close:
  assumes "tk_top tok = level sv j None" and "sv \<in> {S_object_field_start, S_object_sep}" and "spaces ws"
  shows "tok_loop strtod tok (ws @ CHR ''}'' # cs) = tok_loop strtod (on_top tok (level S_finish j None)) cs"
proof -
  have "tok_loop strtod tok (ws @ CHR ''}'' # cs) = tok_loop strtod (back_to_saved tok) (CHR ''}'' # cs)"
    using assms skip_spaces [of tok ws strtod "CHR ''}'' # cs"] by (simp add: spaces_def leave_spaces isspace_def)
  also have "\<dots> = tok_loop strtod (on_top tok (level S_finish j None)) cs"
    using assms(1,2)
    by (intro loop_Next) (auto simp: tok_step_def step_field_start_def step_object_sep_def tok_set_defs on_top_def level_def NUL_def)
  finally show ?thesis .
qed

lemma object_comma:
  assumes "tk_top tok = level S_object_sep j None"
  shows "tok_loop strtod tok (CHR '','' # cs) = tok_loop strtod (on_top tok (level S_object_field_start_after_sep j None)) cs"
proof -
  have "tok_loop strtod tok (CHR '','' # cs) = tok_loop strtod (back_to_saved tok) (CHR '','' # cs)"
    using assms by (simp add: leave_spaces isspace_def)
  also have "\<dots> = tok_loop strtod (on_top tok (level S_object_field_start_after_sep j None)) cs"
    using assms by (intro loop_Next) (simp_all add: tok_step_def step_object_sep_def tok_set_defs on_top_def level_def NUL_def)
  finally show ?thesis .
qed

lemma object_key:
  assumes top: "tk_top tok = level sv j None" and sv: "sv \<in> {S_object_field_start, S_object_field_start_after_sep}"
    and high: "tk_high_surrogate tok = 0" and key: "NUL \<notin> set key"
  shows "\<exists>tok'. tok_loop strtod tok ([CHR 0x22] @ json_escape_str fl key @ [CHR 0x22, CHR '':''] @ cs) = tok_loop strtod tok' cs \<and>
     tk_top tok' = level S_object_value j (Some key) \<and> tk_below tok' = tk_below tok \<and>
     tk_max_depth tok' = tk_max_depth tok \<and> tk_high_surrogate tok' = 0"
proof -
  let ?t = "(set_state (St S_object_field) (pb_reset (back_to_saved tok)))\<lparr> tk_quote_char := CHR 0x22 \<rparr>"
  have "tok_loop strtod tok (CHR 0x22 # s) = tok_loop strtod (back_to_saved tok) (CHR 0x22 # s)" for s
    using top by (simp add: leave_spaces isspace_def)
  also have "\<dots> s = tok_loop strtod ?t s" for s
    using top sv by (intro loop_Next) (auto simp: tok_step_def step_field_start_def set_state_def NUL_def)
  finally have 0: "tok_loop strtod tok (CHR 0x22 # s) = tok_loop strtod ?t s" for s .
  have "in_string S_object_field [] (tk_top tok) tok ?t" using top high by (simp add: in_string_def tok_set_defs)
  then obtain tok1 where 1: "tok_loop strtod ?t (json_escape_str fl key @ [CHR 0x22, CHR '':''] @ cs) =
      tok_loop strtod tok1 ([CHR 0x22, CHR '':''] @ cs)" "in_string S_object_field key (tk_top tok) tok tok1"
    using escape_str [of S_object_field "[]" "tk_top tok" tok ?t strtod fl key "[CHR 0x22, CHR '':''] @ cs"] by auto
  let ?t2 = "on_top tok1 (level S_object_field_end j (Some key))"
  have 2: "tok_loop strtod tok1 (CHR 0x22 # s) = tok_loop strtod ?t2 s" for s
    using 1(2) key top
    by (intro loop_Next) (simp_all add: in_string_def tok_step_def step_object_field_def NUL_def [symmetric]
        tok_set_defs on_top_def level_def, simp add: NUL_def)
  have "tok_loop strtod ?t2 (CHR '':'' # cs) = tok_loop strtod (back_to_saved ?t2) (CHR '':'' # cs)"
    by (simp add: leave_spaces isspace_def)
  also have "\<dots> = tok_loop strtod (on_top tok1 (level S_object_value j (Some key))) cs"
    by (intro loop_Next) (simp_all add: tok_step_def step_field_end_def tok_set_defs on_top_def level_def NUL_def)
  finally have 3: "tok_loop strtod ?t2 (CHR '':'' # cs) = tok_loop strtod (on_top tok1 (level S_object_value j (Some key))) cs" .
  show ?thesis using 0 1 2 3
    by (intro exI [of _ "on_top tok1 (level S_object_value j (Some key))"]) (simp add: in_string_def)
qed

lemma object_enter:
  assumes "tk_top tok = level S_object_value j (Some key)"
    and "\<not> isspace c" and "c \<noteq> CHR ''/''" and "Suc (tk_depth tok) < tk_max_depth tok"
  shows "tok_loop strtod tok (c # cs) = tok_loop strtod (inside S_object_value_add tok) (c # cs)"
proof -
  have "tok_loop strtod tok (c # cs) = tok_loop strtod (back_to_saved tok) (c # cs)"
    using assms by (simp add: leave_spaces)
  also have "\<dots> = tok_loop strtod (inside S_object_value_add tok) (c # cs)"
    using assms by (intro loop_Redo) (simp add: tok_step_def step_object_value_def tok_set_defs inside_def level_def)
  finally show ?thesis .
qed

lemma object_leave:
  assumes "tk_top tok = level S_finish v None"
    and "tk_below tok = (level sv (Some (JObj es)) (Some key))\<lparr> sr_state := S_object_value_add \<rparr> # lvs"
    and "closes (CHR ''}'') s" and "NUL \<notin> set key" and "key \<notin> fst ` set es"
  shows "\<exists>tok'. tok_loop strtod tok s = tok_loop strtod tok' s \<and> tk_top tok' = level S_object_sep (Some (JObj (es @ [(key, v)]))) None \<and>
     tk_below tok' = lvs \<and> tk_max_depth tok' = tk_max_depth tok \<and> tk_high_surrogate tok' = tk_high_surrogate tok"
proof -
  let ?t = "tok\<lparr> tk_obj := v, tk_top := (level sv (Some (JObj es)) (Some key))\<lparr> sr_state := S_object_value_add \<rparr>, tk_below := lvs \<rparr>"
  let ?t' = "eat_then S_object_sep (?t\<lparr> tk_top := (tk_top ?t)\<lparr> sr_current := Some (JObj (es @ [(key, v)])), sr_obj_field_name := None \<rparr> \<rparr>)"
  have "tok_step strtod ?t c cs = Redo ?t'" for c cs
    using assms(4,5) by (simp add: tok_step_def step_object_value_add_def level_def jtable_put_new)
  then have "tok_loop strtod tok s = tok_loop strtod ?t' s"
    by (rule pop_level [OF assms(1,2) _ _ assms(3)]) (simp_all add: tok_set_defs)
  then show ?thesis by (intro exI [of _ ?t']) (simp add: tok_set_defs level_def)
qed


section \<open>Whole documents\<close>

lemma value_starts:
  assumes "json_ptr_ok v"
  shows "\<exists>c s. to_json_ptr fl n v = c # s \<and> \<not> isspace c \<and> c \<noteq> CHR ''/'' \<and> c \<noteq> CHR '']''"
proof -
  have digits: "\<exists>c s. show_nat k = c # s \<and> \<not> isspace c \<and> c \<noteq> CHR ''/'' \<and> c \<noteq> CHR '']''" for k
    using show_nat_Cons [of k] digit_chars by (auto simp: is_digit_def)
  show ?thesis
  proof (cases v)
    case (Some j)
    then show ?thesis using assms digits by (cases j) (auto simp: show_int_def isspace_def)
  qed (simp add: isspace_def)
qed

lemma int64_goes:
  assumes "tk_top tok = fresh_level" "tk_high_surrogate tok = 0" "ends_value (tk_depth tok) rest"
  shows "goes strtod tok (show_int (sint i)) (level S_finish (Some (JInt64 i)) None) rest"
proof -
  obtain c s where "show_int (sint i) = c # s" "is_digit c \<or> c = CHR ''-''"
    using show_nat_Cons [of "nat (sint i)"] by (cases "sint i < 0") (auto simp: show_int_def)
  from number_goes [OF assms(1,2) this assms(3) scan_int [OF assms(3)] number_value_int64] show ?thesis .
qed

lemma uint64_goes:
  assumes "tk_top tok = fresh_level" "tk_high_surrogate tok = 0" "ends_value (tk_depth tok) rest" "INT64_MAX < i"
  shows "goes strtod tok (show_nat (unat i)) (level S_finish (Some (JUint64 i)) None) rest"
proof -
  obtain c s where c: "show_nat (unat i) = c # s" "is_digit c" using show_nat_Cons by blast
  from number_goes [OF assms(1,2) c(1) disjI1 [OF c(2)] assms(3) scan_nat [OF assms(3)] number_value_uint64 [OF assms(4)]]
  show ?thesis .
qed

text \<open>One element, from the place where it is expected to what follows it.\<close>

lemma element_goes:
  assumes IH: "\<And>tok rest. tk_top tok = fresh_level \<Longrightarrow> tk_high_surrogate tok = 0 \<Longrightarrow>
        tk_depth tok + json_ptr_depth x < tk_max_depth tok \<Longrightarrow> ends_value (tk_depth tok) rest \<Longrightarrow>
        goes strtod tok (to_json_ptr fl n x) (level S_finish x None) rest"
    and ok: "json_ptr_ok x" and top: "tk_top tok = level sv (Some (JArr ys)) None" and sv: "sv \<in> {S_array, S_array_after_sep}"
    and high: "tk_high_surrogate tok = 0" and depth: "tk_depth tok + Suc (json_ptr_depth x) < tk_max_depth tok"
    and ws: "spaces ws" and cl: "closes (CHR '']'') rest"
  shows "goes strtod tok (ws @ to_json_ptr fl n x) (level S_array_sep (Some (JArr (ys @ [x]))) None) rest"
proof -
  obtain c s where c: "to_json_ptr fl n x = c # s" "\<not> isspace c" "c \<noteq> CHR ''/''" "c \<noteq> CHR '']''"
    using value_starts [OF ok] by blast
  have enter: "tok_loop strtod tok ((ws @ to_json_ptr fl n x) @ rest) =
      tok_loop strtod (inside S_array_add tok) (to_json_ptr fl n x @ rest)"
    using skip_spaces [of tok ws strtod "to_json_ptr fl n x @ rest"] top ws array_enter [OF top sv c(2-4)] depth c(1)
    by (simp add: spaces_def)
  have "goes strtod (inside S_array_add tok) (to_json_ptr fl n x) (level S_finish x None) rest"
    using IH [of "inside S_array_add tok" rest] high depth closes_ends [OF _ cl] by simp
  then obtain tok1 where 1: "tok_loop strtod (inside S_array_add tok) (to_json_ptr fl n x @ rest) = tok_loop strtod tok1 rest"
      "tk_top tok1 = level S_finish x None" "tk_below tok1 = tk_below (inside S_array_add tok)"
      "tk_max_depth tok1 = tk_max_depth tok" "tk_high_surrogate tok1 = 0"
    unfolding goes_def by auto
  obtain tok2 where "tok_loop strtod tok1 rest = tok_loop strtod tok2 rest"
      "tk_top tok2 = level S_array_sep (Some (JArr (ys @ [x]))) None" "tk_below tok2 = tk_below tok"
      "tk_max_depth tok2 = tk_max_depth tok" "tk_high_surrogate tok2 = 0"
    using array_leave [OF 1(2) _ cl, of sv ys "tk_below tok" strtod] 1 top by auto
  then show ?thesis using enter 1(1) unfolding goes_def by auto
qed

lemma member_goes:
  assumes IH: "\<And>tok rest. tk_top tok = fresh_level \<Longrightarrow> tk_high_surrogate tok = 0 \<Longrightarrow>
        tk_depth tok + json_ptr_depth v < tk_max_depth tok \<Longrightarrow> ends_value (tk_depth tok) rest \<Longrightarrow>
        goes strtod tok (to_json_ptr fl n v) (level S_finish v None) rest"
    and ok: "json_ptr_ok v" and key: "NUL \<notin> set k" "k \<notin> fst ` set es"
    and top: "tk_top tok = level sv (Some (JObj es)) None" and sv: "sv \<in> {S_object_field_start, S_object_field_start_after_sep}"
    and high: "tk_high_surrogate tok = 0" and depth: "tk_depth tok + Suc (json_ptr_depth v) < tk_max_depth tok"
    and ws: "spaces ws" "spaces ws'" and cl: "closes (CHR ''}'') rest"
  shows "goes strtod tok (ws @ [CHR 0x22] @ json_escape_str fl k @ [CHR 0x22, CHR '':''] @ ws' @ to_json_ptr fl n v)
     (level S_object_sep (Some (JObj (es @ [(k, v)]))) None) rest"
proof -
  obtain c s where c: "to_json_ptr fl n v = c # s" "\<not> isspace c" "c \<noteq> CHR ''/''" "c \<noteq> CHR '']''"
    using value_starts [OF ok] by blast
  obtain tok0 where 0: "tok_loop strtod tok ([CHR 0x22] @ json_escape_str fl k @ [CHR 0x22, CHR '':''] @ ws' @ to_json_ptr fl n v @ rest) =
      tok_loop strtod tok0 (ws' @ to_json_ptr fl n v @ rest)" "tk_top tok0 = level S_object_value (Some (JObj es)) (Some k)"
      "tk_below tok0 = tk_below tok" "tk_max_depth tok0 = tk_max_depth tok" "tk_high_surrogate tok0 = 0"
    using object_key [OF top sv high key(1)] by blast
  have enter: "tok_loop strtod tok0 (ws' @ to_json_ptr fl n v @ rest) =
      tok_loop strtod (inside S_object_value_add tok0) (to_json_ptr fl n v @ rest)"
    using skip_spaces [of tok0 ws' strtod "to_json_ptr fl n v @ rest"] 0 ws object_enter [OF 0(2) c(2,3)] depth c(1)
    by (simp add: spaces_def)
  have "goes strtod (inside S_object_value_add tok0) (to_json_ptr fl n v) (level S_finish v None) rest"
    using IH [of "inside S_object_value_add tok0" rest] 0 depth closes_ends [OF _ cl] by simp
  then obtain tok1 where 1: "tok_loop strtod (inside S_object_value_add tok0) (to_json_ptr fl n v @ rest) = tok_loop strtod tok1 rest"
      "tk_top tok1 = level S_finish v None" "tk_below tok1 = tk_below (inside S_object_value_add tok0)"
      "tk_max_depth tok1 = tk_max_depth tok" "tk_high_surrogate tok1 = 0"
    unfolding goes_def using 0 by auto
  obtain tok2 where "tok_loop strtod tok1 rest = tok_loop strtod tok2 rest"
      "tk_top tok2 = level S_object_sep (Some (JObj (es @ [(k, v)]))) None" "tk_below tok2 = tk_below tok"
      "tk_max_depth tok2 = tk_max_depth tok" "tk_high_surrogate tok2 = 0"
    using object_leave [OF 1(2) _ cl key, of S_object_value "tk_below tok" strtod] 1 0 by auto
  then show ?thesis
    using 0(1) enter 1(1) skip_spaces [of tok ws strtod] ws top unfolding goes_def by (auto simp: spaces_def)
qed


lemma document_goes:
  "json_ok j \<Longrightarrow> tk_top tok = fresh_level \<Longrightarrow> tk_high_surrogate tok = 0 \<Longrightarrow>
     tk_depth tok + json_depth j < tk_max_depth tok \<Longrightarrow> ends_value (tk_depth tok) rest \<Longrightarrow>
     goes strtod tok (to_json_string fl n j) (level S_finish (Some j) None) rest"
  "json_ptr_ok v \<Longrightarrow> tk_top tok = fresh_level \<Longrightarrow> tk_high_surrogate tok = 0 \<Longrightarrow>
     tk_depth tok + json_ptr_depth v < tk_max_depth tok \<Longrightarrow> ends_value (tk_depth tok) rest \<Longrightarrow>
     goes strtod tok (to_json_ptr fl n v) (level S_finish v None) rest"
  "json_elems_ok xs \<Longrightarrow> tk_top tok = level (if had then S_array_sep else S_array) (Some (JArr ys)) None \<Longrightarrow>
     tk_high_surrogate tok = 0 \<Longrightarrow> tk_depth tok + json_elems_depth xs < tk_max_depth tok \<Longrightarrow> spaces ws \<Longrightarrow>
     goes strtod tok (to_json_elems fl n had xs @ ws @ '']'') (level S_finish (Some (JArr (ys @ xs))) None) rest"
  "json_members_ok es \<Longrightarrow> distinct (map fst (pre @ es)) \<Longrightarrow>
     tk_top tok = level (if had then S_object_sep else S_object_field_start) (Some (JObj pre)) None \<Longrightarrow>
     tk_high_surrogate tok = 0 \<Longrightarrow> tk_depth tok + json_members_depth es < tk_max_depth tok \<Longrightarrow> spaces ws \<Longrightarrow>
     goes strtod tok (to_json_members fl n had es @ ws @ ''}'') (level S_finish (Some (JObj (pre @ es))) None) rest"
proof (induction fl n j and fl n v and fl n had xs and fl n had es arbitrary: tok rest and tok rest and tok rest ys ws and tok rest pre ws
    rule: to_json_string_to_json_ptr_to_json_elems_to_json_members.induct)
  case (1 fl n b)
  then show ?case using word_goes by (cases b) simp_all
next
  case (3 fl n i)
  then show ?case using int64_goes by simp
next
  case (4 fl n i)
  then show ?case using uint64_goes by simp
next
  case (5 fl n s)
  then show ?case using string_goes by simp
next
  case (6 fl n xs)
  let ?t = "on_top tok (level S_array (Some (JArr [])) None)"
  have "goes strtod ?t (to_json_elems fl n False xs @ print_close fl n (xs \<noteq> []) @ '']'') (level S_finish (Some (JArr xs)) None) rest"
    using "6.IH" [where tok = ?t and ys = "[]" and ws = "print_close fl n (xs \<noteq> [])" and rest = rest] "6.prems"
    by (simp add: print_spaces)
  then show ?case
    by (rule goes_from [rotated 3])
      (use "6.prems" array_open skip_spaces [of ?t "print_open fl"] print_spaces(2) in \<open>simp_all add: spaces_def\<close>)
next
  case (7 fl n es)
  let ?t = "on_top tok (level S_object_field_start (Some (JObj [])) None)"
  have "goes strtod ?t (to_json_members fl n False es @ print_close fl n (es \<noteq> []) @ ''}'') (level S_finish (Some (JObj es)) None) rest"
    using "7.IH" [where tok = ?t and pre = "[]" and ws = "print_close fl n (es \<noteq> [])" and rest = rest] "7.prems"
    by (simp add: print_spaces)
  then show ?case
    by (rule goes_from [rotated 3])
      (use "7.prems" object_open skip_spaces [of ?t "print_open fl"] print_spaces(2) in \<open>simp_all add: spaces_def\<close>)
next
  case (8 fl n)
  then show ?case using word_goes by simp
next
  case (10 fl n had)
  then have "tok_loop strtod tok (ws @ CHR '']'' # rest) = tok_loop strtod (on_top tok (level S_finish (Some (JArr ys)) None)) rest"
    by (intro array_close) (auto split: if_splits)
  then show ?case using "10.prems" unfolding goes_def
    by (intro exI [of _ "on_top tok (level S_finish (Some (JArr ys)) None)"]) simp
next
  case (11 fl n had x xs)
  obtain sp where sp: "print_sep fl n had = (if had then '','' else []) @ sp" "spaces sp" using print_sep_spaces by blast
  define tok0 where "tok0 = (if had then on_top tok (level S_array_after_sep (Some (JArr ys)) None) else tok)"
  let ?rest = "to_json_elems fl n True xs @ ws @ CHR '']'' # rest"
  have comma: "tok_loop strtod tok (print_sep fl n had @ s) = tok_loop strtod tok0 (sp @ s)" for s
    using "11.prems"(2) array_comma [of tok] by (auto simp: tok0_def sp(1))
  have "goes strtod tok0 (sp @ to_json_ptr fl (n + 1) x) (level S_array_sep (Some (JArr (ys @ [x]))) None) ?rest"
    by (rule element_goes [where sv = "if had then S_array_after_sep else S_array"])
      (use "11.IH"(1) "11.prems" sp elems_closes in \<open>auto simp: tok0_def\<close>)
  then obtain tok1 where 1: "tok_loop strtod tok0 (sp @ to_json_ptr fl (n + 1) x @ ?rest) = tok_loop strtod tok1 ?rest"
      "tk_top tok1 = level S_array_sep (Some (JArr (ys @ [x]))) None" "tk_below tok1 = tk_below tok"
      "tk_max_depth tok1 = tk_max_depth tok" "tk_high_surrogate tok1 = 0"
    unfolding goes_def tok0_def by (auto split: if_splits)
  have "goes strtod tok1 (to_json_elems fl n True xs @ ws @ '']'') (level S_finish (Some (JArr ((ys @ [x]) @ xs))) None) rest"
    using "11.IH"(2) [where tok = tok1 and ys = "ys @ [x]" and ws = ws and rest = rest] "11.prems" 1 by simp
  then show ?case using comma 1 unfolding goes_def by simp
next
  case (13 fl n had k v es)
  obtain sp where sp: "print_sep fl n had = (if had then '','' else []) @ sp" "spaces sp" using print_sep_spaces by blast
  define tok0 where "tok0 = (if had then on_top tok (level S_object_field_start_after_sep (Some (JObj pre)) None) else tok)"
  let ?rest = "to_json_members fl n True es @ ws @ CHR ''}'' # rest"
  let ?sp' = "if JSON_C_TO_STRING_SPACED fl then '' '' else []"
  have comma: "tok_loop strtod tok (print_sep fl n had @ s) = tok_loop strtod tok0 (sp @ s)" for s
    using "13.prems"(3) object_comma [of tok] by (auto simp: tok0_def sp(1))
  have "goes strtod tok0 (sp @ [CHR 0x22] @ json_escape_str fl k @ [CHR 0x22, CHR '':''] @ ?sp' @ to_json_ptr fl (n + 1) v)
      (level S_object_sep (Some (JObj (pre @ [(k, v)]))) None) ?rest"
    by (rule member_goes [where sv = "if had then S_object_field_start_after_sep else S_object_field_start"])
      (use "13.IH"(1) "13.prems" sp members_closes in \<open>auto simp: tok0_def\<close>)
  then obtain tok1 where 1: "tok_loop strtod tok0 (sp @ [CHR 0x22] @ json_escape_str fl k @ [CHR 0x22, CHR '':''] @ ?sp' @
        to_json_ptr fl (n + 1) v @ ?rest) = tok_loop strtod tok1 ?rest"
      "tk_top tok1 = level S_object_sep (Some (JObj (pre @ [(k, v)]))) None" "tk_below tok1 = tk_below tok"
      "tk_max_depth tok1 = tk_max_depth tok" "tk_high_surrogate tok1 = 0"
    unfolding goes_def tok0_def by (auto split: if_splits)
  have "goes strtod tok1 (to_json_members fl n True es @ ws @ ''}'') (level S_finish (Some (JObj ((pre @ [(k, v)]) @ es))) None) rest"
    using "13.IH"(2) [where tok = tok1 and pre = "pre @ [(k, v)]" and ws = ws and rest = rest] "13.prems" 1 by simp
  then show ?case using comma 1 unfolding goes_def by simp
next
  case (12 fl n had)
  then have "tok_loop strtod tok (ws @ CHR ''}'' # rest) = tok_loop strtod (on_top tok (level S_finish (Some (JObj pre)) None)) rest"
    by (intro object_close) (auto split: if_splits)
  then show ?case using "12.prems" unfolding goes_def
    by (intro exI [of _ "on_top tok (level S_finish (Some (JObj pre)) None)"]) simp
qed simp_all


lemma escape_no_NUL: "NUL \<notin> set (json_escape_str fl s)"
proof -
  have "NUL \<notin> set (json_escape_char fl c)" for c
  proof (cases "c \<in> snd ` simple_escapes")
    case True
    then show ?thesis by (auto simp: simple_escapes_def json_escape_char_def NUL_def)
  next
    case False
    have "NUL \<notin> set json_hex_chars" by (simp add: json_hex_chars_def NUL_def)
    then have "json_hex_chars ! (byte c div 16) \<noteq> NUL \<and> json_hex_chars ! (byte c mod 16) \<noteq> NUL" if "byte c < (32 :: nat)"
      using control_escape(1,2) [OF that] by metis
    moreover have "c \<noteq> NUL" if "\<not> byte c < (32 :: nat)" using that by (auto simp: NUL_def)
    ultimately show ?thesis using False by (auto simp: escape_other) (simp_all add: NUL_def)
  qed
  then show ?thesis by (auto simp: json_escape_str_def)
qed

lemma spaces_no_NUL: "spaces ws \<Longrightarrow> NUL \<notin> set ws"
  by (auto simp: spaces_def list_all_iff dest: space_not_NUL)

lemma print_no_NUL:
  "json_ok j \<Longrightarrow> NUL \<notin> set (to_json_string fl n j)"
  "json_ptr_ok v \<Longrightarrow> NUL \<notin> set (to_json_ptr fl n v)"
  "json_elems_ok xs \<Longrightarrow> NUL \<notin> set (to_json_elems fl n had xs)"
  "json_members_ok es \<Longrightarrow> NUL \<notin> set (to_json_members fl n had es)"
proof (induction fl n j and fl n v and fl n had xs and fl n had es
    rule: to_json_string_to_json_ptr_to_json_elems_to_json_members.induct)
  case (3 fl n i)
  then show ?case by (auto simp: show_int_def NUL_def is_digit_def dest!: show_nat_digits)
next
  case (4 fl n i)
  then show ?case by (auto simp: NUL_def is_digit_def dest!: show_nat_digits)
next
  case (5 fl n s)
  then show ?case using escape_no_NUL [of fl s] by (simp add: NUL_def)
next
  case (6 fl n xs)
  then show ?case using print_spaces [THEN spaces_no_NUL] by (simp add: NUL_def)
next
  case (7 fl n es)
  then show ?case using print_spaces [THEN spaces_no_NUL] by (simp add: NUL_def)
next
  case (11 fl n had x xs)
  obtain sp where "print_sep fl n had = (if had then '','' else []) @ sp" "NUL \<notin> set sp"
    using print_sep_spaces spaces_no_NUL by blast
  then show ?case using 11 by (simp add: NUL_def)
next
  case (13 fl n had k v es)
  obtain sp where "print_sep fl n had = (if had then '','' else []) @ sp" "NUL \<notin> set sp"
    using print_sep_spaces spaces_no_NUL by blast
  then show ?case using 13 escape_no_NUL [of fl k] by (simp add: NUL_def)
qed (simp_all add: NUL_def)

lemma parse_ex_goes:
  assumes "goes strtod json_tokener_new s (level S_finish v None) [NUL]"
  shows "\<exists>tok. json_tokener_parse_ex strtod json_tokener_new (s @ [NUL]) = Inr (v, json_tokener_success, tok)"
proof -
  obtain tok where t: "tok_loop strtod json_tokener_new (s @ [NUL]) = tok_loop strtod tok [NUL]"
      "tk_top tok = level S_finish v None" "tk_below tok = []"
    using assms by (auto simp: goes_def json_tokener_new_def)
  have "tok_loop strtod tok [NUL] = tok_loop strtod (back_to_saved tok) [NUL]"
    using t by (simp add: leave_spaces isspace_def NUL_def)
  also have "\<dots> = Inr (json_tokener_success, True, back_to_saved tok)"
    using t by (simp add: tok_loop.simps tok_step_def step_finish_def set_state_def)
  finally have "tok_loop strtod (json_tokener_new\<lparr> tk_obj := None \<rparr>) (s @ [NUL]) =
      Inr (json_tokener_success, True, back_to_saved tok)"
    using t(1) by (simp add: json_tokener_new_def)
  then show ?thesis using t(2) by (simp add: json_tokener_parse_ex_def set_state_def)
qed

lemma print_parse_ex:
  assumes "json_ptr_ok v" and "json_ptr_depth v < 32"
  shows "\<exists>tok. json_tokener_parse_ex strtod json_tokener_new (json_object_to_json_string_ext v fl @ [NUL]) =
    Inr (v, json_tokener_success, tok)"
proof -
  have "ends_value 0 [NUL]" by (simp add: ends_value_def)
  then have "goes strtod json_tokener_new (to_json_ptr fl 0 v) (level S_finish v None) [NUL]"
    using assms by (intro document_goes(2)) (simp_all add: json_tokener_new_def)
  then show ?thesis using parse_ex_goes by (simp add: json_object_to_json_string_ext_def)
qed

lemma print_string: "json_ptr_ok v \<Longrightarrow> NUL \<notin> set (json_object_to_json_string_ext v fl)"
  using print_no_NUL(2) by (simp add: json_object_to_json_string_ext_def)

section \<open>Properties\<close>

text \<open>
  C4. Serialising and parsing are inverse: whatever flags \<open>json_object_to_json_string_ext\<close> is
  given (spaced, pretty, with or without escaped slashes), \<open>json_tokener_parse\<close> reads the
  text back as the same document, for every document without doubles whose keys are
  distinct C strings and which fits into the parser's 32 levels.  Strings may hold
  arbitrary bytes, the null byte included.
\<close>

theorem json_roundtrip:
  assumes "json_ptr_ok v" and "json_ptr_depth v < 32"
  shows "json_tokener_parse strtod (json_object_to_json_string_ext v fl) = Inr v"
  using print_parse_ex [OF assms, of strtod fl] print_string [OF assms(1), of fl]
  by (auto simp: json_tokener_parse_def)

definition demo_doc :: json where
  "demo_doc = Some (JObj [(''update_id'', Some (JInt64 7)), (''message'', Some (JObj [(''text'', Some (JStr [CHR ''h'', CHR 0x0A, NUL, CHR 0x22])),
     (''entities'', Some (JArr [None, Some (JBool True), Some (JInt64 (- 5))]))]))])"

theorem json_roundtrip_witness:
  "json_ptr_ok demo_doc \<and> json_ptr_depth demo_doc < 32 \<and>
   json_tokener_parse (\<lambda>s. (NotANumber, 0)) (json_object_to_json_string_ext demo_doc spaced_flags) = Inr demo_doc"
proof -
  have "json_ptr_ok demo_doc" "json_ptr_depth demo_doc < 32" by (simp_all add: demo_doc_def NUL_def)
  with json_roundtrip [of demo_doc "\<lambda>s. (NotANumber, 0)" spaced_flags] show ?thesis by simp
qed

end
