(* ===== verification/Json_Safe.thy ===== *)
theory Json_Safe
  imports Json_Tokener
begin

text \<open>
  The parser of json-c on arbitrary input: the invariant of its stack, by which no
  assertion fails, and that a text which ends in a null byte is decided in one call.
\<close>

section \<open>The invariant\<close>

definition is_arr :: "json \<Rightarrow> bool" where
  "is_arr j \<longleftrightarrow> (\<exists>xs. j = Some (JArr xs))"

definition is_obj :: "json \<Rightarrow> bool" where
  "is_obj j \<longleftrightarrow> (\<exists>es. j = Some (JObj es))"

fun saved_ok :: "saved_state \<Rightarrow> json_tokener_srec \<Rightarrow> bool" where
  "saved_ok S_start lv = True"
| "saved_ok S_finish lv = True"
| "saved_ok S_string lv = True"
| "saved_ok S_array lv = is_arr (sr_current lv)"
| "saved_ok S_array_sep lv = is_arr (sr_current lv)"
| "saved_ok S_array_after_sep lv = is_arr (sr_current lv)"
| "saved_ok S_object_field_end lv = (is_obj (sr_current lv) \<and> sr_obj_field_name lv \<noteq> None)"
| "saved_ok S_object_value lv = (is_obj (sr_current lv) \<and> sr_obj_field_name lv \<noteq> None)"
| "saved_ok _ lv = is_obj (sr_current lv)"

definition level_ok :: "json_tokener_srec \<Rightarrow> bool" where
  "level_ok lv \<longleftrightarrow>
     (case sr_state lv of
        St sv \<Rightarrow> saved_ok sv lv
      | S_null \<Rightarrow> True | S_inf \<Rightarrow> True | S_boolean \<Rightarrow> True | S_number \<Rightarrow> True
      | S_array_add \<Rightarrow> is_arr (sr_current lv)
      | S_object_value_add \<Rightarrow> is_obj (sr_current lv) \<and> sr_obj_field_name lv \<noteq> None
      | _ \<Rightarrow> saved_ok (sr_saved_state lv) lv)"

lemma saved_ok_state [simp]:
  "saved_ok sv (lv\<lparr> sr_state := st \<rparr>) = saved_ok sv lv" "saved_ok sv (lv\<lparr> sr_saved_state := sv' \<rparr>) = saved_ok sv lv"
  by (cases sv; simp)+

definition tok_ok :: "json_tokener \<Rightarrow> bool" where
  "tok_ok tok \<longleftrightarrow> level_ok (tk_top tok) \<and> list_all level_ok (tk_below tok)"

text \<open>The outcome of a step that keeps the invariant.\<close>

fun good :: "tok_outcome \<Rightarrow> bool" where
  "good (Next tok) = tok_ok tok"
| "good (Redo tok) = tok_ok tok"
| "good (Jump tok rest) = tok_ok tok"
| "good (Out err tok) = True"
| "good (Crash e) = False"

lemmas ok_defs = tok_ok_def level_ok_def tok_set_defs

lemma good_simple:
  "tok_ok tok \<Longrightarrow> sr_state (tk_top tok) = S_eatws \<Longrightarrow> good (step_eatws tok c)"
  "tok_ok tok \<Longrightarrow> good (step_inf tok c)"
  "tok_ok tok \<Longrightarrow> sr_state (tk_top tok) = S_null \<Longrightarrow> good (step_null tok c)"
  "tok_ok tok \<Longrightarrow> sr_state (tk_top tok) = S_boolean \<Longrightarrow> good (step_boolean tok c)"
  by (auto simp: step_eatws_def step_inf_def step_null_def step_boolean_def ok_defs Let_def)

lemma good_start: "tok_ok tok \<Longrightarrow> good (step_start tok c)"
  by (simp only: step_start_def if_distrib [of good] split: if_split) (simp add: ok_defs is_arr_def is_obj_def)

lemma good_finish: "tok_ok tok \<Longrightarrow> good (step_finish tok)"
  by (auto simp: step_finish_def tok_ok_def split: list.split)

lemma good_comment:
  "tok_ok tok \<Longrightarrow> sr_state (tk_top tok) \<in> {S_comment_start, S_comment, S_comment_eol, S_comment_end} \<Longrightarrow> good (step_comment tok c)"
  by (auto simp: step_comment_def ok_defs)

lemma good_string: "tok_ok tok \<Longrightarrow> sr_state (tk_top tok) = St S_string \<Longrightarrow> good (step_string tok c)"
  by (auto simp: step_string_def ok_defs)

lemma good_field: "tok_ok tok \<Longrightarrow> sr_state (tk_top tok) = St S_object_field \<Longrightarrow> good (step_object_field tok c)"
  by (auto simp: step_object_field_def ok_defs)

lemma good_escape:
  "tok_ok tok \<Longrightarrow> sr_state (tk_top tok) = S_string_escape \<Longrightarrow> good (step_string_escape tok c)"
  by (simp only: step_string_escape_def if_distrib [of good] split: if_split) (simp add: ok_defs)

lemma good_unicode:
  "tok_ok tok \<Longrightarrow> sr_state (tk_top tok) = S_escape_unicode \<Longrightarrow> good (step_escape_unicode tok c)"
  by (simp add: step_escape_unicode_def unicode_done_def ok_defs Let_def)

lemma good_need:
  "tok_ok tok \<Longrightarrow> sr_state (tk_top tok) = S_need_escape \<Longrightarrow> good (step_need_escape tok c)"
  "tok_ok tok \<Longrightarrow> sr_state (tk_top tok) = S_need_u \<Longrightarrow> good (step_need_u tok c)"
  by (simp_all add: step_need_escape_def step_need_u_def ok_defs)

lemma good_number: "tok_ok tok \<Longrightarrow> sr_state (tk_top tok) = S_number \<Longrightarrow> good (step_number strtod tok s)"
  by (auto simp: step_number_def ok_defs Let_def split: prod.split list.split option.split)

lemma good_array:
  "tok_ok tok \<Longrightarrow> sr_state (tk_top tok) \<in> {St S_array, St S_array_after_sep} \<Longrightarrow> good (step_array tok c)"
  "tok_ok tok \<Longrightarrow> sr_state (tk_top tok) = S_array_add \<Longrightarrow> good (step_array_add tok)"
  "tok_ok tok \<Longrightarrow> sr_state (tk_top tok) = St S_array_sep \<Longrightarrow> good (step_array_sep tok c)"
  by (auto simp: step_array_def step_array_add_def step_array_sep_def ok_defs fresh_level_def is_arr_def split: sum.split)

lemma good_object:
  "tok_ok tok \<Longrightarrow> sr_state (tk_top tok) \<in> {St S_object_field_start, St S_object_field_start_after_sep} \<Longrightarrow> good (step_field_start tok c)"
  "tok_ok tok \<Longrightarrow> sr_state (tk_top tok) = St S_object_field_end \<Longrightarrow> good (step_field_end tok c)"
  "tok_ok tok \<Longrightarrow> sr_state (tk_top tok) = St S_object_value \<Longrightarrow> good (step_object_value tok)"
  "tok_ok tok \<Longrightarrow> sr_state (tk_top tok) = S_object_value_add \<Longrightarrow> good (step_object_value_add tok)"
  "tok_ok tok \<Longrightarrow> sr_state (tk_top tok) = St S_object_sep \<Longrightarrow> good (step_object_sep tok c)"
  by (auto simp: step_field_start_def step_field_end_def step_object_value_def step_object_value_add_def step_object_sep_def
      ok_defs fresh_level_def is_obj_def)

lemma step_good: "tok_ok tok \<Longrightarrow> good (tok_step strtod tok c cs)"
proof (cases "sr_state (tk_top tok)")
  case (St sv)
  assume "tok_ok tok"
  with St show ?thesis using good_start good_finish good_string good_field good_array good_object
    by (cases sv) (simp_all add: tok_step_def)
qed (simp_all add: tok_step_def good_simple good_comment good_escape good_unicode good_need good_number good_array good_object)


section \<open>Texts with a null byte\<close>

lemma scan_NUL: "NUL \<in> set s \<Longrightarrow> number_scan d e n p s = (d', taken, rest) \<Longrightarrow> NUL \<in> set rest"
  by (induction d e n p s arbitrary: d' taken rest rule: number_scan.induct) (auto split: if_splits prod.splits)

lemma number_not_continue: "NUL \<in> set s \<Longrightarrow> step_number strtod tok s \<noteq> Out json_tokener_continue tok'"
  by (auto simp: step_number_def Let_def split: prod.split list.split option.split dest: scan_NUL)

lemma simple_not_continue:
  "step_comment tok c \<noteq> Out json_tokener_continue tok'" "step_string tok c \<noteq> Out json_tokener_continue tok'"
  "step_string_escape tok c \<noteq> Out json_tokener_continue tok'" "step_escape_unicode tok c \<noteq> Out json_tokener_continue tok'"
  "step_array_sep tok c \<noteq> Out json_tokener_continue tok'" "step_field_start tok c \<noteq> Out json_tokener_continue tok'"
  "step_object_field tok c \<noteq> Out json_tokener_continue tok'" "step_field_end tok c \<noteq> Out json_tokener_continue tok'"
  "step_object_sep tok c \<noteq> Out json_tokener_continue tok'" "step_eatws tok c \<noteq> Out json_tokener_continue tok'"
  "step_start tok c \<noteq> Out json_tokener_continue tok'" "step_finish tok \<noteq> Out json_tokener_continue tok'"
  "step_inf tok c \<noteq> Out json_tokener_continue tok'" "step_null tok c \<noteq> Out json_tokener_continue tok'"
  "step_boolean tok c \<noteq> Out json_tokener_continue tok'" "step_need_escape tok c \<noteq> Out json_tokener_continue tok'"
  "step_need_u tok c \<noteq> Out json_tokener_continue tok'" "step_array tok c \<noteq> Out json_tokener_continue tok'"
  "step_array_add tok \<noteq> Out json_tokener_continue tok'" "step_object_value tok \<noteq> Out json_tokener_continue tok'"
  "step_object_value_add tok \<noteq> Out json_tokener_continue tok'"
  by (auto simp: step_defs Let_def split: tok_state.split list.split option.split sum.split)

lemma step_not_continue: "NUL \<in> set (c # cs) \<Longrightarrow> tok_step strtod tok c cs \<noteq> Out json_tokener_continue tok'"
proof (cases "sr_state (tk_top tok)")
  case (St sv)
  then show ?thesis by (cases sv) (simp_all add: tok_step_def simple_not_continue)
qed (use number_not_continue [of "c # cs"] in \<open>simp_all add: tok_step_def simple_not_continue\<close>)

lemma jump_NUL: "NUL \<in> set (c # cs) \<Longrightarrow> tok_step strtod tok c cs = Jump tok' rest \<Longrightarrow> NUL \<in> set rest"
proof (cases "sr_state (tk_top tok)")
  case (St sv)
  assume "tok_step strtod tok c cs = Jump tok' rest"
  then show ?thesis using St by (cases sv) (simp_all add: tok_step_def no_jump)
next
  case S_number
  assume "NUL \<in> set (c # cs)" "tok_step strtod tok c cs = Jump tok' rest"
  then show ?thesis using S_number
    by (auto simp: tok_step_def step_number_def Let_def split: prod.splits list.splits option.splits if_splits
        simp del: number_scan.simps dest: scan_NUL [rotated])
qed (simp_all add: tok_step_def no_jump)

lemma loop_decides:
  "NUL \<in> set s \<Longrightarrow> tok_ok tok \<Longrightarrow> \<exists>err b tok'. tok_loop strtod tok s = Inr (err, b, tok') \<and> err \<noteq> json_tokener_continue"
proof (induction strtod tok s rule: tok_loop.induct)
  case (2 strtod tok c cs)
  have good: "good (tok_step strtod tok c cs)" using step_good "2.prems" by blast
  show ?case
  proof (cases "tok_step strtod tok c cs")
    case (Next tok')
    then show ?thesis using 2 good by (cases "c = NUL") (auto simp: tok_loop.simps)
  next
    case (Redo tok')
    then show ?thesis using "2.IH"(2) [OF Redo] "2.prems" good by (subst tok_loop.simps) simp
  next
    case (Jump tok' rest)
    then show ?thesis using "2.IH"(3) [OF Jump] "2.prems" good jump_NUL [OF "2.prems"(1) Jump] by (subst tok_loop.simps) simp
  next
    case (Out err tok')
    then show ?thesis using step_not_continue [OF "2.prems"(1), of strtod tok tok'] by (auto simp: tok_loop.simps)
  next
    case (Crash e)
    then show ?thesis using good by simp
  qed
qed simp

lemma tok_ok_new: "tok_ok json_tokener_new"
  by (simp add: json_tokener_new_def tok_ok_def level_ok_def fresh_level_def)

lemma parse_ex_decides:
  "\<exists>j err tok. json_tokener_parse_ex strtod json_tokener_new (s @ [NUL]) = Inr (j, err, tok) \<and>
     err \<noteq> json_tokener_continue \<and> (err = json_tokener_success \<or> j = None)"
proof -
  have "json_tokener_new\<lparr> tk_obj := None \<rparr> = json_tokener_new" by (simp add: json_tokener_new_def)
  then obtain err b tok where "tok_loop strtod (json_tokener_new\<lparr> tk_obj := None \<rparr>) (s @ [NUL]) = Inr (err, b, tok)"
      "err \<noteq> json_tokener_continue"
    using loop_decides [of "s @ [NUL]" json_tokener_new strtod] tok_ok_new by auto
  then show ?thesis by (simp add: json_tokener_parse_ex_def Let_def)
qed

text \<open>
  C15. The JSON parser decides every text that ends in a null byte in one call, as
  \<open>tg_event_json_parse\<close> relies on for its loop: on a fresh tokener \<open>json_tokener_parse_ex\<close>
  returns, no assertion of json-c fails on the way, it does not ask for more input, and it
  gives no document unless it reports success.
\<close>

theorem tokener_decides:
  "\<exists>j err tok. json_tokener_parse_ex strtod json_tokener_new (s @ [NUL]) = Inr (j, err, tok) \<and>
     err \<noteq> json_tokener_continue \<and> (err = json_tokener_success \<or> j = None)"
  by (rule parse_ex_decides)

end
