(* ===== verification/Json_Typed.thy ===== *)
theory Json_Typed
  imports Json_Roundtrip Json_Safe
begin

text \<open>
  What kind of documents the parser of json-c builds: an invariant of its stack from which every
  document it returns is well typed, whatever the text was, and with it the round trip from the
  side of the text.
\<close>

section \<open>Well-typed documents\<close>

text \<open>
  An unsigned integer is used only above the range of the signed ones, the keys of an object are distinct C strings.
  \<open>json_plain\<close> excludes doubles, which print as the text they were read from.
\<close>

fun json_typed :: "json_object \<Rightarrow> bool" and json_ptr_typed :: "json \<Rightarrow> bool"
  and json_elems_typed :: "json list \<Rightarrow> bool" and json_members_typed :: "(bytes \<times> json) list \<Rightarrow> bool" where
  "json_typed (JBool b) = True"
| "json_typed (JDouble d t) = True"
| "json_typed (JInt64 i) = True"
| "json_typed (JUint64 i) = (INT64_MAX < i)"
| "json_typed (JStr s) = True"
| "json_typed (JArr xs) = json_elems_typed xs"
| "json_typed (JObj es) = (distinct (map fst es) \<and> json_members_typed es)"
| "json_ptr_typed None = True"
| "json_ptr_typed (Some j) = json_typed j"
| "json_elems_typed [] = True"
| "json_elems_typed (x # xs) = (json_ptr_typed x \<and> json_elems_typed xs)"
| "json_members_typed [] = True"
| "json_members_typed ((k, v) # es) = (NUL \<notin> set k \<and> json_ptr_typed v \<and> json_members_typed es)"

fun json_plain :: "json_object \<Rightarrow> bool" and json_ptr_plain :: "json \<Rightarrow> bool"
  and json_elems_plain :: "json list \<Rightarrow> bool" and json_members_plain :: "(bytes \<times> json) list \<Rightarrow> bool" where
  "json_plain (JDouble d t) = False"
| "json_plain (JArr xs) = json_elems_plain xs"
| "json_plain (JObj es) = json_members_plain es"
| "json_plain _ = True"
| "json_ptr_plain None = True"
| "json_ptr_plain (Some j) = json_plain j"
| "json_elems_plain [] = True"
| "json_elems_plain (x # xs) = (json_ptr_plain x \<and> json_elems_plain xs)"
| "json_members_plain [] = True"
| "json_members_plain ((k, v) # es) = (json_ptr_plain v \<and> json_members_plain es)"

lemma typed_plain_ok:
  "json_typed j \<Longrightarrow> json_plain j \<Longrightarrow> json_ok j"
  "json_ptr_typed v \<Longrightarrow> json_ptr_plain v \<Longrightarrow> json_ptr_ok v"
  "json_elems_typed xs \<Longrightarrow> json_elems_plain xs \<Longrightarrow> json_elems_ok xs"
  "json_members_typed es \<Longrightarrow> json_members_plain es \<Longrightarrow> json_members_ok es"
  by (induction j and v and xs and es rule: json_ok_json_ptr_ok_json_elems_ok_json_members_ok.induct) auto

lemma elems_append: "json_elems_typed (xs @ [v]) = (json_elems_typed xs \<and> json_ptr_typed v)"
  by (induction xs) auto

lemma elems_append_depth: "json_elems_depth (xs @ [v]) = max (json_elems_depth xs) (Suc (json_ptr_depth v))"
  by (induction xs) auto

lemma put_keys: "fst ` set (jtable_put k v es) = insert k (fst ` set es)"
  by (induction k v es rule: jtable_put.induct) auto

lemma put_typed:
  "NUL \<notin> set k \<Longrightarrow> json_ptr_typed v \<Longrightarrow> json_members_typed es \<Longrightarrow> json_members_typed (jtable_put k v es)"
  by (induction k v es rule: jtable_put.induct) auto

lemma put_distinct: "distinct (map fst es) \<Longrightarrow> distinct (map fst (jtable_put k v es))"
  by (induction k v es rule: jtable_put.induct) (use put_keys in \<open>auto simp del: set_map simp: set_map [symmetric]\<close>)

lemma put_depth: "json_members_depth (jtable_put k v es) \<le> max (json_members_depth es) (Suc (json_ptr_depth v))"
  by (induction k v es rule: jtable_put.induct) auto

section \<open>The invariant of the parser\<close>

text \<open>
  A value on a level with \<open>n\<close> levels below it has at most \<open>31 - n\<close> levels of its own; the finished value in \<open>obj\<close>
  fits into the container on top.
\<close>

definition level_typed :: "nat \<Rightarrow> json_tokener_srec \<Rightarrow> bool" where
  "level_typed n lv \<longleftrightarrow> json_ptr_typed (sr_current lv) \<and> json_ptr_depth (sr_current lv) + n \<le> 31 \<and>
     (\<forall>k. sr_obj_field_name lv = Some k \<longrightarrow> NUL \<notin> set k)"

fun levels_typed :: "json_tokener_srec list \<Rightarrow> bool" where
  "levels_typed [] = True"
| "levels_typed (lv # lvs) = (level_typed (length lvs) lv \<and> levels_typed lvs)"

definition adding :: "json_tokener_srec \<Rightarrow> bool" where
  "adding lv \<longleftrightarrow> sr_state lv = S_array_add \<or> sr_state lv = S_object_value_add"

definition tok_typed :: "json_tokener \<Rightarrow> bool" where
  "tok_typed tok \<longleftrightarrow> tk_max_depth tok = 32 \<and> level_typed (tk_depth tok) (tk_top tok) \<and> levels_typed (tk_below tok) \<and>
     (adding (tk_top tok) \<longrightarrow> json_ptr_typed (tk_obj tok) \<and> json_ptr_depth (tk_obj tok) + tk_depth tok + 1 \<le> 31)"

fun keeps_typed :: "tok_outcome \<Rightarrow> bool" where
  "keeps_typed (Next tok) = tok_typed tok"
| "keeps_typed (Redo tok) = tok_typed tok"
| "keeps_typed (Jump tok rest) = tok_typed tok"
| "keeps_typed (Out err tok) = level_typed (tk_depth tok) (tk_top tok)"
| "keeps_typed (Crash e) = True"

lemmas typed_defs = tok_typed_def level_typed_def adding_def tok_set_defs

lemma typed_simple:
  "tok_typed tok \<Longrightarrow> sr_state (tk_top tok) = S_eatws \<Longrightarrow> keeps_typed (step_eatws tok c)"
  "tok_typed tok \<Longrightarrow> sr_state (tk_top tok) = S_inf \<Longrightarrow> keeps_typed (step_inf tok c)"
  "tok_typed tok \<Longrightarrow> sr_state (tk_top tok) = S_null \<Longrightarrow> keeps_typed (step_null tok c)"
  "tok_typed tok \<Longrightarrow> sr_state (tk_top tok) = S_boolean \<Longrightarrow> keeps_typed (step_boolean tok c)"
  by (auto simp: step_eatws_def step_inf_def step_null_def step_boolean_def typed_defs Let_def)

lemma typed_start: "tok_typed tok \<Longrightarrow> keeps_typed (step_start tok c)"
  by (simp only: step_start_def if_distrib [of keeps_typed] split: if_split) (simp add: typed_defs)

lemma typed_finish: "tok_typed tok \<Longrightarrow> keeps_typed (step_finish tok)"
  by (auto simp: step_finish_def tok_typed_def level_typed_def split: list.split)

lemma typed_comment:
  "tok_typed tok \<Longrightarrow> sr_state (tk_top tok) \<in> {S_comment_start, S_comment, S_comment_eol, S_comment_end} \<Longrightarrow> keeps_typed (step_comment tok c)"
  by (auto simp: step_comment_def typed_defs)

lemma typed_string:
  "tok_typed tok \<Longrightarrow> sr_state (tk_top tok) = St S_string \<Longrightarrow> keeps_typed (step_string tok c)"
  "tok_typed tok \<Longrightarrow> sr_state (tk_top tok) = St S_object_field \<Longrightarrow> keeps_typed (step_object_field tok c)"
  by (auto simp: step_string_def step_object_field_def typed_defs cstr_def dest: set_takeWhileD)

lemma typed_escape:
  "tok_typed tok \<Longrightarrow> sr_state (tk_top tok) = S_string_escape \<Longrightarrow> keeps_typed (step_string_escape tok c)"
  by (simp only: step_string_escape_def if_distrib [of keeps_typed] split: if_split) (simp add: typed_defs)

lemma typed_unicode:
  "tok_typed tok \<Longrightarrow> sr_state (tk_top tok) = S_escape_unicode \<Longrightarrow> keeps_typed (step_escape_unicode tok c)"
  by (simp add: step_escape_unicode_def unicode_done_def typed_defs Let_def)

lemma typed_need:
  "tok_typed tok \<Longrightarrow> sr_state (tk_top tok) = S_need_escape \<Longrightarrow> keeps_typed (step_need_escape tok c)"
  "tok_typed tok \<Longrightarrow> sr_state (tk_top tok) = S_need_u \<Longrightarrow> keeps_typed (step_need_u tok c)"
  by (simp_all add: step_need_escape_def step_need_u_def typed_defs)

lemma number_typed: "number_value strtod d pb = Some j \<Longrightarrow> json_typed j \<and> json_depth j = 0"
  by (auto simp: number_value_def split: if_splits)

lemma typed_number: "tok_typed tok \<Longrightarrow> sr_state (tk_top tok) = S_number \<Longrightarrow> keeps_typed (step_number strtod tok s)"
  by (auto simp: step_number_def typed_defs Let_def split: prod.split list.split option.split dest: number_typed)

lemma typed_array:
  "tok_typed tok \<Longrightarrow> sr_state (tk_top tok) \<in> {St S_array, St S_array_after_sep} \<Longrightarrow> keeps_typed (step_array tok c)"
  "tok_typed tok \<Longrightarrow> sr_state (tk_top tok) = St S_array_sep \<Longrightarrow> keeps_typed (step_array_sep tok c)"
  by (auto simp: step_array_def step_array_sep_def typed_defs fresh_level_def)

lemma typed_array_add:
  assumes "tok_typed tok" "sr_state (tk_top tok) = S_array_add"
  shows "keeps_typed (step_array_add tok)"
proof (cases "json_object_array_add (sr_current (tk_top tok)) (tk_obj tok)")
  case (Inr j)
  then obtain xs where "sr_current (tk_top tok) = Some (JArr xs)" "j = Some (JArr (xs @ [tk_obj tok]))"
    by (cases "(sr_current (tk_top tok), tk_obj tok)" rule: json_object_array_add.cases) auto
  then show ?thesis using assms Inr by (auto simp: step_array_add_def typed_defs elems_append elems_append_depth)
qed (simp add: step_array_add_def)

lemma typed_object:
  "tok_typed tok \<Longrightarrow> sr_state (tk_top tok) \<in> {St S_object_field_start, St S_object_field_start_after_sep} \<Longrightarrow> keeps_typed (step_field_start tok c)"
  "tok_typed tok \<Longrightarrow> sr_state (tk_top tok) = St S_object_field_end \<Longrightarrow> keeps_typed (step_field_end tok c)"
  "tok_typed tok \<Longrightarrow> sr_state (tk_top tok) = St S_object_value \<Longrightarrow> keeps_typed (step_object_value tok)"
  "tok_typed tok \<Longrightarrow> sr_state (tk_top tok) = St S_object_sep \<Longrightarrow> keeps_typed (step_object_sep tok c)"
  by (auto simp: step_field_start_def step_field_end_def step_object_value_def step_object_sep_def typed_defs fresh_level_def)

lemma typed_value_add:
  assumes "tok_typed tok" "sr_state (tk_top tok) = S_object_value_add"
  shows "keeps_typed (step_object_value_add tok)"
proof (cases "sr_obj_field_name (tk_top tok)")
  case (Some k)
  have k: "NUL \<notin> set k" "cstr k = k" using assms(1) Some by (auto simp: typed_defs cstr_def takeWhile_eq_all_conv)
  show ?thesis
  proof (cases "json_object_object_add (sr_current (tk_top tok)) k (tk_obj tok)")
    case (Inr j)
    then obtain es where es: "sr_current (tk_top tok) = Some (JObj es)" "j = Some (JObj (jtable_put k (tk_obj tok) es))"
      using k(2) by (cases "(sr_current (tk_top tok), k, tk_obj tok)" rule: json_object_object_add.cases) auto
    have "json_members_depth (jtable_put k (tk_obj tok) es) + tk_depth tok \<le> 31"
      using put_depth [of k "tk_obj tok" es] assms es(1) by (auto simp: typed_defs)
    then show ?thesis using assms Some Inr es k(1)
      by (simp add: step_object_value_add_def typed_defs put_typed put_distinct)
  qed (simp add: step_object_value_add_def Some)
qed (simp add: step_object_value_add_def)

lemma step_typed: "tok_typed tok \<Longrightarrow> keeps_typed (tok_step strtod tok c cs)"
proof (cases "sr_state (tk_top tok)")
  case (St sv)
  assume "tok_typed tok"
  with St show ?thesis using typed_start typed_finish typed_string typed_array typed_object
    by (cases sv) (simp_all add: tok_step_def)
qed (simp_all add: tok_step_def typed_simple typed_comment typed_escape typed_unicode typed_need typed_number typed_array_add typed_value_add)

lemma loop_typed:
  "tok_typed tok \<Longrightarrow> tok_loop strtod tok s = Inr (err, b, tok') \<Longrightarrow> level_typed (tk_depth tok') (tk_top tok')"
proof (induction strtod tok s rule: tok_loop.induct)
  case (1 strtod tok)
  then show ?case by (auto simp: tok_loop.simps tok_typed_def)
next
  case (2 strtod tok c cs)
  have keeps: "keeps_typed (tok_step strtod tok c cs)" using step_typed "2.prems" by blast
  show ?case
  proof (cases "tok_step strtod tok c cs")
    case (Next t)
    then show ?thesis using 2 keeps by (cases "c = NUL") (auto simp: tok_loop.simps tok_typed_def)
  next
    case (Redo t)
    then show ?thesis using "2.IH"(2) [OF Redo] "2.prems" keeps by (simp add: loop_Redo)
  next
    case (Jump t rest)
    then show ?thesis using "2.IH"(3) [OF Jump] "2.prems" keeps by (simp add: loop_Jump)
  next
    case (Out e t)
    then show ?thesis using "2.prems" keeps by (auto simp: tok_loop.simps)
  next
    case (Crash e)
    then show ?thesis using "2.prems" by (simp add: tok_loop.simps)
  qed
qed

lemma parse_ex_typed:
  assumes "json_tokener_parse_ex strtod json_tokener_new s = Inr (doc, err, tok)"
  shows "json_ptr_typed doc \<and> json_ptr_depth doc < 32"
proof -
  have "tok_typed (json_tokener_new\<lparr> tk_obj := None \<rparr>)" by (simp add: json_tokener_new_def typed_defs fresh_level_def)
  then show ?thesis using assms loop_typed
    by (fastforce simp: json_tokener_parse_ex_def ebind_eq_Inr Let_def level_typed_def split: if_splits)
qed

text \<open>
  C7. Every document that the parser returns is well typed, whatever text it is given: the keys of each object are
  distinct C strings, an unsigned integer lies above the range of the signed ones, and the document fits into the 32
  levels of the parser.
\<close>

theorem parsed_is_typed:
  "\<exists>doc. json_tokener_parse strtod s = Inr doc \<and> json_ptr_typed doc \<and> json_ptr_depth doc < 32"
proof -
  obtain j err tok where j: "json_tokener_parse_ex strtod json_tokener_new (cstr s @ [NUL]) = Inr (j, err, tok)"
    using parse_ex_decides by blast
  then show ?thesis using parse_ex_typed [OF j] by (simp add: json_tokener_parse_def)
qed

text \<open>
  C6. Texts are normalised: whatever the bot reads, in whatever layout, with comments, repeated keys or escapes, the
  document it gets prints, in every format, as a text that is read as the same document again, if it holds no
  doubles.
\<close>

theorem parse_print_parse:
  assumes "json_tokener_parse strtod s = Inr doc" and "json_ptr_plain doc"
  shows "json_tokener_parse strtod (json_object_to_json_string_ext doc fl) = Inr doc"
proof -
  obtain j err tok where j: "json_tokener_parse_ex strtod json_tokener_new (cstr s @ [NUL]) = Inr (j, err, tok)"
    using parse_ex_decides by blast
  then have "json_ptr_typed doc" "json_ptr_depth doc < 32"
    using parse_ex_typed [OF j] assms(1) by (auto simp: json_tokener_parse_def split: if_splits)
  then have ok: "json_ptr_ok doc" "json_ptr_depth doc < 32" using typed_plain_ok(2) assms(2) by auto
  show ?thesis using print_parse_ex [OF ok, of strtod fl] print_string [OF ok(1), of fl]
    by (auto simp: json_tokener_parse_def)
qed

definition demo_text :: bytes where
  "demo_text = ''{'' @ [CHR 0x22, CHR ''a'', CHR 0x22] @ '':1 /*x*/, '' @ [CHR 0x27, CHR ''a'', CHR 0x27] @ '': [ 2, null ] }''"

theorem parse_print_parse_witness:
  "json_tokener_parse (\<lambda>s. (NotANumber, 0)) (json_object_to_json_string_ext (Some (JObj [(''a'', Some (JArr [Some (JInt64 2), None]))])) spaced_flags) =
     Inr (Some (JObj [(''a'', Some (JArr [Some (JInt64 2), None]))]))"
proof (rule parse_print_parse)
  show "json_tokener_parse (\<lambda>s. (NotANumber, 0)) demo_text = Inr (Some (JObj [(''a'', Some (JArr [Some (JInt64 2), None]))]))"
    by code_simp
qed simp

end
