(* ===== verification/Gw_Interfaces.thy ===== *)
theory Gw_Interfaces
  imports Gw_Prelude
begin

text \<open>
  The contracts the server relies on, as locales: a bounded stack of indexes (the pools
  of idle channels and idle workers), a bounded queue of packets (the submission queue),
  a store of copied strings (the arena of the configuration) and a table that keeps the order
  of its entries (the objects of json-c).  The client lemmas are
  proved here once, from the laws alone; the theories \<open>Tstack\<close>, \<open>Que\<close>, \<open>Arena\<close> and
  \<open>Linkhash_Rep\<close> interpret the locales on the models of the C code.
\<close>

section \<open>Runs of an operation\<close>

text \<open>A sequence of pushes; a run stops at the first fault.\<close>

fun run_pushes :: "('s \<Rightarrow> 'v \<Rightarrow> (int \<times> 's) res) \<Rightarrow> 's \<Rightarrow> 'v list \<Rightarrow> (int list \<times> 's) res" where
  "run_pushes push s [] = Inr ([], s)"
| "run_pushes push s (v # vs) =
     ebind (push s v) (\<lambda>(r, s'). ebind (run_pushes push s' vs) (\<lambda>(rs, s''). Inr (r # rs, s'')))"

text \<open>A number of calls of an operation without argument: pops, or dequeues.\<close>

fun run_takes :: "('s \<Rightarrow> ('r \<times> 's) res) \<Rightarrow> 's \<Rightarrow> nat \<Rightarrow> ('r list \<times> 's) res" where
  "run_takes tk s 0 = Inr ([], s)"
| "run_takes tk s (Suc n) =
     ebind (tk s) (\<lambda>(r, s'). ebind (run_takes tk s' n) (\<lambda>(rs, s''). Inr (r # rs, s'')))"

section \<open>A bounded stack\<close>

locale lifo_stack =
  fixes push :: "'s \<Rightarrow> 'v \<Rightarrow> (int \<times> 's) res"
    and pop :: "'s \<Rightarrow> (int \<times> 's) res"
    and enc :: "'v \<Rightarrow> int"
    and contents :: "'s \<Rightarrow> 'v list"
    and cap :: "'s \<Rightarrow> nat"
    and wf :: "'s \<Rightarrow> bool"
  assumes push_room: "wf s \<Longrightarrow> length (contents s) < cap s \<Longrightarrow>
      \<exists>s'. push s v = Inr (enc v, s') \<and> wf s' \<and> contents s' = v # contents s \<and> cap s' = cap s"
    and push_full: "wf s \<Longrightarrow> length (contents s) = cap s \<Longrightarrow> push s v = Inr (-1, s)"
    and pop_some: "wf s \<Longrightarrow> contents s = v # vs \<Longrightarrow>
      \<exists>s'. pop s = Inr (enc v, s') \<and> wf s' \<and> contents s' = vs \<and> cap s' = cap s"
    and pop_none: "wf s \<Longrightarrow> contents s = [] \<Longrightarrow> pop s = Inr (-1, s)"
    and contents_cap: "wf s \<Longrightarrow> length (contents s) \<le> cap s"
    and enc_nonneg: "0 \<le> enc v"
begin

lemma enc_not_error: "enc v \<noteq> -1"
  using enc_nonneg [of v] by simp

lemma pop_error_iff: "wf s \<Longrightarrow> pop s = Inr (r, s') \<Longrightarrow> r = -1 \<longleftrightarrow> contents s = []"
  by (cases "contents s") (use pop_some pop_none enc_not_error in fastforce)+

lemma pop_wf: "wf s \<Longrightarrow> \<exists>r s'. pop s = Inr (r, s') \<and> wf s' \<and> contents s' = tl (contents s) \<and> cap s' = cap s"
  by (cases "contents s") (use pop_some pop_none in fastforce)+

lemma push_wf: "wf s \<Longrightarrow> \<exists>r s'. push s v = Inr (r, s') \<and> wf s' \<and> cap s' = cap s"
  using push_room [of s v] push_full [of s v] contents_cap [of s] by fastforce

lemma pushes_room:
  "wf s \<Longrightarrow> length (contents s) + length vs \<le> cap s \<Longrightarrow>
     \<exists>s'. run_pushes push s vs = Inr (map enc vs, s') \<and> wf s' \<and>
       contents s' = rev vs @ contents s \<and> cap s' = cap s"
proof (induction vs arbitrary: s)
  case Nil
  then show ?case by simp
next
  case (Cons v vs)
  then obtain s1 where s1: "push s v = Inr (enc v, s1)" "wf s1" "contents s1 = v # contents s"
      "cap s1 = cap s"
    using push_room [of s v] by auto
  with Cons.prems Cons.IH [of s1] show ?case by (auto simp: run_simps)
qed

lemma takes_contents:
  "wf s \<Longrightarrow> contents s = vs @ ws \<Longrightarrow>
     \<exists>s'. run_takes pop s (length vs) = Inr (map enc vs, s') \<and> wf s' \<and> contents s' = ws \<and>
       cap s' = cap s"
proof (induction vs arbitrary: s)
  case Nil
  then show ?case by simp
next
  case (Cons v vs)
  then obtain s1 where s1: "pop s = Inr (enc v, s1)" "wf s1" "contents s1 = vs @ ws" "cap s1 = cap s"
    using pop_some [of s v "vs @ ws"] by auto
  with Cons.IH [of s1] show ?case by (auto simp: run_simps)
qed

lemma pushes_then_takes:
  assumes "wf s" and "length (contents s) + length vs \<le> cap s"
  shows "\<exists>s1 s2. run_pushes push s vs = Inr (map enc vs, s1) \<and>
           run_takes pop s1 (length vs) = Inr (map enc (rev vs), s2) \<and>
           wf s2 \<and> contents s2 = contents s"
proof -
  obtain s1 where s1: "run_pushes push s vs = Inr (map enc vs, s1)" "wf s1"
      "contents s1 = rev vs @ contents s"
    using pushes_room [OF assms] by blast
  with takes_contents [of s1 "rev vs" "contents s"] show ?thesis by auto
qed

end

section \<open>A bounded queue\<close>

text \<open>
  The queue keeps its elements in nodes of a memory; \<open>enq\<close> gets the answer of the
  allocator, which \<open>fresh\<close> says is a block of its own, and a dequeued node still
  carries its payload.
\<close>

locale fifo_queue =
  fixes enq :: "'s \<Rightarrow> 'm \<Rightarrow> 'v \<Rightarrow> ((int + 'n) \<times> 's) res"
    and deq :: "'s \<Rightarrow> ('n option \<times> 's) res"
    and rep :: "'s \<Rightarrow> 'v list \<Rightarrow> bool"
    and cap :: "'s \<Rightarrow> nat"
    and fresh :: "'s \<Rightarrow> 'm \<Rightarrow> bool"
    and payload :: "'s \<Rightarrow> 'n \<Rightarrow> 'v option"
  assumes enq_room: "rep s vs \<Longrightarrow> length vs < cap s \<Longrightarrow> fresh s m \<Longrightarrow>
      \<exists>n s'. enq s m v = Inr (Inr n, s') \<and> rep s' (vs @ [v]) \<and> cap s' = cap s \<and>
        payload s' n = Some v"
    and enq_full: "rep s vs \<Longrightarrow> cap s \<le> length vs \<Longrightarrow> enq s m v = Inr (Inl EAGAIN, s)"
    and deq_some: "rep s (v # vs) \<Longrightarrow>
      \<exists>n s'. deq s = Inr (Some n, s') \<and> rep s' vs \<and> cap s' = cap s \<and>
        payload s' = payload s \<and> payload s' n = Some v"
    and deq_none: "rep s [] \<Longrightarrow> deq s = Inr (None, s)"
begin

lemma deq_total: "rep s vs \<Longrightarrow> \<exists>r s'. deq s = Inr (r, s') \<and> rep s' (tl vs) \<and> (r = None \<longleftrightarrow> vs = [])"
  by (cases vs) (use deq_some deq_none in fastforce)+

lemma drain:
  "rep s vs \<Longrightarrow>
     \<exists>ns s'. run_takes deq s (length vs) = Inr (map Some ns, s') \<and> rep s' [] \<and>
       payload s' = payload s \<and> map (payload s') ns = map Some vs"
proof (induction vs arbitrary: s)
  case Nil
  then show ?case by (intro exI [of _ "[]"]) auto
next
  case (Cons v vs)
  then obtain n s1 where s1: "deq s = Inr (Some n, s1)" "rep s1 vs" "payload s1 = payload s"
      "payload s1 n = Some v"
    using deq_some by blast
  with Cons.IH [of s1] obtain ns s2 where "run_takes deq s1 (length vs) = Inr (map Some ns, s2)"
      "rep s2 []" "payload s2 = payload s1" "map (payload s2) ns = map Some vs"
    by blast
  with s1 show ?case by (intro exI [of _ "n # ns"] exI [of _ s2]) auto
qed

end

section \<open>A store of strings\<close>

text \<open>
  The configuration keeps pointers to copies of strings.  \<open>dup s x\<close> copies at most
  \<open>lim\<close> bytes of the C string \<open>x\<close>; \<open>live\<close> says which pointers have been handed out, and \<open>room\<close>
  how many bytes are left.
\<close>

fun run_dups :: "('s \<Rightarrow> bytes \<Rightarrow> ('p \<times> 's) res) \<Rightarrow> 's \<Rightarrow> bytes list \<Rightarrow> ('p list \<times> 's) res" where
  "run_dups dup s [] = Inr ([], s)"
| "run_dups dup s (x # xs) =
     ebind (dup s x) (\<lambda>(p, s'). ebind (run_dups dup s' xs) (\<lambda>(ps, s''). Inr (p # ps, s'')))"

locale string_store =
  fixes dup :: "'s \<Rightarrow> bytes \<Rightarrow> ('p \<times> 's) res"
    and lim :: nat
    and rd :: "'s \<Rightarrow> 'p \<Rightarrow> bytes"
    and live :: "'s \<Rightarrow> 'p \<Rightarrow> bool"
    and room :: "'s \<Rightarrow> nat"
    and inv :: "'s \<Rightarrow> bool"
  assumes dup_new: "inv s \<Longrightarrow> dup s x = Inr (p, s') \<Longrightarrow>
      inv s' \<and> live s' p \<and> rd s' p = take lim (cstr x)"
    and dup_old: "inv s \<Longrightarrow> dup s x = Inr (p, s') \<Longrightarrow> live s q \<Longrightarrow>
      live s' q \<and> rd s' q = rd s q"
    and dup_room: "inv s \<Longrightarrow> min lim (length (cstr x)) + 1 < room s \<Longrightarrow>
      \<exists>p s'. dup s x = Inr (p, s') \<and> room s' = room s - (min lim (length (cstr x)) + 1)"
    and dup_no_room: "inv s \<Longrightarrow> room s \<le> min lim (length (cstr x)) + 1 \<Longrightarrow> dup s x = Inl AssertFail"
begin

lemma dups_old:
  "inv s \<Longrightarrow> run_dups dup s xs = Inr (ps, s') \<Longrightarrow> live s q \<Longrightarrow>
     inv s' \<and> live s' q \<and> rd s' q = rd s q"
proof (induction xs arbitrary: s ps)
  case (Cons x xs)
  then obtain p s1 qs where 1: "dup s x = Inr (p, s1)" "run_dups dup s1 xs = Inr (qs, s')"
    by (auto simp: run_simps)
  with Cons.prems dup_new [OF _ 1(1)] dup_old [OF _ 1(1)] Cons.IH [OF _ 1(2)] show ?case by auto
qed simp

lemma dups_inv: "inv s \<Longrightarrow> run_dups dup s xs = Inr (ps, s') \<Longrightarrow> inv s'"
proof (induction xs arbitrary: s ps)
  case (Cons x xs)
  then obtain p s1 qs where "dup s x = Inr (p, s1)" "run_dups dup s1 xs = Inr (qs, s')"
    by (auto simp: run_simps)
  with Cons dup_new show ?case by blast
qed simp

lemma dups_read:
  "inv s \<Longrightarrow> run_dups dup s xs = Inr (ps, s') \<Longrightarrow> map (rd s') ps = map (\<lambda>x. take lim (cstr x)) xs"
proof (induction xs arbitrary: s ps)
  case (Cons x xs)
  then obtain p s1 qs where 1: "dup s x = Inr (p, s1)" "run_dups dup s1 xs = Inr (qs, s')"
      "ps = p # qs"
    by (auto simp: run_simps)
  moreover have s1: "inv s1" "live s1 p" "rd s1 p = take lim (cstr x)"
    using dup_new 1(1) Cons.prems(1) by auto
  ultimately show ?case using Cons.IH [OF s1(1) 1(2)] dups_old [OF s1(1) 1(2) s1(2)] by simp
qed simp

lemma dups_room:
  "inv s \<Longrightarrow> sum_list (map (\<lambda>x. min lim (length (cstr x)) + 1) xs) < room s \<Longrightarrow>
     \<exists>ps s'. run_dups dup s xs = Inr (ps, s')"
proof (induction xs arbitrary: s)
  case (Cons x xs)
  then obtain p s1 where s1: "dup s x = Inr (p, s1)"
      "room s1 = room s - (min lim (length (cstr x)) + 1)"
    using dup_room [of s x] by auto
  moreover have "inv s1" using dup_new s1(1) Cons.prems(1) by blast
  moreover have "sum_list (map (\<lambda>x. min lim (length (cstr x)) + 1) xs) < room s1"
    using s1(2) Cons.prems(2) by simp
  ultimately show ?case using Cons.IH [of s1] by fastforce
qed simp

end

section \<open>A table that keeps the order of insertion\<close>

text \<open>
  The objects of json-c rely on a table from keys to values whose entries keep their order.
  \<open>room\<close> says that an insertion cannot fail for want of memory; without it, it may fail, and the
  table is as before.
\<close>

fun run_inserts :: "('s \<Rightarrow> 'k \<Rightarrow> 'v \<Rightarrow> (int \<times> 's) res) \<Rightarrow> 's \<Rightarrow> ('k \<times> 'v) list \<Rightarrow> (int list \<times> 's) res" where
  "run_inserts ins s [] = Inr ([], s)"
| "run_inserts ins s ((k, v) # es) =
     ebind (ins s k v) (\<lambda>(r, s'). ebind (run_inserts ins s' es) (\<lambda>(rs, s''). Inr (r # rs, s'')))"

locale ordered_table =
  fixes ins :: "'s \<Rightarrow> 'k \<Rightarrow> 'v \<Rightarrow> (int \<times> 's) res"
    and look :: "'s \<Rightarrow> 'k \<Rightarrow> 'v option res"
    and del :: "'s \<Rightarrow> 'k \<Rightarrow> (int \<times> 's \<times> 'e) res"
    and rep :: "'s \<Rightarrow> ('k \<times> 'v) list \<Rightarrow> bool"
    and room :: "'s \<Rightarrow> bool"
  assumes rep_distinct: "rep s es \<Longrightarrow> distinct (map fst es)"
    and ins_new: "rep s es \<Longrightarrow> k \<notin> fst ` set es \<Longrightarrow>
      (\<exists>s'. ins s k v = Inr (0, s') \<and> rep s' (es @ [(k, v)])) \<or> \<not> room s \<and> ins s k v = Inr (-1, s)"
    and look_rep: "rep s es \<Longrightarrow> look s k = Inr (map_of es k)"
    and del_present: "rep s es \<Longrightarrow> k \<in> fst ` set es \<Longrightarrow>
      \<exists>s' e. del s k = Inr (0, s', e) \<and> rep s' (filter (\<lambda>p. fst p \<noteq> k) es)"
    and del_none: "rep s es \<Longrightarrow> k \<notin> fst ` set es \<Longrightarrow> \<exists>e. del s k = Inr (-1, s, e)"
begin

lemma look_after_ins:
  assumes "rep s es" "k \<notin> fst ` set es" "room s"
  shows "\<exists>s'. ins s k v = Inr (0, s') \<and> look s' k = Inr (Some v) \<and> (\<forall>k'. k' \<noteq> k \<longrightarrow> look s' k' = look s k')"
proof -
  obtain s' where s': "ins s k v = Inr (0, s')" "rep s' (es @ [(k, v)])" using ins_new [OF assms(1,2), of v] assms(3) by blast
  have "map_of es k = None" using assms(2) by (simp add: map_of_eq_None_iff)
  then show ?thesis using s' look_rep [OF s'(2)] look_rep [OF assms(1)] by (auto simp: map_add_def split: option.splits)
qed

lemma look_after_del:
  assumes "rep s es"
  shows "\<exists>r s' e. del s k = Inr (r, s', e) \<and> look s' k = Inr None \<and> (\<forall>k'. k' \<noteq> k \<longrightarrow> look s' k' = look s k')"
proof (cases "k \<in> fst ` set es")
  case True
  then obtain s' e where s': "del s k = Inr (0, s', e)" "rep s' (filter (\<lambda>p. fst p \<noteq> k) es)"
    using del_present [OF assms] by blast
  have "map_of (filter (\<lambda>p. fst p \<noteq> k) es) k' = (if k' = k then None else map_of es k')" for k'
    by (induction es) auto
  then show ?thesis using s'(1) look_rep [OF s'(2)] look_rep [OF assms] by simp
next
  case False
  then have "map_of es k = None" by (simp add: map_of_eq_None_iff)
  then show ?thesis using del_none [OF assms False] look_rep [OF assms] by auto
qed

text \<open>A run of insertions of new keys: what was accepted is there, in order, and what was refused has left no trace.\<close>

lemma inserts_in_order:
  assumes "rep s es" and "distinct (map fst (es @ ns))"
  shows "\<exists>rs s'. run_inserts ins s ns = Inr (rs, s') \<and> length rs = length ns \<and> set rs \<subseteq> {0, -1} \<and>
     rep s' (es @ map snd (filter (\<lambda>(r, n). r = 0) (zip rs ns)))"
  using assms
proof (induction ns arbitrary: s es)
  case Nil
  then show ?case by simp
next
  case (Cons n ns)
  obtain k v where n: "n = (k, v)" by fastforce
  have "k \<notin> fst ` set es" using Cons.prems(2) n by auto
  then consider s1 where "ins s k v = Inr (0, s1)" "rep s1 (es @ [n])" | "ins s k v = Inr (-1, s)"
    using ins_new [OF Cons.prems(1), of k v] n by blast
  then show ?case
  proof cases
    case 1
    obtain rs s' where "run_inserts ins s1 ns = Inr (rs, s')" "length rs = length ns" "set rs \<subseteq> {0, -1}"
        "rep s' ((es @ [n]) @ map snd (filter (\<lambda>(r, n). r = 0) (zip rs ns)))"
      using Cons.IH [OF 1(2)] Cons.prems(2) by auto
    with 1(1) n show ?thesis by (intro exI [of _ "0 # rs"] exI [of _ s']) simp
  next
    case 2
    obtain rs s' where "run_inserts ins s ns = Inr (rs, s')" "length rs = length ns" "set rs \<subseteq> {0, -1}"
        "rep s' (es @ map snd (filter (\<lambda>(r, n). r = 0) (zip rs ns)))"
      using Cons.IH [OF Cons.prems(1)] Cons.prems(2) by auto
    with 2 n show ?thesis by (intro exI [of _ "(-1) # rs"] exI [of _ s']) simp
  qed
qed

end

end
