(* ===== verification/Linkhash_Rep.thy ===== *)
theory Linkhash_Rep
  imports Linkhash "HOL-Library.Multiset"
begin

text \<open>
  The hash table of \<open>Linkhash\<close> represents a list of pairs in the order of insertion: the invariant (a
  doubly linked list through the occupied slots, and no empty slot between the home of a key and its
  place), its preservation by insertion, growth and deletion, and the interpretation of the
  contract \<open>ordered_table\<close>.
\<close>

section \<open>The invariant\<close>

fun occupied :: "('k, 'v) lh_entry \<Rightarrow> bool" where
  "occupied e = (case lhe_k e of Key k \<Rightarrow> True | _ \<Rightarrow> False)"

declare occupied.simps [simp del]

definition entry_key :: "('k, 'v) lh_entry \<Rightarrow> 'k" where
  "entry_key e = (case lhe_k e of Key k \<Rightarrow> k | _ \<Rightarrow> undefined)"

definition pair_at :: "('k, 'v) slots \<Rightarrow> nat \<Rightarrow> 'k \<times> 'v option" where
  "pair_at tbl i = (entry_key (tbl ! i), lhe_v (tbl ! i))"

text \<open>
  A segment of the doubly linked list: it starts at \<open>p\<close>, where \<open>a\<close> is the entry before it, visits \<open>is\<close>, and ends
  with \<open>l\<close>, after which comes \<open>q\<close>.
\<close>

fun dseg :: "('k, 'v) slots \<Rightarrow> nat option \<Rightarrow> nat option \<Rightarrow> nat list \<Rightarrow> nat option \<Rightarrow> nat option \<Rightarrow> bool" where
  "dseg tbl a p [] l q \<longleftrightarrow> p = q \<and> l = a"
| "dseg tbl a p (i # is) l q \<longleftrightarrow>
     p = Some i \<and> i < length tbl \<and> lhe_prev (tbl ! i) = a \<and> dseg tbl (Some i) (lhe_next (tbl ! i)) is l q"

text \<open>Every entry can be reached from the place its hash names without meeting an empty slot.\<close>

definition home :: "('k \<Rightarrow> u64) \<Rightarrow> nat \<Rightarrow> 'k \<Rightarrow> nat" where
  "home hash_fn sz k = unat (hash_fn k) mod sz"

definition probed :: "('k \<Rightarrow> u64) \<Rightarrow> ('k, 'v) slots \<Rightarrow> nat \<Rightarrow> bool" where
  "probed hash_fn tbl i \<longleftrightarrow>
     (\<exists>d < length tbl. (home hash_fn (length tbl) (entry_key (tbl ! i)) + d) mod length tbl = i \<and>
        (\<forall>j < d. lhe_k (tbl ! ((home hash_fn (length tbl) (entry_key (tbl ! i)) + j) mod length tbl)) \<noteq> LH_EMPTY))"

definition lh_rep :: "('k, 'v) lh_table \<Rightarrow> nat list \<Rightarrow> bool" where
  "lh_rep t is \<longleftrightarrow>
     dseg (lt_table t) None (lt_head t) is (lt_tail t) None \<and> distinct is \<and>
     set is = {i. i < length (lt_table t) \<and> occupied (lt_table t ! i)} \<and>
     lt_count t = length is \<and> lt_size t = length (lt_table t) \<and> 0 < lt_size t \<and> lt_size t \<le> INT_MAX \<and>
     inj_on (\<lambda>i. entry_key (lt_table t ! i)) (set is) \<and>
     (\<forall>i \<in> set is. probed (lt_hash_fn t) (lt_table t) i)"

definition lh_pairs :: "('k, 'v) lh_table \<Rightarrow> ('k \<times> 'v option) list \<Rightarrow> bool" where
  "lh_pairs t es \<longleftrightarrow> (\<exists>is. lh_rep t is \<and> es = map (pair_at (lt_table t)) is)"

section \<open>Probing\<close>

lemma next_slot_mod: "n < sz \<Longrightarrow> next_slot sz n = Suc n mod sz"
  by (auto simp: next_slot_def mod_Suc)

lemma next_slot_less: "n < sz \<Longrightarrow> next_slot sz n < sz"
  by (auto simp: next_slot_def)

lemma next_slot_add: "n < sz \<Longrightarrow> (next_slot sz n + j) mod sz = (n + Suc j) mod sz"
  by (simp add: next_slot_mod mod_add_left_eq)

lemma slot_at_less [run_simps]: "i < length tbl \<Longrightarrow> slot_at tbl i = Inr (tbl ! i)"
  by (simp add: slot_at_def)

lemma key_not_free: "lhe_k e = LH_EMPTY \<or> lhe_k e = LH_FREED \<longleftrightarrow> \<not> occupied e"
  by (auto simp: occupied.simps split: lh_key.splits)

lemma find_slot_first:
  assumes "n < sz" "sz = length tbl" "d < f"
    and "\<forall>j < d. occupied (tbl ! ((n + j) mod sz))" and "\<not> occupied (tbl ! ((n + d) mod sz))"
  shows "find_slot f tbl sz n = Inr ((n + d) mod sz)"
  using assms
proof (induction d arbitrary: n f)
  case 0
  then show ?case by (cases f) (auto simp: slot_at_less key_not_free)
next
  case (Suc d)
  from Suc.prems(3) obtain g where f: "f = Suc g" by (cases f) auto
  have occ: "occupied (tbl ! n)" using Suc.prems(1,4) by (auto dest: spec [of _ 0])
  have rest: "\<forall>j < d. occupied (tbl ! ((next_slot sz n + j) mod sz))"
    using Suc.prems(1,4) by (auto simp: next_slot_add)
  have "find_slot g tbl sz (next_slot sz n) = Inr ((next_slot sz n + d) mod sz)"
    by (rule Suc.IH) (use Suc.prems f rest in \<open>auto simp: next_slot_less next_slot_add\<close>)
  with Suc.prems(1,2) occ show ?case by (simp add: f slot_at_less key_not_free next_slot_add)
qed

lemma cyclic_reach:
  assumes "i < sz" "n < sz"
  shows "\<exists>d < sz. (n + d) mod sz = (i::nat)"
proof (cases "n \<le> i")
  case True
  then show ?thesis using assms by (intro exI [of _ "i - n"]) auto
next
  case False
  then have "(n + (i + sz - n)) mod sz = i" using assms by simp
  then show ?thesis using assms False by (intro exI [of _ "i + sz - n"]) auto
qed

lemma find_slot_finds:
  assumes "n < sz" "sz = length tbl" "i < sz" "\<not> occupied (tbl ! i)"
  shows "\<exists>d < sz. find_slot sz tbl sz n = Inr ((n + d) mod sz) \<and> \<not> occupied (tbl ! ((n + d) mod sz)) \<and>
     (\<forall>j < d. occupied (tbl ! ((n + j) mod sz)))"
proof -
  let ?P = "\<lambda>d. \<not> occupied (tbl ! ((n + d) mod sz))"
  obtain d0 where d0: "d0 < sz" "?P d0" using cyclic_reach [OF assms(3,1)] assms(4) by auto
  define d where "d = (LEAST d. ?P d)"
  have d: "?P d" "d \<le> d0" unfolding d_def using LeastI [of ?P, OF d0(2)] Least_le [of ?P, OF d0(2)] by auto
  have before: "\<forall>j < d. occupied (tbl ! ((n + j) mod sz))"
    unfolding d_def using not_less_Least [of _ ?P] by blast
  with find_slot_first [OF assms(1,2) _ before d(1), of sz] d d0 show ?thesis
    by (intro exI [of _ d]) auto
qed

lemma lookup_loop_finds:
  assumes "n < sz" "sz = length tbl" "d < c"
    and "\<forall>j < d. lhe_k (tbl ! ((n + j) mod sz)) \<notin> {LH_EMPTY, Key k}" and "lhe_k (tbl ! ((n + d) mod sz)) = Key k"
  shows "lookup_loop c tbl sz k n = Inr (Some ((n + d) mod sz))"
  using assms
proof (induction d arbitrary: n c)
  case 0
  then show ?case by (cases c) (auto simp: slot_at_less)
next
  case (Suc d)
  from Suc.prems(3) obtain g where c: "c = Suc g" by (cases c) auto
  have skip: "lhe_k (tbl ! n) \<notin> {LH_EMPTY, Key k}" using Suc.prems(1,4) by (auto dest: spec [of _ 0])
  have "lookup_loop g tbl sz k (next_slot sz n) = Inr (Some ((next_slot sz n + d) mod sz))"
    by (rule Suc.IH) (use Suc.prems c in \<open>auto simp: next_slot_less next_slot_add\<close>)
  with Suc.prems(1,2) skip show ?case by (auto simp: c slot_at_less next_slot_add)
qed

lemma lookup_loop_absent:
  assumes "n < sz" "sz = length tbl" "\<forall>i < sz. lhe_k (tbl ! i) \<noteq> Key k"
  shows "lookup_loop c tbl sz k n = Inr None"
  using assms by (induction c arbitrary: n) (auto simp: slot_at_less next_slot_less)

section \<open>The list\<close>

lemma dseg_append:
  "dseg tbl a p (xs @ ys) l q \<longleftrightarrow> (\<exists>m r. dseg tbl a p xs m r \<and> dseg tbl m r ys l q)"
  by (induction xs arbitrary: a p) auto

lemma dseg_frame:
  assumes "length tbl' = length tbl"
    and "\<forall>i \<in> set is. lhe_prev (tbl' ! i) = lhe_prev (tbl ! i) \<and> lhe_next (tbl' ! i) = lhe_next (tbl ! i)"
  shows "dseg tbl' a p is l q = dseg tbl a p is l q"
  using assms by (induction "is" arbitrary: a p) auto

lemma dseg_upd_other: "x \<notin> set is \<Longrightarrow> dseg (tbl[x := e]) a p is l q = dseg tbl a p is l q"
  by (rule dseg_frame) (simp, metis nth_list_update_neq)

lemma dseg_start: "dseg tbl a p is l q \<Longrightarrow> p = (case is of [] \<Rightarrow> q | i # _ \<Rightarrow> Some i)"
  by (cases "is") auto

lemma dseg_last: "dseg tbl a p is l q \<Longrightarrow> l = (if is = [] then a else Some (last is))"
  by (induction "is" arbitrary: a p) auto

lemma dseg_bound: "dseg tbl a p is l q \<Longrightarrow> i \<in> set is \<Longrightarrow> i < length tbl"
  by (induction "is" arbitrary: a p) auto

lemma dseg_set_next:
  assumes "dseg tbl a p (xs @ [x]) l q" "distinct (xs @ [x])"
  shows "dseg (tbl[x := (tbl ! x)\<lparr> lhe_next := q' \<rparr>]) a p (xs @ [x]) l q'"
proof -
  let ?t = "tbl[x := (tbl ! x)\<lparr> lhe_next := q' \<rparr>]"
  obtain m r where seg: "dseg tbl a p xs m r" "dseg tbl m r [x] l q"
    using assms(1) by (auto simp: dseg_append simp del: dseg.simps)
  have "dseg ?t a p xs m r"
    using seg(1) assms(2) by (simp add: dseg_upd_other)
  moreover have "dseg ?t m r [x] l q'" using seg(2) by auto
  ultimately show ?thesis by (auto simp: dseg_append simp del: dseg.simps)
qed

lemma dseg_set_prev:
  assumes "dseg tbl a p (x # xs) l q" "distinct (x # xs)"
  shows "dseg (tbl[x := (tbl ! x)\<lparr> lhe_prev := a' \<rparr>]) a' p (x # xs) l q"
proof -
  let ?t = "tbl[x := (tbl ! x)\<lparr> lhe_prev := a' \<rparr>]"
  have "dseg ?t (Some x) (lhe_next (tbl ! x)) xs l q"
    using assms by (simp add: dseg_upd_other)
  then show ?thesis using assms(1) by auto
qed

section \<open>Lookup\<close>

lemma cyclic_le: "j \<le> d \<Longrightarrow> d < sz \<Longrightarrow> (n + j) mod sz = (n + d) mod sz \<Longrightarrow> j = (d::nat)"
  using mod_eq_dvd_iff_nat [of "n + j" "n + d" sz] by (auto dest: dvd_imp_le)

lemma cyclic_inj: "j < sz \<Longrightarrow> d < sz \<Longrightarrow> (n + j) mod sz = (n + d) mod sz \<Longrightarrow> j = (d::nat)"
  using cyclic_le [of j d sz n] cyclic_le [of d j sz n] by linarith

lemma rep_key: "lh_rep t is \<Longrightarrow> i \<in> set is \<Longrightarrow> lhe_k (lt_table t ! i) = Key (entry_key (lt_table t ! i))"
  by (auto simp: lh_rep_def entry_key_def occupied.simps split: lh_key.splits)

lemma home_less: "0 < sz \<Longrightarrow> home h sz k < sz"
  by (simp add: home_def)

lemma lookup_present:
  assumes rep: "lh_rep t is" and i: "i \<in> set is" "entry_key (lt_table t ! i) = k"
  shows "lh_table_lookup_entry t k = Inr (Some i)"
proof -
  let ?tbl = "lt_table t" and ?sz = "lt_size t"
  let ?n = "home (lt_hash_fn t) ?sz k"
  have len: "?sz = length ?tbl" "0 < ?sz" using rep by (auto simp: lh_rep_def)
  have "probed (lt_hash_fn t) ?tbl i" using rep i by (auto simp: lh_rep_def)
  then obtain d where d: "d < ?sz" "(?n + d) mod ?sz = i" "\<forall>j<d. lhe_k (?tbl ! ((?n + j) mod ?sz)) \<noteq> LH_EMPTY"
    using i(2) len(1) by (auto simp: probed_def)
  have "lhe_k (?tbl ! ((?n + j) mod ?sz)) \<noteq> Key k" if j: "j < d" for j
  proof
    let ?m = "(?n + j) mod ?sz"
    assume k: "lhe_k (?tbl ! ?m) = Key k"
    then have m: "?m \<in> set is" using rep len by (auto simp: lh_rep_def occupied.simps)
    have "?m = i" using rep m i k by (auto simp: lh_rep_def entry_key_def inj_on_def)
    with d j show False using cyclic_inj [of j ?sz d ?n] by simp
  qed
  moreover have "lhe_k (?tbl ! ((?n + d) mod ?sz)) = Key k" using rep_key [OF rep i(1)] i(2) d(2) by simp
  ultimately have "lookup_loop ?sz ?tbl ?sz k ?n = Inr (Some ((?n + d) mod ?sz))"
    using lookup_loop_finds [of ?n ?sz ?tbl d ?sz k] len d(1,3) by (simp add: home_less)
  then show ?thesis
    by (simp add: lh_table_lookup_entry_def lh_table_lookup_entry_w_hash_def lh_get_hash_def home_def d(2) [unfolded home_def])
qed

lemma lookup_absent:
  assumes rep: "lh_rep t is" and k: "\<forall>i \<in> set is. entry_key (lt_table t ! i) \<noteq> k"
  shows "lh_table_lookup_entry t k = Inr None"
proof -
  have "lhe_k (lt_table t ! i) \<noteq> Key k" if "i < lt_size t" for i
    using rep k that by (auto simp: lh_rep_def occupied.simps entry_key_def)
  then show ?thesis using rep
    by (auto simp: lh_table_lookup_entry_def lh_table_lookup_entry_w_hash_def lh_rep_def intro!: lookup_loop_absent)
qed

lemma pairs_key: "k \<in> fst ` set (map (pair_at tbl) is) \<longleftrightarrow> (\<exists>i \<in> set is. entry_key (tbl ! i) = k)"
  by (force simp: pair_at_def)

lemma map_of_pairs:
  "inj_on (\<lambda>i. entry_key (tbl ! i)) (set is) \<Longrightarrow> i \<in> set is \<Longrightarrow>
     map_of (map (pair_at tbl) is) (entry_key (tbl ! i)) = Some (lhe_v (tbl ! i))"
  by (induction "is") (auto simp: pair_at_def inj_on_def)

lemma rep_inj: "lh_rep t is \<Longrightarrow> inj_on (\<lambda>i. entry_key (lt_table t ! i)) (set is)"
  unfolding lh_rep_def by blast

lemma lookup_ex_pairs:
  assumes "lh_pairs t es"
  shows "lh_table_lookup_ex t k = Inr (map_of es k)"
proof -
  obtain "is" where rep: "lh_rep t is" and es: "es = map (pair_at (lt_table t)) is"
    using assms by (auto simp: lh_pairs_def)
  show ?thesis
  proof (cases "k \<in> fst ` set es")
    case True
    then obtain i where i: "i \<in> set is" "entry_key (lt_table t ! i) = k" unfolding es pairs_key by blast
    moreover have "map_of es k = Some (lhe_v (lt_table t ! i))"
      using map_of_pairs [OF rep_inj [OF rep] i(1)] i es by simp
    ultimately show ?thesis using lookup_present [OF rep i] rep
      by (simp add: lh_table_lookup_ex_def slot_at_def lh_rep_def)
  next
    case False
    then have "map_of es k = None" by (simp add: map_of_eq_None_iff)
    moreover have "lh_table_lookup_entry t k = Inr None"
      using False unfolding es pairs_key by (intro lookup_absent [OF rep]) blast
    ultimately show ?thesis by (simp add: lh_table_lookup_ex_def)
  qed
qed

section \<open>Insertion\<close>

definition same_data :: "('k, 'v) lh_entry \<Rightarrow> ('k, 'v) lh_entry \<Rightarrow> bool" where
  "same_data e e' \<longleftrightarrow> lhe_k e = lhe_k e' \<and> lhe_v e = lhe_v e'"

lemma same_data_simps:
  "same_data e e' \<Longrightarrow> entry_key e = entry_key e' \<and> occupied e = occupied e' \<and> lhe_k e = lhe_k e' \<and> lhe_v e = lhe_v e'"
  by (simp add: same_data_def entry_key_def occupied.simps)

lemma probed_mono:
  assumes "probed h tbl i" and "length tbl' = length tbl" and "entry_key (tbl' ! i) = entry_key (tbl ! i)"
    and "\<forall>j < length tbl. lhe_k (tbl ! j) \<noteq> LH_EMPTY \<longrightarrow> lhe_k (tbl' ! j) \<noteq> LH_EMPTY"
  shows "probed h tbl' i"
  using assms unfolding probed_def by (metis bot_nat_0.not_eq_extremum mod_less_divisor not_less_zero)

lemma pairs_same:
  "\<forall>i \<in> set is. same_data (tbl' ! i) (tbl ! i) \<Longrightarrow> map (pair_at tbl') is = map (pair_at tbl) is"
  by (auto simp: pair_at_def dest: same_data_simps)

lemma rep_extend:
  assumes rep: "lh_rep t is" and n: "n < length (lt_table t)" "\<not> occupied (lt_table t ! n)"
    and t': "length (lt_table t') = length (lt_table t)" "lt_size t' = lt_size t" "lt_count t' = lt_count t + 1"
      "lt_hash_fn t' = lt_hash_fn t"
    and same: "\<forall>i < length (lt_table t). i \<noteq> n \<longrightarrow> same_data (lt_table t' ! i) (lt_table t ! i)"
    and new: "lhe_k (lt_table t' ! n) = Key k" "lhe_v (lt_table t' ! n) = v"
    and seg: "dseg (lt_table t') None (lt_head t') (is @ [n]) (lt_tail t') None"
    and k: "\<forall>i \<in> set is. entry_key (lt_table t ! i) \<noteq> k" and pr: "probed (lt_hash_fn t) (lt_table t') n"
  shows "lh_rep t' (is @ [n]) \<and> map (pair_at (lt_table t')) (is @ [n]) = map (pair_at (lt_table t)) is @ [(k, v)]"
proof -
  let ?tbl = "lt_table t" and ?tbl' = "lt_table t'"
  have old: "i < length ?tbl \<and> i \<noteq> n \<and> same_data (?tbl' ! i) (?tbl ! i)" if "i \<in> set is" for i
    using that rep n same by (auto simp: lh_rep_def)
  have keyn: "entry_key (?tbl' ! n) = k" "occupied (?tbl' ! n)" using new(1) by (auto simp: entry_key_def occupied.simps)
  have occ: "set (is @ [n]) = {i. i < length ?tbl' \<and> occupied (?tbl' ! i)}"
    using rep n t'(1) keyn same same_data_simps by (auto simp: lh_rep_def)
  have inj: "inj_on (\<lambda>i. entry_key (?tbl' ! i)) (set (is @ [n]))"
    using rep k keyn same_data_simps [OF conjunct2 [OF conjunct2 [OF old]]] by (auto simp: lh_rep_def inj_on_def)
  have "probed (lt_hash_fn t') ?tbl' i" if "i \<in> set (is @ [n])" for i
  proof (cases "i = n")
    case True then show ?thesis using pr t'(4) by simp
  next
    case False
    then have i: "i \<in> set is" using that by simp
    show ?thesis unfolding t'(4)
    proof (rule probed_mono [OF _ t'(1)])
      show "probed (lt_hash_fn t) ?tbl i" using rep i by (simp add: lh_rep_def)
      show "entry_key (?tbl' ! i) = entry_key (?tbl ! i)" using old [OF i] same_data_simps by blast
      show "\<forall>j<length ?tbl. lhe_k (?tbl ! j) \<noteq> LH_EMPTY \<longrightarrow> lhe_k (?tbl' ! j) \<noteq> LH_EMPTY"
        using same new(1) same_data_simps by (metis lh_key.distinct(3))
    qed
  qed
  moreover have "map (pair_at ?tbl') is = map (pair_at ?tbl) is" using old by (intro pairs_same) blast
  ultimately show ?thesis using rep seg occ inj t' new keyn n
    by (auto simp: lh_rep_def pair_at_def)
qed

lemma rep_bound: "lh_rep t is \<Longrightarrow> i \<in> set is \<Longrightarrow> i < length (lt_table t)"
  unfolding lh_rep_def by blast

lemma rep_head: "lh_rep t is \<Longrightarrow> lt_head t = (case is of [] \<Rightarrow> None | i # _ \<Rightarrow> Some i)"
  unfolding lh_rep_def by (metis dseg_start)

lemma rep_tail: "lh_rep t is \<Longrightarrow> lt_tail t = (if is = [] then None else Some (last is))"
  unfolding lh_rep_def by (metis dseg_last)

definition filled_entry :: "'k \<Rightarrow> 'v option \<Rightarrow> bool \<Rightarrow> nat option \<Rightarrow> ('k, 'v) lh_entry" where
  "filled_entry k v const p = \<lparr> lhe_k = Key k, lhe_k_is_constant = const, lhe_v = v, lhe_next = None, lhe_prev = p \<rparr>"

lemma fill_slot_empty:
  assumes "lt_head t = None" and "n < length (lt_table t)"
  shows "fill_slot t n k v const = Inr (t\<lparr> lt_count := lt_count t + 1,
     lt_table := (lt_table t)[n := filled_entry k v const None], lt_head := Some n, lt_tail := Some n \<rparr>)"
  using assms
  by (cases "lt_table t ! n") (simp add: fill_slot_def set_next_def set_prev_def slot_at_def filled_entry_def Let_def)

lemma fill_slot_append:
  assumes "lt_head t = Some h" "lt_tail t = Some l" and "n < length (lt_table t)" "l < length (lt_table t)" "n \<noteq> l"
  shows "fill_slot t n k v const = Inr (t\<lparr> lt_count := lt_count t + 1,
     lt_table := (lt_table t)[l := (lt_table t ! l)\<lparr> lhe_next := Some n \<rparr>, n := filled_entry k v const (Some l)],
     lt_tail := Some n \<rparr>)"
  using assms
  by (cases "lt_table t ! n")
    (simp add: fill_slot_def set_next_def set_prev_def slot_at_def filled_entry_def Let_def list_update_swap)

lemma fill_slot_rep:
  assumes rep: "lh_rep t is" and n: "n < length (lt_table t)" "\<not> occupied (lt_table t ! n)"
    and k: "\<forall>i \<in> set is. entry_key (lt_table t ! i) \<noteq> k"
    and d: "d < lt_size t" "(home (lt_hash_fn t) (lt_size t) k + d) mod lt_size t = n"
      "\<forall>j < d. occupied (lt_table t ! ((home (lt_hash_fn t) (lt_size t) k + j) mod lt_size t))"
  shows "\<exists>t'. fill_slot t n k v const = Inr t' \<and> lh_rep t' (is @ [n]) \<and>
     map (pair_at (lt_table t')) (is @ [n]) = map (pair_at (lt_table t)) is @ [(k, v)] \<and>
     lt_size t' = lt_size t \<and> lt_hash_fn t' = lt_hash_fn t \<and> lt_free_fn t' = lt_free_fn t"
proof -
  let ?tbl = "lt_table t"
  have len: "lt_size t = length ?tbl" "0 < lt_size t" using rep by (auto simp: lh_rep_def)
  have seg: "dseg ?tbl None (lt_head t) is (lt_tail t) None" and dist: "distinct is" using rep by (auto simp: lh_rep_def)
  have fresh: "n \<notin> set is" using rep n unfolding lh_rep_def by blast
  obtain t' where t': "fill_slot t n k v const = Inr t'" "length (lt_table t') = length ?tbl" "lt_size t' = lt_size t"
      "lt_count t' = lt_count t + 1" "lt_hash_fn t' = lt_hash_fn t" "lt_free_fn t' = lt_free_fn t"
    and same: "\<forall>i < length ?tbl. i \<noteq> n \<longrightarrow> same_data (lt_table t' ! i) (?tbl ! i)"
    and new: "lhe_k (lt_table t' ! n) = Key k" "lhe_v (lt_table t' ! n) = v"
    and seg': "dseg (lt_table t') None (lt_head t') (is @ [n]) (lt_tail t') None"
  proof (cases "is" rule: rev_cases)
    case Nil
    then have "lt_head t = None" using rep_head [OF rep] by simp
    from fill_slot_empty [OF this n(1)] show thesis
      by (rule that) (use n(1) Nil in \<open>auto simp: same_data_def nth_list_update filled_entry_def\<close>)
  next
    case (snoc xs l)
    have l: "lt_tail t = Some l" "l < length ?tbl" "n \<noteq> l"
      using rep_tail [OF rep] rep_bound [OF rep, of l] fresh snoc by auto
    obtain h where h: "lt_head t = Some h" using rep_head [OF rep] snoc by (cases xs) auto
    let ?e = "filled_entry k v const (Some l)"
    have "dseg (?tbl[l := (?tbl ! l)\<lparr> lhe_next := Some n \<rparr>]) None (lt_head t) is (Some l) (Some n)"
      using dseg_set_next [of ?tbl None "lt_head t" xs l "lt_tail t" None "Some n"] seg dist snoc l(1) by simp
    then have "dseg (?tbl[l := (?tbl ! l)\<lparr> lhe_next := Some n \<rparr>, n := ?e]) None (lt_head t) is (Some l) (Some n)"
      using fresh by (simp add: dseg_upd_other)
    then have "dseg (?tbl[l := (?tbl ! l)\<lparr> lhe_next := Some n \<rparr>, n := ?e]) None (lt_head t) (is @ [n]) (Some n) None"
      using n(1) by (auto simp: dseg_append filled_entry_def)
    then show thesis
      by (intro that [OF fill_slot_append [OF h l(1) n(1) l(2,3)]]) (use n(1) l in \<open>auto simp: same_data_def nth_list_update filled_entry_def\<close>)
  qed
  have key: "entry_key (lt_table t' ! n) = k" using new(1) by (simp add: entry_key_def)
  have "lhe_k (lt_table t' ! ((home (lt_hash_fn t) (lt_size t) k + j) mod lt_size t)) \<noteq> LH_EMPTY" if "j < d" for j
  proof -
    let ?m = "(home (lt_hash_fn t) (lt_size t) k + j) mod lt_size t"
    have "occupied (?tbl ! ?m)" "?m < length ?tbl" using d(3) that len by auto
    moreover have "?m \<noteq> n" using calculation(1) n(2) by auto
    ultimately have "lhe_k (lt_table t' ! ?m) = lhe_k (?tbl ! ?m)" "occupied (?tbl ! ?m)" using same by (auto simp: same_data_def)
    then show ?thesis by (auto simp: occupied.simps)
  qed
  then have "probed (lt_hash_fn t) (lt_table t') n" using d(1,2) key t'(2) len unfolding probed_def by metis
  from rep_extend [OF rep n t'(2-5) same new seg' k this] t' show ?thesis by blast
qed

lemma rep_count: "lh_rep t is \<Longrightarrow> lt_count t \<le> lt_size t"
proof -
  assume rep: "lh_rep t is"
  have "set is \<subseteq> {..<lt_size t}" using rep by (auto simp: lh_rep_def)
  moreover have "lt_count t = card (set is)" using rep distinct_card unfolding lh_rep_def by metis
  ultimately show ?thesis using card_mono [of "{..<lt_size t}" "set is"] by simp
qed

lemma rep_free_slot:
  assumes "lh_rep t is" and "lt_count t < lt_size t"
  shows "\<exists>i < lt_size t. \<not> occupied (lt_table t ! i)"
proof (rule ccontr)
  assume "\<not> ?thesis"
  then have "set is = {..<lt_size t}" using assms(1) by (auto simp: lh_rep_def)
  then show False using assms by (metis card_lessThan distinct_card lh_rep_def less_irrefl)
qed

text \<open>What the end of an insertion does to a table that has a free slot.\<close>

lemma place_rep:
  assumes rep: "lh_rep t is" and room: "lt_count t < lt_size t"
    and k: "\<forall>i \<in> set is. entry_key (lt_table t ! i) \<noteq> k"
  shows "\<exists>t' n. ebind (find_slot (lt_size t) (lt_table t) (lt_size t) (unat (lt_hash_fn t k) mod lt_size t)) (\<lambda>n.
       ebind (fill_slot t n k v const) (\<lambda>t. Inr (0::int, t))) = Inr (0, t') \<and> lh_rep t' (is @ [n]) \<and>
     map (pair_at (lt_table t')) (is @ [n]) = map (pair_at (lt_table t)) is @ [(k, v)] \<and>
     lt_size t' = lt_size t \<and> lt_hash_fn t' = lt_hash_fn t \<and> lt_free_fn t' = lt_free_fn t"
proof -
  define n0 where "n0 = home (lt_hash_fn t) (lt_size t) k"
  let ?n = n0
  have len: "lt_size t = length (lt_table t)" "0 < lt_size t" using rep by (auto simp: lh_rep_def)
  have n0: "n0 < lt_size t" using len by (simp add: n0_def home_less)
  obtain i where "i < lt_size t" "\<not> occupied (lt_table t ! i)" using rep_free_slot [OF rep room] by blast
  from find_slot_finds [OF n0 len(1) this]
  obtain d where d: "d < lt_size t" "find_slot (lt_size t) (lt_table t) (lt_size t) ?n = Inr ((?n + d) mod lt_size t)"
      "\<not> occupied (lt_table t ! ((?n + d) mod lt_size t))" "\<forall>j < d. occupied (lt_table t ! ((?n + j) mod lt_size t))"
    by blast
  have start: "(home (lt_hash_fn t) (lt_size t) k + d) mod lt_size t = (n0 + d) mod lt_size t" by (simp add: n0_def)
  have "(?n + d) mod lt_size t < length (lt_table t)" using len by simp
  from fill_slot_rep [OF rep this d(3) k d(1) start d(4) [unfolded n0_def], of v const]
  obtain t' where "fill_slot t ((?n + d) mod lt_size t) k v const = Inr t'" "lh_rep t' (is @ [(?n + d) mod lt_size t])"
      "map (pair_at (lt_table t')) (is @ [(?n + d) mod lt_size t]) = map (pair_at (lt_table t)) is @ [(k, v)]"
      "lt_size t' = lt_size t" "lt_hash_fn t' = lt_hash_fn t" "lt_free_fn t' = lt_free_fn t"
    by blast
  moreover have "unat (lt_hash_fn t k) mod lt_size t = n0" by (simp add: n0_def home_def)
  ultimately show ?thesis using d(2) by (intro exI [of _ t'] exI [of _ "(?n + d) mod lt_size t"]) simp
qed

lemma insert_small:
  assumes rep: "lh_rep t is" and load: "100 * lt_count t < 66 * lt_size t"
    and k: "\<forall>i \<in> set is. entry_key (lt_table t ! i) \<noteq> k"
  shows "\<exists>t' n. lh_table_insert_w_hash (Suc d) alloc t k v (lt_hash_fn t k) const = Inr (0, t') \<and> lh_rep t' (is @ [n]) \<and>
     map (pair_at (lt_table t')) (is @ [n]) = map (pair_at (lt_table t)) is @ [(k, v)] \<and>
     lt_size t' = lt_size t \<and> lt_hash_fn t' = lt_hash_fn t \<and> lt_free_fn t' = lt_free_fn t"
proof -
  have "lt_count t < lt_size t" using load by simp
  from place_rep [OF rep this k, of v const] load show ?thesis by simp
qed

lemma insert_max:
  "66 * lt_size t \<le> 100 * lt_count t \<Longrightarrow> lt_size t = INT_MAX \<Longrightarrow>
     lh_table_insert_w_hash (Suc d) alloc t k v h const = Inr (-1, t)"
  by simp

section \<open>Growth\<close>

lemma pairs_unique: "lh_rep t is \<Longrightarrow> lh_pairs t xs \<Longrightarrow> xs = map (pair_at (lt_table t)) is"
proof -
  have "dseg tbl a p is l None \<Longrightarrow> dseg tbl a p js l' None \<Longrightarrow> is = js" for tbl a p l l' and "is" js :: "nat list"
    by (induction "is" arbitrary: a p js; case_tac js) auto
  then show "lh_rep t is \<Longrightarrow> lh_pairs t xs \<Longrightarrow> xs = map (pair_at (lt_table t)) is"
    unfolding lh_pairs_def lh_rep_def by metis
qed

lemma pairs_count: "lh_pairs t es \<Longrightarrow> lt_count t = length es"
  by (auto simp: lh_pairs_def lh_rep_def)

lemma pairs_fresh: "lh_pairs t es \<Longrightarrow> k \<notin> fst ` set es \<Longrightarrow>
    \<exists>is. lh_rep t is \<and> es = map (pair_at (lt_table t)) is \<and> (\<forall>i \<in> set is. entry_key (lt_table t ! i) \<noteq> k)"
  unfolding lh_pairs_def using pairs_key by metis

lemma insert_small_pairs:
  assumes "lh_pairs t es" "100 * lt_count t < 66 * lt_size t" "k \<notin> fst ` set es"
  shows "\<exists>t'. lh_table_insert_w_hash (Suc d) alloc t k v (lt_hash_fn t k) const = Inr (0, t') \<and> lh_pairs t' (es @ [(k, v)]) \<and>
     lt_size t' = lt_size t \<and> lt_hash_fn t' = lt_hash_fn t"
proof -
  obtain "is" where r: "lh_rep t is" "es = map (pair_at (lt_table t)) is" "\<forall>i \<in> set is. entry_key (lt_table t ! i) \<noteq> k"
    using pairs_fresh [OF assms(1,3)] by blast
  from insert_small [OF r(1) assms(2) r(3), of d alloc v const] show ?thesis
    unfolding lh_pairs_def r(2) by (elim exE conjE) (intro exI conjI; assumption?; simp)
qed

text \<open>
  Rehashing the rest \<open>js\<close> of the list of \<open>tbl\<close> into a table that has the size for it: it can only
  fail when the table has the greatest possible size.
\<close>

lemma reinsert_rest:
  assumes "dseg tbl a p js l None" "length js < f" "\<forall>i \<in> set js. occupied (tbl ! i)" "distinct js"
    and "inj_on (\<lambda>i. entry_key (tbl ! i)) (set js)" "lh_pairs t es" "lt_hash_fn t = h"
    and "\<forall>i \<in> set js. entry_key (tbl ! i) \<notin> fst ` set es"
    and "lt_size t = INT_MAX \<or> 100 * (length es + length js) < 66 * lt_size t + 100"
  shows "(\<exists>t'. reinsert (lh_table_insert_w_hash (Suc d) alloc) f tbl p t = Inr (0, t') \<and>
       lh_pairs t' (es @ map (pair_at tbl) js) \<and> lt_size t' = lt_size t \<and> lt_hash_fn t' = h) \<or>
     lt_size t = INT_MAX \<and> (\<exists>t'. reinsert (lh_table_insert_w_hash (Suc d) alloc) f tbl p t = Inr (-1, t'))"
  using assms
proof (induction js arbitrary: a p f t es)
  case Nil
  then show ?case by auto
next
  case (Cons i js)
  let ?k = "entry_key (tbl ! i)"
  from Cons.prems(2) obtain g where f: "f = Suc g" by (cases f) auto
  have i: "p = Some i" "i < length tbl" "dseg tbl (Some i) (lhe_next (tbl ! i)) js l None" using Cons.prems(1) by auto
  have k: "lhe_k (tbl ! i) = Key ?k"
    using Cons.prems(3) by (auto simp: occupied.simps entry_key_def split: lh_key.splits)
  have step: "reinsert ins f tbl p t =
      ebind (ins t ?k (lhe_v (tbl ! i)) (h ?k) (lhe_k_is_constant (tbl ! i))) (\<lambda>(ret, t).
      if ret \<noteq> 0 then Inr (-1, t) else reinsert ins g tbl (lhe_next (tbl ! i)) t)" for ins
    using i(2) k Cons.prems(7) by (simp add: f i(1) slot_at_def lh_get_hash_def)
  show ?case
  proof (cases "100 * lt_count t < 66 * lt_size t")
    case True
    have "?k \<notin> fst ` set es" using Cons.prems(8) by simp
    from insert_small_pairs [OF Cons.prems(6) True this, of d alloc "lhe_v (tbl ! i)" "lhe_k_is_constant (tbl ! i)"]
    obtain t' where t': "lh_table_insert_w_hash (Suc d) alloc t ?k (lhe_v (tbl ! i)) (h ?k) (lhe_k_is_constant (tbl ! i)) = Inr (0, t')"
        "lh_pairs t' (es @ [pair_at tbl i])" "lt_size t' = lt_size t" "lt_hash_fn t' = h"
      unfolding Cons.prems(7) pair_at_def by blast
    have keys: "\<forall>j \<in> set js. entry_key (tbl ! j) \<notin> fst ` set (es @ [pair_at tbl i])"
      using Cons.prems(4,5,8) by (auto simp: pair_at_def inj_on_def)
    have "(\<exists>t''. reinsert (lh_table_insert_w_hash (Suc d) alloc) g tbl (lhe_next (tbl ! i)) t' = Inr (0, t'') \<and>
          lh_pairs t'' ((es @ [pair_at tbl i]) @ map (pair_at tbl) js) \<and> lt_size t'' = lt_size t' \<and> lt_hash_fn t'' = h) \<or>
        lt_size t' = INT_MAX \<and> (\<exists>t''. reinsert (lh_table_insert_w_hash (Suc d) alloc) g tbl (lhe_next (tbl ! i)) t' = Inr (-1, t''))"
      by (rule Cons.IH [OF i(3) _ _ _ _ t'(2,4) keys]) (use Cons.prems f t'(3) in \<open>auto simp: inj_on_def\<close>)
    then show ?thesis unfolding step t'(3) by (simp add: t'(1) del: lh_table_insert_w_hash.simps)
  next
    case False
    then have sz: "lt_size t = INT_MAX" using Cons.prems(9) pairs_count [OF Cons.prems(6)] by auto
    have "lh_table_insert_w_hash (Suc d) alloc t ?k (lhe_v (tbl ! i)) (h ?k) (lhe_k_is_constant (tbl ! i)) = Inr (-1, t)"
      using False by (intro insert_max [OF _ sz]) simp
    then show ?thesis unfolding step using sz by (simp del: lh_table_insert_w_hash.simps)
  qed
qed

lemma new_pairs: "0 < sz \<Longrightarrow> sz \<le> INT_MAX \<Longrightarrow> alloc sz \<Longrightarrow>
    \<exists>t. lh_table_new alloc sz fr h = Inr (Some t) \<and> lh_pairs t [] \<and> lt_size t = sz \<and> lt_hash_fn t = h \<and> lt_free_fn t = fr"
  by (auto simp: lh_table_new_def lh_pairs_def lh_rep_def empty_entry_def occupied.simps)

lemma resize_pairs:
  fixes t :: "('a, 'b) lh_table"
  assumes pairs: "lh_pairs t es" and ns: "ns = INT_MAX \<or> ns = lt_size t * 2 \<and> ns \<le> INT_MAX"
  shows "(\<exists>t'. resize_with (lh_table_insert_w_hash (Suc d) alloc) alloc t ns = Inr (0, t') \<and> lh_pairs t' es \<and>
       lt_size t' = ns \<and> lt_hash_fn t' = lt_hash_fn t \<and> lt_free_fn t' = lt_free_fn t) \<or>
     (\<not> alloc ns \<or> ns = INT_MAX) \<and> resize_with (lh_table_insert_w_hash (Suc d) alloc) alloc t ns = Inr (-1, t)"
proof (cases "alloc ns")
  case False
  have "0 < ns" using pairs ns by (auto simp: lh_pairs_def lh_rep_def)
  then show ?thesis using False by (simp add: resize_with_def lh_table_new_def)
next
  case True
  let ?ins = "lh_table_insert_w_hash (Suc d) alloc"
  obtain "is" where rep: "lh_rep t is" and es: "es = map (pair_at (lt_table t)) is" using pairs by (auto simp: lh_pairs_def)
  have seg: "dseg (lt_table t) None (lt_head t) is (lt_tail t) None" "distinct is" "\<forall>i \<in> set is. occupied (lt_table t ! i)"
    using rep by (auto simp: lh_rep_def)
  have cnt: "lt_count t = length is" "lt_size t = length (lt_table t)" "0 < lt_size t" using rep by (auto simp: lh_rep_def)
  have bound: "length is < Suc (length (lt_table t))" using rep_count [OF rep] cnt by simp
  have "0 < ns" "ns \<le> INT_MAX" using ns cnt(3) by auto
  from new_pairs [where alloc = alloc, OF this True] obtain new :: "('a, 'b) lh_table" where
    new: "lh_table_new alloc ns False (lt_hash_fn t) = Inr (Some new)" "lh_pairs new []" "lt_size new = ns" "lt_hash_fn new = lt_hash_fn t"
    by blast
  have load: "lt_size new = INT_MAX \<or> 100 * (length [] + length is) < 66 * lt_size new + 100"
    using ns new(3) bound cnt by auto
  consider t' where "reinsert ?ins (Suc (length (lt_table t))) (lt_table t) (lt_head t) new = Inr (0, t')" "lh_pairs t' es"
      "lt_size t' = ns" "lt_hash_fn t' = lt_hash_fn t"
    | t' where "ns = INT_MAX" "reinsert ?ins (Suc (length (lt_table t))) (lt_table t) (lt_head t) new = Inr (-1, t')"
    using reinsert_rest [OF seg(1) bound seg(3,2) rep_inj [OF rep] new(2,4) _ load, of d alloc] new(3) es by auto
  then show ?thesis
  proof cases
    case 1
    let ?t = "t\<lparr> lt_table := lt_table t', lt_size := ns, lt_head := lt_head t', lt_tail := lt_tail t' \<rparr>"
    have "lt_count t = lt_count t'" using pairs_count [OF pairs] pairs_count [OF 1(2)] by simp
    then have "lh_pairs ?t es" using 1(2-4) by (simp add: lh_pairs_def lh_rep_def pair_at_def)
    moreover have "resize_with ?ins alloc t ns = Inr (0, ?t)" by (simp add: resize_with_def new(1) 1(1))
    ultimately show ?thesis by simp
  next
    case 2
    have "resize_with ?ins alloc t ns = Inr (-1, t)" by (simp add: resize_with_def new(1) 2(2))
    with 2(1) show ?thesis by simp
  qed
qed

text \<open>Room for one more entry: the load is low, or there is memory for a table of twice the size.\<close>

definition lh_room :: "(nat \<Rightarrow> bool) \<Rightarrow> ('k, 'v) lh_table \<Rightarrow> bool" where
  "lh_room alloc t \<longleftrightarrow> 100 * lt_count t < 66 * lt_size t \<or> lt_size t * 2 \<le> INT_MAX \<and> alloc (lt_size t * 2)"

lemma place_pairs:
  assumes "lh_pairs t es" "lt_count t < lt_size t" "k \<notin> fst ` set es"
  shows "\<exists>t'. ebind (find_slot (lt_size t) (lt_table t) (lt_size t) (unat (lt_hash_fn t k) mod lt_size t)) (\<lambda>n.
       ebind (fill_slot t n k v const) (\<lambda>t. Inr (0::int, t))) = Inr (0, t') \<and> lh_pairs t' (es @ [(k, v)]) \<and>
     lt_size t' = lt_size t \<and> lt_hash_fn t' = lt_hash_fn t \<and> lt_free_fn t' = lt_free_fn t"
proof -
  obtain "is" where r: "lh_rep t is" "es = map (pair_at (lt_table t)) is" "\<forall>i \<in> set is. entry_key (lt_table t ! i) \<noteq> k"
    using pairs_fresh [OF assms(1,3)] by blast
  from place_rep [OF r(1) assms(2) r(3), of v const] show ?thesis
    unfolding lh_pairs_def r(2) by (elim exE conjE) (intro exI conjI; assumption?; simp)
qed

text \<open>An insertion keeps the size, or at most doubles it when the load has reached the limit.\<close>

definition grown_from :: "('k, 'v) lh_table \<Rightarrow> ('k, 'v) lh_table \<Rightarrow> bool" where
  "grown_from t t' \<longleftrightarrow> (lt_size t' = lt_size t \<or> 66 * lt_size t \<le> 100 * lt_count t \<and> lt_size t' \<le> lt_size t * 2) \<and>
     lt_hash_fn t' = lt_hash_fn t \<and> lt_free_fn t' = lt_free_fn t"

lemma insert_pairs:
  assumes pairs: "lh_pairs t es" and k: "k \<notin> fst ` set es"
  shows "(\<exists>t'. lh_table_insert_w_hash (Suc (Suc d)) alloc t k v (lt_hash_fn t k) const = Inr (0, t') \<and>
       lh_pairs t' (es @ [(k, v)]) \<and> grown_from t t') \<or>
     \<not> lh_room alloc t \<and> lh_table_insert_w_hash (Suc (Suc d)) alloc t k v (lt_hash_fn t k) const = Inr (-1, t)"
proof (cases "66 * lt_size t \<le> 100 * lt_count t")
  case False
  then have "lt_count t < lt_size t" by simp
  from place_pairs [OF pairs this k, of v const] False show ?thesis by (simp add: grown_from_def)
next
  case load: True
  let ?ns = "if INT_MAX div 2 < lt_size t then INT_MAX else lt_size t * 2"
  have cnt: "lt_count t \<le> lt_size t" "0 < lt_size t" "lt_size t \<le> INT_MAX"
    using pairs rep_count by (auto simp: lh_pairs_def lh_rep_def)
  have ns: "?ns = INT_MAX \<or> ?ns = lt_size t * 2 \<and> ?ns \<le> INT_MAX" by auto
  show ?thesis
  proof (cases "lt_size t = INT_MAX")
    case True
    then show ?thesis using load by (simp add: lh_room_def)
  next
    case False
    from resize_pairs [OF pairs ns, of d alloc]
    consider t' where "resize_with (lh_table_insert_w_hash (Suc d) alloc) alloc t ?ns = Inr (0, t')" "lh_pairs t' es"
        "lt_size t' = ?ns" "lt_hash_fn t' = lt_hash_fn t" "lt_free_fn t' = lt_free_fn t"
      | "\<not> alloc ?ns \<or> ?ns = INT_MAX" "resize_with (lh_table_insert_w_hash (Suc d) alloc) alloc t ?ns = Inr (-1, t)"
      by blast
    then show ?thesis
    proof cases
      case 1
      have "lt_count t' < lt_size t'"
        using pairs_count [OF pairs] pairs_count [OF 1(2)] cnt False 1(3) by auto
      moreover have "grown_from t t''" if "lt_size t'' = lt_size t'" "lt_hash_fn t'' = lt_hash_fn t'" "lt_free_fn t'' = lt_free_fn t'" for t''
        using that load 1(3-5) by (auto simp: grown_from_def)
      ultimately show ?thesis using place_pairs [OF 1(2) _ k, of v const] load False 1(1,4) by auto
    next
      case 2
      then have "\<not> lh_room alloc t" using load by (auto simp: lh_room_def split: if_splits)
      then show ?thesis using 2(2) load False by simp
    qed
  qed
qed

section \<open>Deletion\<close>

lemma unlink_seg:
  assumes seg: "dseg (lt_table t) None (lt_head t) (xs @ n # ys) (lt_tail t) None" and dist: "distinct (xs @ n # ys)"
  shows "\<exists>t'. unlink t n = Inr t' \<and> dseg (lt_table t') None (lt_head t') (xs @ ys) (lt_tail t') None \<and>
     length (lt_table t') = length (lt_table t) \<and> (\<forall>i < length (lt_table t). same_data (lt_table t' ! i) (lt_table t ! i)) \<and>
     lt_count t' = lt_count t \<and> lt_size t' = lt_size t \<and> lt_hash_fn t' = lt_hash_fn t \<and> lt_free_fn t' = lt_free_fn t"
proof -
  let ?tbl = "lt_table t"
  obtain m r where parts: "dseg ?tbl None (lt_head t) xs m r" "dseg ?tbl m r (n # ys) (lt_tail t) None"
    using seg by (auto simp: dseg_append simp del: dseg.simps)
  have n: "n < length ?tbl" "r = Some n" "lhe_prev (?tbl ! n) = m" "dseg ?tbl (Some n) (lhe_next (?tbl ! n)) ys (lt_tail t) None"
    using parts(2) by auto
  have head: "lt_head t = (case xs of [] \<Rightarrow> Some n | x # _ \<Rightarrow> Some x)" using dseg_start [OF parts(1)] n(2) by (simp split: list.split)
  have m: "m = (if xs = [] then None else Some (last xs))" by (rule dseg_last [OF parts(1)])
  have tail: "lt_tail t = (if ys = [] then Some n else Some (last ys))" by (rule dseg_last [OF n(4)])
  have nxt: "lhe_next (?tbl ! n) = (case ys of [] \<Rightarrow> None | y # _ \<Rightarrow> Some y)" by (rule dseg_start [OF n(4)])
  have hn: "lt_head t = Some n \<longleftrightarrow> xs = []" using head dist by (auto split: list.splits)
  have tn: "lt_tail t = Some n \<longleftrightarrow> ys = []" using tail dist last_in_set [of ys] by auto
  show ?thesis
  proof (cases xs rule: rev_cases)
    case Nil
    show ?thesis
    proof (cases ys)
      case ys: Nil
      then show ?thesis using Nil hn tn by (simp add: unlink_def Let_def same_data_def)
    next
      case (Cons y zs)
      have y: "y < length ?tbl" using dseg_bound [OF n(4), of y] Cons by simp
      have "dseg (?tbl[y := (?tbl ! y)\<lparr> lhe_prev := None \<rparr>]) None (Some y) ys (lt_tail t) None"
        using dseg_set_prev [of ?tbl "Some n" "Some y" y zs "lt_tail t" None None] n(4) nxt Cons dist by simp
      then show ?thesis using Nil Cons hn tn nxt n(1) y
        by (simp add: unlink_def Let_def slot_at_def set_prev_def same_data_def nth_list_update)
    qed
  next
    case (snoc zs x)
    have x: "x < length ?tbl" "m = Some x" using dseg_bound [OF parts(1), of x] m snoc by auto
    have seg1: "dseg (?tbl[x := (?tbl ! x)\<lparr> lhe_next := q \<rparr>]) None (lt_head t) xs (Some x) q" for q
      using dseg_set_next [of ?tbl None "lt_head t" zs x m r q] parts(1) snoc dist x by simp
    show ?thesis
    proof (cases ys)
      case Nil
      then show ?thesis using snoc hn tn n(1,3) x seg1 [of None]
        by (simp add: unlink_def Let_def slot_at_def set_next_def same_data_def nth_list_update)
    next
      case (Cons y ws)
      let ?tbl1 = "?tbl[x := (?tbl ! x)\<lparr> lhe_next := Some y \<rparr>]"
      let ?tbl2 = "?tbl1[y := (?tbl1 ! y)\<lparr> lhe_prev := Some x \<rparr>]"
      have y: "y < length ?tbl" "y \<notin> set xs" using dseg_bound [OF n(4), of y] Cons dist by auto
      have ne: "x \<noteq> n" using snoc dist by auto
      have "dseg ?tbl1 (Some n) (Some y) ys (lt_tail t) None"
        using n(4) nxt Cons snoc dist by (simp add: dseg_upd_other del: dseg.simps)
      then have "dseg ?tbl2 (Some x) (Some y) ys (lt_tail t) None"
        using dseg_set_prev [of ?tbl1 "Some n" "Some y" y ws "lt_tail t" None "Some x"] Cons dist by simp
      moreover have "dseg ?tbl2 None (lt_head t) xs (Some x) (Some y)"
        using seg1 [of "Some y"] y(2) by (simp add: dseg_upd_other)
      ultimately have "dseg ?tbl2 None (lt_head t) (xs @ ys) (lt_tail t) None" unfolding dseg_append by blast
      moreover have "unlink t n = Inr (t\<lparr> lt_table := ?tbl2 \<rparr>)"
        using snoc Cons hn tn n(1,3) x nxt y ne by (simp add: unlink_def Let_def slot_at_def set_next_def set_prev_def)
      moreover have "\<forall>i < length ?tbl. same_data (?tbl2 ! i) (?tbl ! i)" using x y by (simp add: same_data_def nth_list_update)
      ultimately show ?thesis by simp
    qed
  qed
qed

lemma rep_shrink:
  assumes rep: "lh_rep t (xs @ n # ys)"
    and t': "length (lt_table t') = length (lt_table t)" "lt_size t' = lt_size t" "lt_count t' = lt_count t - 1"
      "lt_hash_fn t' = lt_hash_fn t"
    and same: "\<forall>i < length (lt_table t). i \<noteq> n \<longrightarrow> same_data (lt_table t' ! i) (lt_table t ! i)"
    and gone: "lhe_k (lt_table t' ! n) = LH_FREED"
    and seg: "dseg (lt_table t') None (lt_head t') (xs @ ys) (lt_tail t') None"
  shows "lh_rep t' (xs @ ys) \<and> map (pair_at (lt_table t')) (xs @ ys) = map (pair_at (lt_table t)) (xs @ ys)"
proof -
  let ?tbl = "lt_table t" and ?tbl' = "lt_table t'"
  have dist: "distinct (xs @ n # ys)" and all: "set (xs @ n # ys) = {i. i < length ?tbl \<and> occupied (?tbl ! i)}"
    using rep unfolding lh_rep_def by blast+
  have old: "same_data (?tbl' ! i) (?tbl ! i)" if "i \<in> set (xs @ ys)" for i
    using that dist all same by auto
  have "occupied (?tbl' ! i) \<longleftrightarrow> i \<noteq> n \<and> occupied (?tbl ! i)" if "i < length ?tbl" for i
    using that same gone same_data_simps by (cases "i = n") (auto simp: occupied.simps)
  then have occ: "set (xs @ ys) = {i. i < length ?tbl' \<and> occupied (?tbl' ! i)}"
    using all dist t'(1) by auto
  have "inj_on (\<lambda>i. entry_key (?tbl ! i)) (set (xs @ ys))"
    using rep_inj [OF rep] by (rule inj_on_subset) auto
  moreover have "entry_key (?tbl' ! i) = entry_key (?tbl ! i)" if "i \<in> set (xs @ ys)" for i
    using old [OF that] same_data_simps by blast
  ultimately have inj: "inj_on (\<lambda>i. entry_key (?tbl' ! i)) (set (xs @ ys))"
    unfolding inj_on_def by metis
  have "probed (lt_hash_fn t') ?tbl' i" if i: "i \<in> set (xs @ ys)" for i
    unfolding t'(4)
  proof (rule probed_mono [OF _ t'(1)])
    show "probed (lt_hash_fn t) ?tbl i" using rep i by (auto simp: lh_rep_def)
    show "entry_key (?tbl' ! i) = entry_key (?tbl ! i)" using old [OF i] same_data_simps by blast
    show "\<forall>j<length ?tbl. lhe_k (?tbl ! j) \<noteq> LH_EMPTY \<longrightarrow> lhe_k (?tbl' ! j) \<noteq> LH_EMPTY"
      using same gone same_data_simps by (metis lh_key.distinct(1))
  qed
  moreover have "map (pair_at ?tbl') (xs @ ys) = map (pair_at ?tbl) (xs @ ys)" using old by (intro pairs_same) blast
  moreover have "lt_count t' = length (xs @ ys)" "lt_size t' = length ?tbl'" "0 < lt_size t'" "lt_size t' \<le> INT_MAX" "distinct (xs @ ys)"
    using rep t' dist by (auto simp: lh_rep_def)
  ultimately show ?thesis using occ inj seg unfolding lh_rep_def by blast
qed

lemma delete_entry_rep:
  assumes rep: "lh_rep t (xs @ n # ys)"
  shows "\<exists>t'. lh_table_delete_entry t (int n) = Inr (0, t', if lt_free_fn t then [lt_table t ! n] else []) \<and>
     lh_rep t' (xs @ ys) \<and> map (pair_at (lt_table t')) (xs @ ys) = map (pair_at (lt_table t)) (xs @ ys) \<and>
     lt_hash_fn t' = lt_hash_fn t \<and> lt_free_fn t' = lt_free_fn t"
proof -
  let ?tbl = "lt_table t"
  let ?e = "(?tbl ! n)\<lparr> lhe_v := None, lhe_k := LH_FREED \<rparr>"
  let ?t0 = "t\<lparr> lt_count := lt_count t - 1, lt_table := ?tbl[n := ?e] \<rparr>"
  have n: "n < length ?tbl" using rep_bound [OF rep, of n] by simp
  have occ: "\<not> (lhe_k (?tbl ! n) = LH_EMPTY \<or> lhe_k (?tbl ! n) = LH_FREED)" using rep_key [OF rep, of n] by simp
  have dist: "distinct (xs @ n # ys)" and seg: "dseg ?tbl None (lt_head t) (xs @ n # ys) (lt_tail t) None"
    using rep unfolding lh_rep_def by blast+
  have frame: "lhe_prev (?tbl[n := ?e] ! i) = lhe_prev (?tbl ! i) \<and> lhe_next (?tbl[n := ?e] ! i) = lhe_next (?tbl ! i)" for i
    by (cases "i = n") (simp_all add: n)
  have "dseg (lt_table ?t0) None (lt_head ?t0) (xs @ n # ys) (lt_tail ?t0) None"
    using seg frame by (subst dseg_frame [of _ ?tbl]) auto
  from unlink_seg [OF this dist] obtain t1 where
    t1: "unlink ?t0 n = Inr t1" "dseg (lt_table t1) None (lt_head t1) (xs @ ys) (lt_tail t1) None"
      "length (lt_table t1) = length ?tbl" "\<forall>i < length ?tbl. same_data (lt_table t1 ! i) (lt_table ?t0 ! i)"
      "lt_count t1 = lt_count t - 1" "lt_size t1 = lt_size t" "lt_hash_fn t1 = lt_hash_fn t" "lt_free_fn t1 = lt_free_fn t"
    by auto
  let ?f = "(lt_table t1 ! n)\<lparr> lhe_prev := None, lhe_next := None \<rparr>"
  let ?t = "t1\<lparr> lt_table := (lt_table t1)[n := ?f] \<rparr>"
  have run: "lh_table_delete_entry t (int n) = Inr (0, ?t, if lt_free_fn t then [?tbl ! n] else [])"
    using n occ t1(1,3) by (simp add: lh_table_delete_entry_def slot_at_def set_prev_def set_next_def)
  have same: "\<forall>i < length ?tbl. i \<noteq> n \<longrightarrow> same_data (lt_table ?t ! i) (?tbl ! i)"
  proof (intro allI impI)
    fix i
    assume "i < length ?tbl" "i \<noteq> n"
    then show "same_data (lt_table ?t ! i) (?tbl ! i)" using t1(4) [rule_format, of i] by simp
  qed
  have gone: "lhe_k (lt_table ?t ! n) = LH_FREED"
    using t1(3,4) n by (simp add: same_data_def)
  have seg': "dseg (lt_table ?t) None (lt_head ?t) (xs @ ys) (lt_tail ?t) None"
    using t1(2) dist by (simp add: dseg_upd_other)
  have len: "length (lt_table ?t) = length ?tbl" "lt_size ?t = lt_size t" "lt_count ?t = lt_count t - 1" "lt_hash_fn ?t = lt_hash_fn t"
    using t1 by auto
  show ?thesis
    using rep_shrink [OF rep len same gone seg'] run t1(7,8)
    by (intro exI [of _ ?t]) simp
qed

lemma delete_pairs:
  assumes pairs: "lh_pairs t es" and k: "k \<in> fst ` set es"
  shows "\<exists>t' e. lh_table_delete t k = Inr (0, t', if lt_free_fn t then [e] else []) \<and>
     lh_pairs t' (filter (\<lambda>p. fst p \<noteq> k) es) \<and> map_of es k = Some (lhe_v e) \<and> lhe_k e = Key k \<and>
     lt_hash_fn t' = lt_hash_fn t \<and> lt_free_fn t' = lt_free_fn t"
proof -
  obtain "is" where rep: "lh_rep t is" and es: "es = map (pair_at (lt_table t)) is" using pairs by (auto simp: lh_pairs_def)
  obtain n where n: "n \<in> set is" "entry_key (lt_table t ! n) = k" using k unfolding es pairs_key by blast
  then obtain xs ys where split: "is = xs @ n # ys" by (meson split_list)
  have "entry_key (lt_table t ! i) \<noteq> k" if "i \<in> set (xs @ ys)" for i
  proof -
    have "i \<noteq> n" using that rep split unfolding lh_rep_def by auto
    with rep_inj [OF rep] that n split show ?thesis unfolding inj_on_def by auto
  qed
  then have filt: "filter (\<lambda>p. fst p \<noteq> k) es = map (pair_at (lt_table t)) (xs @ ys)"
    using n(2) by (auto simp: es split pair_at_def intro!: filter_True)
  obtain t' where t': "lh_table_delete_entry t (int n) = Inr (0, t', if lt_free_fn t then [lt_table t ! n] else [])"
      "lh_rep t' (xs @ ys)" "map (pair_at (lt_table t')) (xs @ ys) = map (pair_at (lt_table t)) (xs @ ys)"
      "lt_hash_fn t' = lt_hash_fn t" "lt_free_fn t' = lt_free_fn t"
    using delete_entry_rep [of t xs n ys] rep split by auto
  have "lh_table_delete t k = Inr (0, t', if lt_free_fn t then [lt_table t ! n] else [])"
    by (simp add: lh_table_delete_def lookup_present [OF rep n] t'(1))
  moreover have "lh_pairs t' (filter (\<lambda>p. fst p \<noteq> k) es)" unfolding filt lh_pairs_def using t'(2,3) by metis
  moreover have "map_of es k = Some (lhe_v (lt_table t ! n))"
    using map_of_pairs [OF rep_inj [OF rep] n(1)] n(2) es by simp
  ultimately show ?thesis using t'(4,5) rep_key [OF rep n(1)] n(2) by auto
qed

lemma delete_absent:
  assumes "lh_pairs t es" and "k \<notin> fst ` set es"
  shows "lh_table_delete t k = Inr (-1, t, [])"
proof -
  obtain "is" where "lh_rep t is" "\<forall>i \<in> set is. entry_key (lt_table t ! i) \<noteq> k" using pairs_fresh [OF assms] by blast
  from lookup_absent [OF this] show ?thesis by (simp add: lh_table_delete_def)
qed

lemma foreach_seg: "dseg tbl a p js l None \<Longrightarrow> length js < f \<Longrightarrow> lh_foreach f tbl p = Inr (map ((!) tbl) js)"
proof (induction js arbitrary: a p f)
  case (Cons i js)
  then obtain g where "f = Suc g" by (cases f) auto
  with Cons show ?case by (auto simp: slot_at_def)
qed simp

lemma free_pairs:
  assumes "lh_pairs t es" and "lt_free_fn t"
  shows "\<exists>fs. lh_table_free t = Inr fs \<and> map (\<lambda>e. (lhe_k e, lhe_v e)) fs = map (\<lambda>(k, v). (Key k, v)) es"
proof -
  obtain "is" where rep: "lh_rep t is" and es: "es = map (pair_at (lt_table t)) is" using assms by (auto simp: lh_pairs_def)
  have "length is < Suc (length (lt_table t))" using rep_count [OF rep] rep by (simp add: lh_rep_def)
  then have "lh_table_free t = Inr (map ((!) (lt_table t)) is)"
    using foreach_seg [of "lt_table t" None "lt_head t" "is"] rep assms(2) by (auto simp: lh_table_free_def lh_rep_def)
  then show ?thesis using rep_key [OF rep] by (auto simp: es pair_at_def)
qed

lemma pairs_distinct: "lh_pairs t es \<Longrightarrow> distinct (map fst es)"
proof -
  assume "lh_pairs t es"
  then obtain "is" where rep: "lh_rep t is" and es: "es = map (pair_at (lt_table t)) is" by (auto simp: lh_pairs_def)
  have "map fst es = map (\<lambda>i. entry_key (lt_table t ! i)) is" by (simp add: es pair_at_def)
  moreover have "distinct is" using rep unfolding lh_rep_def by blast
  ultimately show ?thesis using rep_inj [OF rep] by (simp add: distinct_map)
qed

section \<open>The contract\<close>

interpretation lht: ordered_table "lh_table_insert alloc" lh_table_lookup_ex lh_table_delete lh_pairs "lh_room alloc"
  for alloc
proof
  fix t :: "('a, 'b) lh_table" and es k v
  assume t: "lh_pairs t es"
  show "distinct (map fst es)" by (rule pairs_distinct [OF t])
  show "lh_table_lookup_ex t k = Inr (map_of es k)" by (rule lookup_ex_pairs [OF t])
  show "k \<in> fst ` set es \<Longrightarrow> \<exists>t' e. lh_table_delete t k = Inr (0, t', e) \<and> lh_pairs t' (filter (\<lambda>p. fst p \<noteq> k) es)"
    using delete_pairs [OF t] by blast
  show "k \<notin> fst ` set es \<Longrightarrow> \<exists>e. lh_table_delete t k = Inr (-1, t, e)" using delete_absent [OF t] by blast
  show "k \<notin> fst ` set es \<Longrightarrow> (\<exists>t'. lh_table_insert alloc t k v = Inr (0, t') \<and> lh_pairs t' (es @ [(k, v)])) \<or>
      \<not> lh_room alloc t \<and> lh_table_insert alloc t k v = Inr (-1, t)"
    using insert_pairs [OF t, of k "LH_DEPTH - 2" alloc v False] by (auto simp: lh_table_insert_def lh_get_hash_def LH_DEPTH_def)
qed

section \<open>Release\<close>

fun run_deletes :: "'k list \<Rightarrow> ('k, 'v) lh_table \<Rightarrow> (('k, 'v) lh_table \<times> ('k, 'v) lh_entry list) res" where
  "run_deletes [] t = Inr (t, [])"
| "run_deletes (k # ks) t =
     ebind (lh_table_delete t k) (\<lambda>(r, t, fs). ebind (run_deletes ks t) (\<lambda>(t, gs). Inr (t, fs @ gs)))"

definition entry_data :: "('k, 'v) lh_entry \<Rightarrow> 'k lh_key \<times> 'v option" where
  "entry_data e = (lhe_k e, lhe_v e)"

lemma mset_remove_key:
  "distinct (map fst es) \<Longrightarrow> map_of es k = Some v \<Longrightarrow> mset es = add_mset (k, v) (mset (filter (\<lambda>p. fst p \<noteq> k) es))"
proof (induction es)
  case (Cons e es)
  show ?case
  proof (cases "fst e = k")
    case True
    then have "filter (\<lambda>p. fst p \<noteq> k) es = es" using Cons.prems(1) by (intro filter_True) (auto simp: image_iff)
    with True Cons.prems(2) show ?thesis by (cases e) auto
  next
    case False
    with Cons show ?thesis by (cases e) auto
  qed
qed simp

text \<open>
  C24. Every entry of a table is released exactly once: after any sequence of deletions, of keys that are there and of keys
  that are not, freeing the table hands to the free function exactly the entries that the deletions have not handed to
  it before, and all of them together are the entries the table had.
\<close>

theorem table_releases_once:
  assumes "lh_pairs t es" and "lt_free_fn t"
  shows "\<exists>t' fs gs. run_deletes ks t = Inr (t', fs) \<and> lh_table_free t' = Inr gs \<and>
     mset (map entry_data (fs @ gs)) = mset (map (\<lambda>(k, v). (Key k, v)) es)"
  using assms
proof (induction ks arbitrary: t es)
  case Nil
  obtain gs where "lh_table_free t = Inr gs" "map entry_data gs = map (\<lambda>(k, v). (Key k, v)) es"
    using free_pairs [OF Nil.prems] unfolding entry_data_def by auto
  then show ?case by (intro exI [of _ t] exI [of _ "[]"] exI [of _ gs]) (simp del: mset_map)
next
  case (Cons k ks)
  show ?case
  proof (cases "k \<in> fst ` set es")
    case True
    let ?es = "filter (\<lambda>p. fst p \<noteq> k) es"
    obtain t1 e where 1: "lh_table_delete t k = Inr (0, t1, [e])" "lh_pairs t1 ?es" "map_of es k = Some (lhe_v e)"
        "lhe_k e = Key k" "lt_free_fn t1"
      using delete_pairs [OF Cons.prems(1) True] Cons.prems(2) by auto
    obtain t' fs gs where 2: "run_deletes ks t1 = Inr (t', fs)" "lh_table_free t' = Inr gs"
        "mset (map entry_data (fs @ gs)) = mset (map (\<lambda>(k, v). (Key k, v)) ?es)"
      using Cons.IH [OF 1(2,5)] by blast
    have "image_mset (\<lambda>(k, v). (Key k, v)) (mset es) = image_mset (\<lambda>(k, v). (Key k, v)) (add_mset (k, lhe_v e) (mset ?es))"
      using mset_remove_key [OF pairs_distinct [OF Cons.prems(1)] 1(3)] by (rule arg_cong)
    then have "mset (map entry_data ((e # fs) @ gs)) = mset (map (\<lambda>(k, v). (Key k, v)) es)"
      using 2(3) 1(4) by (simp add: entry_data_def)
    with 1(1) 2(1,2) show ?thesis by (intro exI [of _ t'] exI [of _ "e # fs"] exI [of _ gs]) simp
  next
    case False
    then show ?thesis using delete_absent [OF Cons.prems(1) False] Cons.IH [OF Cons.prems] by auto
  qed
qed

definition demo_slots :: "(nat, nat) lh_table" where
  "demo_slots = \<lparr> lt_size = 2, lt_count = 1, lt_head = Some 0, lt_tail = Some 0,
     lt_table = [\<lparr> lhe_k = Key 4, lhe_k_is_constant = False, lhe_v = Some 9, lhe_next = None, lhe_prev = None \<rparr>, empty_entry],
     lt_free_fn = True, lt_hash_fn = (\<lambda>k. 0) \<rparr>"

theorem table_releases_once_witness:
  "\<exists>t' fs gs. run_deletes [3, 4] demo_slots = Inr (t', fs) \<and> lh_table_free t' = Inr gs \<and>
     mset (map entry_data (fs @ gs)) = {#(Key 4, Some 9)#}"
proof -
  have "lh_rep demo_slots [0]"
    by (auto simp: lh_rep_def demo_slots_def probed_def home_def entry_key_def empty_entry_def occupied.simps less_Suc_eq numeral_2_eq_2)
  then have "lh_pairs demo_slots [(4, Some 9)]"
    unfolding lh_pairs_def by (intro exI [of _ "[0]"]) (simp add: pair_at_def demo_slots_def entry_key_def)
  from table_releases_once [OF this, of "[3, 4]"] show ?thesis by (simp add: demo_slots_def)
qed

end
