(* ===== verification/Arraylist.thy ===== *)
theory Arraylist
  imports Gw_Prelude
begin

text \<open>
  The growing array of json-c (\<open>arraylist.c\<close>).  A cell that has never been written is \<open>None\<close>; a
  written one is a pointer, and \<open>Some None\<close> is \<open>NULL\<close>.  Operations that release elements return those
  that \<open>free_fn\<close> gets.  \<open>alloc n\<close> says whether there is memory for \<open>n\<close> bytes.
\<close>

section \<open>Operations\<close>

abbreviation (input) SIZE_T_MAX :: nat where "SIZE_T_MAX \<equiv> 0xffffffffffffffff"
abbreviation (input) ARRAY_LIST_DEFAULT_SIZE :: nat where "ARRAY_LIST_DEFAULT_SIZE \<equiv> 32"

record 'a array_list =
  al_array :: "'a option option list"
  al_length :: nat
  al_size :: nat

definition array_list_new2 :: "(nat \<Rightarrow> bool) \<Rightarrow> nat \<Rightarrow> 'a array_list option" where
  "array_list_new2 alloc initial_size =
     (if alloc (initial_size * 8)
      then Some \<lparr> al_array = replicate initial_size None, al_length = 0, al_size = initial_size \<rparr> else None)"

definition array_list_new :: "(nat \<Rightarrow> bool) \<Rightarrow> 'a array_list option" where
  "array_list_new alloc = array_list_new2 alloc ARRAY_LIST_DEFAULT_SIZE"

definition cell_at :: "'a array_list \<Rightarrow> nat \<Rightarrow> 'a option res" where
  "cell_at arr i =
     (if i < length (al_array arr)
      then case al_array arr ! i of None \<Rightarrow> Inl WildPointer | Some p \<Rightarrow> Inr p else Inl OutOfBounds)"

text \<open>The elements among the cells of the list that are not null.\<close>

fun free_cells :: "'a array_list \<Rightarrow> nat list \<Rightarrow> 'a list res" where
  "free_cells arr [] = Inr []"
| "free_cells arr (i # is) =
     ebind (cell_at arr i) (\<lambda>p.
     ebind (free_cells arr is) (\<lambda>fs. Inr (case p of None \<Rightarrow> fs | Some x \<Rightarrow> x # fs)))"

definition array_list_free :: "'a array_list \<Rightarrow> 'a list res" where
  "array_list_free arr = free_cells arr [0..<al_length arr]"

definition array_list_get :: "'a array_list \<Rightarrow> nat \<Rightarrow> 'a option res" where
  "array_list_get arr i = (if al_length arr \<le> i then Inr None else cell_at arr i)"

definition realloc_cells :: "'a array_list \<Rightarrow> nat \<Rightarrow> 'a array_list" where
  "realloc_cells arr n =
     arr\<lparr> al_array := take n (al_array arr) @ replicate (n - length (al_array arr)) None, al_size := n \<rparr>"

definition grown_size :: "'a array_list \<Rightarrow> nat \<Rightarrow> nat" where
  "grown_size arr mx =
     (if SIZE_T_MAX div 2 \<le> al_size arr then mx
      else if al_size arr * 2 < mx then mx else al_size arr * 2)"

definition array_list_expand_internal :: "(nat \<Rightarrow> bool) \<Rightarrow> 'a array_list \<Rightarrow> nat \<Rightarrow> int \<times> 'a array_list" where
  "array_list_expand_internal alloc arr mx =
     (if mx < al_size arr then (0, arr)
      else
        let new_size = grown_size arr mx
        in if SIZE_T_MAX div 8 < new_size then (-1, arr)
           else if \<not> alloc (new_size * 8) then (-1, arr)
           else (0, realloc_cells arr new_size))"

definition array_list_shrink :: "(nat \<Rightarrow> bool) \<Rightarrow> 'a array_list \<Rightarrow> nat \<Rightarrow> int \<times> 'a array_list" where
  "array_list_shrink alloc arr empty_slots =
     (let new_size = (al_length arr + empty_slots) mod 2 ^ 64
      in if new_size = al_size arr then (0, arr)
         else if al_size arr < new_size then array_list_expand_internal alloc arr new_size
         else let new_size = (if new_size = 0 then 1 else new_size)
              in if \<not> alloc (new_size * 8) then (-1, arr) else (0, realloc_cells arr new_size))"

definition set_cells :: "'a array_list \<Rightarrow> nat \<Rightarrow> 'a option list \<Rightarrow> 'a array_list res" where
  "set_cells arr i ps =
     (if i + length ps \<le> length (al_array arr)
      then Inr (arr\<lparr> al_array := take i (al_array arr) @ map Some ps @ drop (i + length ps) (al_array arr) \<rparr>)
      else Inl OutOfBounds)"

definition array_list_put_idx ::
  "(nat \<Rightarrow> bool) \<Rightarrow> 'a array_list \<Rightarrow> nat \<Rightarrow> 'a option \<Rightarrow> (int \<times> 'a array_list \<times> 'a list) res" where
  "array_list_put_idx alloc arr idx data =
     (if SIZE_T_MAX - 1 < idx then Inr (-1, arr, [])
      else case array_list_expand_internal alloc arr (idx + 1) of (ret, arr) \<Rightarrow>
        if ret \<noteq> 0 then Inr (-1, arr, [])
        else
          ebind (if idx < al_length arr then free_cells arr [idx] else Inr []) (\<lambda>fs.
          ebind (set_cells arr idx [data]) (\<lambda>arr.
          ebind (if al_length arr < idx
                 then set_cells arr (al_length arr) (replicate (idx - al_length arr) None) else Inr arr) (\<lambda>arr.
          Inr (0, if al_length arr \<le> idx then arr\<lparr> al_length := idx + 1 \<rparr> else arr, fs)))))"

definition array_list_add :: "(nat \<Rightarrow> bool) \<Rightarrow> 'a array_list \<Rightarrow> 'a option \<Rightarrow> (int \<times> 'a array_list) res" where
  "array_list_add alloc arr data =
     (let idx = al_length arr
      in if SIZE_T_MAX - 1 < idx then Inr (-1, arr)
         else case array_list_expand_internal alloc arr (idx + 1) of (ret, arr) \<Rightarrow>
           if ret \<noteq> 0 then Inr (-1, arr)
           else ebind (set_cells arr idx [data]) (\<lambda>arr. Inr (0, arr\<lparr> al_length := al_length arr + 1 \<rparr>)))"

definition array_list_del_idx ::
  "'a array_list \<Rightarrow> nat \<Rightarrow> nat \<Rightarrow> (int \<times> 'a array_list \<times> 'a list) res" where
  "array_list_del_idx arr idx count =
     (if SIZE_T_MAX - count < idx then Inr (-1, arr, [])
      else
        let stop = idx + count
        in if al_length arr \<le> idx \<or> al_length arr < stop then Inr (-1, arr, [])
           else
             ebind (free_cells arr [idx..<stop]) (\<lambda>fs.
             if length (al_array arr) < al_length arr then Inl OutOfBounds
             else
               let moved = take (al_length arr - stop) (drop stop (al_array arr))
               in Inr (0, arr\<lparr> al_array := take idx (al_array arr) @ moved @ drop (idx + length moved) (al_array arr),
                               al_length := al_length arr - count \<rparr>, fs)))"

section \<open>The list it represents\<close>

definition al_rep :: "'a array_list \<Rightarrow> 'a option list \<Rightarrow> bool" where
  "al_rep arr xs \<longleftrightarrow>
     al_size arr = length (al_array arr) \<and> al_length arr = length xs \<and> length xs \<le> al_size arr \<and>
     al_size arr \<le> SIZE_T_MAX div 8 \<and> take (length xs) (al_array arr) = map Some xs"

definition present :: "'a option list \<Rightarrow> 'a list" where
  "present ps = map the (filter (\<lambda>p. p \<noteq> None) ps)"

lemma present_simps [simp]:
  "present [] = []" "present (None # ps) = present ps" "present (Some x # ps) = x # present ps"
  by (simp_all add: present_def)

lemma rep_new: "n \<le> SIZE_T_MAX div 8 \<Longrightarrow> array_list_new2 alloc n = Some arr \<Longrightarrow> al_rep arr []"
  by (auto simp: array_list_new2_def al_rep_def split: if_splits)

lemma rep_cell: "al_rep arr xs \<Longrightarrow> i < length xs \<Longrightarrow> cell_at arr i = Inr (xs ! i)"
proof -
  assume rep: "al_rep arr xs" and i: "i < length xs"
  have "al_array arr ! i = take (length xs) (al_array arr) ! i" using i by simp
  also have "\<dots> = Some (xs ! i)" using rep i by (simp add: al_rep_def)
  finally show ?thesis using rep i by (simp add: al_rep_def cell_at_def)
qed

lemma get_rep: "al_rep arr xs \<Longrightarrow> array_list_get arr i = Inr (if i < length xs then xs ! i else None)"
  using rep_cell [of arr xs i] by (auto simp: array_list_get_def al_rep_def)

lemma free_cells_rep:
  "al_rep arr xs \<Longrightarrow> \<forall>i \<in> set is. i < length xs \<Longrightarrow> free_cells arr is = Inr (present (map ((!) xs) is))"
  by (induction "is") (auto simp: rep_cell split: option.splits)

lemma free_rep: "al_rep arr xs \<Longrightarrow> array_list_free arr = Inr (present xs)"
proof -
  assume "al_rep arr xs"
  with free_cells_rep [OF this, of "[0..<length xs]"] show ?thesis
    by (simp add: array_list_free_def al_rep_def map_nth)
qed

lemma realloc_rep: "al_rep arr xs \<Longrightarrow> length xs \<le> n \<Longrightarrow> n \<le> SIZE_T_MAX div 8 \<Longrightarrow> al_rep (realloc_cells arr n) xs"
  by (auto simp: al_rep_def realloc_cells_def min_def)

text \<open>An expansion keeps the list; when it succeeds, there is a cell at every index up to \<open>mx - 1\<close>.\<close>

lemma expand_rep:
  assumes "al_rep arr xs" and "array_list_expand_internal alloc arr mx = (ret, arr')"
  shows "al_rep arr' xs \<and> (ret = 0 \<and> mx \<le> length (al_array arr') \<or> ret = -1 \<and> arr' = arr)"
proof (cases "mx < al_size arr \<or> SIZE_T_MAX div 8 < grown_size arr mx \<or> \<not> alloc (grown_size arr mx * 8)")
  case True
  then show ?thesis using assms by (auto simp: array_list_expand_internal_def Let_def al_rep_def split: if_splits)
next
  case False
  then have "ret = 0" "arr' = realloc_cells arr (grown_size arr mx)" "mx \<le> grown_size arr mx" "grown_size arr mx \<le> SIZE_T_MAX div 8"
      "length xs \<le> grown_size arr mx"
    using assms by (auto simp: array_list_expand_internal_def Let_def grown_size_def al_rep_def split: if_splits)
  then show ?thesis using realloc_rep [OF assms(1), of "grown_size arr mx"] by (simp add: realloc_cells_def)
qed

text \<open>Memory for a bigger array: twice the size, which is not the greatest possible one.\<close>

definition al_room :: "(nat \<Rightarrow> bool) \<Rightarrow> 'a array_list \<Rightarrow> bool" where
  "al_room alloc arr \<longleftrightarrow>
     al_length arr + 1 < al_size arr \<or>
     grown_size arr (al_length arr + 1) \<le> SIZE_T_MAX div 8 \<and> alloc (grown_size arr (al_length arr + 1) * 8)"

lemma expand_room:
  assumes "al_rep arr xs" "al_room alloc arr" and "array_list_expand_internal alloc arr (length xs + 1) = (ret, arr')"
  shows "ret = 0"
  using assms by (auto simp: al_room_def al_rep_def array_list_expand_internal_def Let_def split: if_splits)

lemma al_rep_nth:
  "al_rep arr xs \<longleftrightarrow> al_size arr = length (al_array arr) \<and> al_length arr = length xs \<and> length xs \<le> al_size arr \<and>
     al_size arr \<le> SIZE_T_MAX div 8 \<and> (\<forall>i < length xs. al_array arr ! i = Some (xs ! i))"
  by (auto simp: al_rep_def list_eq_iff_nth_eq)

lemma set_cells_nth:
  assumes "i + length ps \<le> length (al_array arr)"
  shows "\<exists>arr'. set_cells arr i ps = Inr arr' \<and> al_length arr' = al_length arr \<and> al_size arr' = al_size arr \<and>
     length (al_array arr') = length (al_array arr) \<and>
     (\<forall>j < length (al_array arr). al_array arr' ! j = (if i \<le> j \<and> j < i + length ps then Some (ps ! (j - i)) else al_array arr ! j))"
  using assms by (auto simp: set_cells_def nth_append)

section \<open>Adding, replacing, deleting\<close>

lemma add_rep:
  assumes rep: "al_rep arr xs"
  shows "(\<exists>arr'. array_list_add alloc arr p = Inr (0, arr') \<and> al_rep arr' (xs @ [p])) \<or>
     \<not> al_room alloc arr \<and> array_list_add alloc arr p = Inr (-1, arr)"
proof -
  have len: "al_length arr = length xs" using rep by (simp add: al_rep_def)
  obtain ret arr1 where e: "array_list_expand_internal alloc arr (length xs + 1) = (ret, arr1)" by fastforce
  from expand_rep [OF rep e] have e1: "al_rep arr1 xs"
      "ret = 0 \<and> length xs + 1 \<le> length (al_array arr1) \<or> ret = -1 \<and> arr1 = arr" by auto
  have small: "\<not> SIZE_T_MAX - 1 < length xs" using rep by (simp add: al_rep_def)
  consider "ret = 0" "length xs + 1 \<le> length (al_array arr1)"
    | "ret = -1" "arr1 = arr" using e1(2) by linarith
  then show ?thesis
  proof cases
    case 1
    then obtain arr2 where a2: "set_cells arr1 (length xs) [p] = Inr arr2" "al_length arr2 = al_length arr1" "al_size arr2 = al_size arr1"
        "length (al_array arr2) = length (al_array arr1)"
        "\<forall>j < length (al_array arr1). al_array arr2 ! j = (if length xs \<le> j \<and> j < length xs + 1 then Some ([p] ! (j - length xs)) else al_array arr1 ! j)"
      using set_cells_nth [of "length xs" "[p]" arr1] by auto
    have "al_rep (arr2\<lparr> al_length := al_length arr2 + 1 \<rparr>) (xs @ [p])"
      using e1(1) 1(2) a2(2-5) by (auto simp: al_rep_nth nth_append less_Suc_eq)
    then show ?thesis using 1 small a2(1) e len by (simp add: array_list_add_def)
  next
    case 2
    then show ?thesis using e len small expand_room [OF rep _ e] by (auto simp: array_list_add_def)
  qed
qed

text \<open>What the element at an index is replaced by, and what is put in between beyond the end.\<close>

definition put_list :: "'a option list \<Rightarrow> nat \<Rightarrow> 'a option \<Rightarrow> 'a option list" where
  "put_list xs i p = (if i < length xs then xs[i := p] else xs @ replicate (i - length xs) None @ [p])"

lemma put_idx_rep:
  assumes rep: "al_rep arr xs"
  shows "(\<exists>arr'. array_list_put_idx alloc arr i p =
       Inr (0, arr', if i < length xs then present [xs ! i] else []) \<and> al_rep arr' (put_list xs i p)) \<or>
     array_list_put_idx alloc arr i p = Inr (-1, arr, [])"
proof -
  obtain ret arr1 where e: "array_list_expand_internal alloc arr (i + 1) = (ret, arr1)" by fastforce
  from expand_rep [OF rep e] have e1: "al_rep arr1 xs" "ret = 0 \<and> i + 1 \<le> length (al_array arr1) \<or> ret = -1 \<and> arr1 = arr" by auto
  have len: "al_length arr1 = length xs" using e1(1) by (simp add: al_rep_def)
  show ?thesis
  proof (cases "SIZE_T_MAX - 1 < i \<or> ret = -1")
    case True
    then show ?thesis using e e1(2) by (auto simp: array_list_put_idx_def)
  next
    case ok: False
    then have r: "ret = 0" "i + 1 \<le> length (al_array arr1)" "\<not> SIZE_T_MAX - 1 < i" using e1(2) by auto
    show ?thesis
    proof (cases "i < length xs")
      case True
      have fr: "free_cells arr1 [i] = Inr (present [xs ! i])" using free_cells_rep [OF e1(1), of "[i]"] True by simp
      obtain arr2 where a2: "set_cells arr1 i [p] = Inr arr2" "al_length arr2 = length xs" "al_size arr2 = al_size arr1"
          "length (al_array arr2) = length (al_array arr1)"
          "\<forall>j < length (al_array arr1). al_array arr2 ! j = (if i \<le> j \<and> j < i + 1 then Some ([p] ! (j - i)) else al_array arr1 ! j)"
        using set_cells_nth [of i "[p]" arr1] r(2) len by auto
      have "al_rep arr2 (xs[i := p])"
        using e1(1) a2(2-5) True by (auto simp: al_rep_nth nth_list_update)
      then show ?thesis using e r True len fr a2(1,2) by (auto simp: array_list_put_idx_def put_list_def simp del: free_cells.simps)
    next
      case False
      let ?gap = "replicate (i - length xs) None"
      obtain arr2 where a2: "set_cells arr1 i [p] = Inr arr2" "al_length arr2 = length xs" "al_size arr2 = al_size arr1"
          "length (al_array arr2) = length (al_array arr1)"
          "\<forall>j < length (al_array arr1). al_array arr2 ! j = (if i \<le> j \<and> j < i + 1 then Some ([p] ! (j - i)) else al_array arr1 ! j)"
        using set_cells_nth [of i "[p]" arr1] r(2) len by auto
      obtain arr3 where a3: "set_cells arr2 (length xs) ?gap = Inr arr3" "al_length arr3 = length xs" "al_size arr3 = al_size arr1"
          "length (al_array arr3) = length (al_array arr1)"
          "\<forall>j < length (al_array arr1). al_array arr3 ! j =
             (if length xs \<le> j \<and> j < length xs + length ?gap then Some (?gap ! (j - length xs)) else al_array arr2 ! j)"
        using set_cells_nth [of "length xs" ?gap arr2] r(2) a2 False by auto
      have "al_rep (arr3\<lparr> al_length := i + 1 \<rparr>) (put_list xs i p)"
        using e1(1) r(2) a2(5) a3(3-5) False by (auto simp: al_rep_nth put_list_def nth_append less_Suc_eq)
      moreover have "set_cells arr2 (length xs) ?gap = Inr arr2" if "i = length xs"
        using that a2(4) r(2) by (simp add: set_cells_def)
      ultimately show ?thesis using e r False len a2(1,2) a3(1,2)
        by (cases "i = length xs") (auto simp: array_list_put_idx_def)
    qed
  qed
qed

lemma del_idx_rep:
  assumes rep: "al_rep arr xs"
  shows "if i + n \<le> length xs \<and> i < length xs
    then \<exists>arr'. array_list_del_idx arr i n = Inr (0, arr', present (take n (drop i xs))) \<and> al_rep arr' (take i xs @ drop (i + n) xs)
    else array_list_del_idx arr i n = Inr (-1, arr, [])"
proof (cases "i + n \<le> length xs \<and> i < length xs")
  case True
  let ?a = "al_array arr"
  let ?moved = "take (length xs - (i + n)) (drop (i + n) ?a)"
  let ?arr = "arr\<lparr> al_array := take i ?a @ ?moved @ drop (i + length ?moved) ?a, al_length := length xs - n \<rparr>"
  have len: "al_length arr = length xs" "length xs \<le> length ?a" "length xs \<le> SIZE_T_MAX div 8" using rep by (auto simp: al_rep_def)
  have "take (length xs) ?a = map Some xs" using rep by (simp add: al_rep_def)
  then have parts: "take i ?a = map Some (take i xs)" "?moved = map Some (drop (i + n) xs)"
    using True by (metis min.absorb1 less_or_eq_imp_le take_map take_take, metis drop_map drop_take)
  have "map ((!) xs) [i..<i + n] = take n (drop i xs)"
    using True by (intro nth_equalityI) (auto simp: add.commute)
  then have "free_cells arr [i..<i + n] = Inr (present (take n (drop i xs)))"
    using free_cells_rep [OF rep, of "[i..<i + n]"] True by simp
  then have "array_list_del_idx arr i n = Inr (0, ?arr, present (take n (drop i xs)))"
    using True len by (auto simp: array_list_del_idx_def Let_def)
  moreover have "al_rep ?arr (take i xs @ drop (i + n) xs)"
    using True len rep unfolding parts by (auto simp: al_rep_def)
  ultimately show ?thesis using True by auto
next
  case False
  then show ?thesis using rep by (auto simp: array_list_del_idx_def al_rep_def Let_def)
qed

lemma shrink_rep:
  assumes "al_rep arr xs" "length xs + n < 2 ^ 64" "array_list_shrink alloc arr n = (ret, arr')"
  shows "al_rep arr' xs \<and> (ret = 0 \<or> ret = -1 \<and> arr' = arr)"
proof -
  have len: "al_length arr = length xs" "al_size arr \<le> SIZE_T_MAX div 8" using assms(1) by (auto simp: al_rep_def)
  show ?thesis
  proof (cases "al_size arr < length xs + n")
    case True
    then have "array_list_expand_internal alloc arr (length xs + n) = (ret, arr')"
      using assms(2,3) len by (simp add: array_list_shrink_def Let_def)
    from expand_rep [OF assms(1) this] show ?thesis by auto
  next
    case False
    then show ?thesis using assms(2,3) len assms(1) realloc_rep [OF assms(1), of "length xs + n"] realloc_rep [OF assms(1), of 1]
      by (auto simp: array_list_shrink_def Let_def split: if_splits)
  qed
qed

section \<open>Runs\<close>

text \<open>
  A sequence of changes on the array, and the same changes on a list.  The run records what each
  operation returned and released; \<open>list_run\<close> skips those that were refused, and
  \<open>codes_ok\<close> says which may be: a deletion exactly when its range is not inside the list, an
  addition or a replacement only when memory or sizes are not \<open>plenty\<close>.
\<close>

datatype 'a array_op = OpAdd "'a option" | OpPut nat "'a option" | OpDel nat nat

fun array_step :: "(nat \<Rightarrow> bool) \<Rightarrow> 'a array_op \<Rightarrow> 'a array_list \<Rightarrow> (int \<times> 'a array_list \<times> 'a list) res" where
  "array_step alloc (OpAdd p) arr = ebind (array_list_add alloc arr p) (\<lambda>(ret, arr). Inr (ret, arr, []))"
| "array_step alloc (OpPut i p) arr = array_list_put_idx alloc arr i p"
| "array_step alloc (OpDel i n) arr = array_list_del_idx arr i n"

fun list_step :: "'a array_op \<Rightarrow> 'a option list \<Rightarrow> 'a option list \<times> 'a list" where
  "list_step (OpAdd p) xs = (xs @ [p], [])"
| "list_step (OpPut i p) xs = (put_list xs i p, if i < length xs then present [xs ! i] else [])"
| "list_step (OpDel i n) xs = (take i xs @ drop (i + n) xs, present (take n (drop i xs)))"

fun array_run :: "(nat \<Rightarrow> bool) \<Rightarrow> 'a array_op list \<Rightarrow> 'a array_list \<Rightarrow> (int list \<times> 'a array_list \<times> 'a list) res" where
  "array_run alloc [] arr = Inr ([], arr, [])"
| "array_run alloc (op # ops) arr =
     ebind (array_step alloc op arr) (\<lambda>(r, arr, fs).
     ebind (array_run alloc ops arr) (\<lambda>(rs, arr, gs). Inr (r # rs, arr, fs @ gs)))"

fun list_run :: "'a array_op list \<Rightarrow> int list \<Rightarrow> 'a option list \<Rightarrow> 'a option list \<times> 'a list" where
  "list_run (op # ops) (r # rs) xs =
     (if r \<noteq> 0 then list_run ops rs xs
      else case list_step op xs of (ys, fs) \<Rightarrow> case list_run ops rs ys of (zs, gs) \<Rightarrow> (zs, fs @ gs))"
| "list_run _ _ xs = (xs, [])"

fun code_ok :: "bool \<Rightarrow> 'a array_op \<Rightarrow> int \<Rightarrow> 'a option list \<Rightarrow> bool" where
  "code_ok plenty (OpDel i n) r xs = (r = (if i < length xs \<and> i + n \<le> length xs then 0 else -1))"
| "code_ok plenty op r xs = (r = 0 \<or> \<not> plenty \<and> r = -1)"

fun codes_ok :: "bool \<Rightarrow> 'a array_op list \<Rightarrow> int list \<Rightarrow> 'a option list \<Rightarrow> bool" where
  "codes_ok plenty [] rs xs = (rs = [])"
| "codes_ok plenty (op # ops) [] xs = False"
| "codes_ok plenty (op # ops) (r # rs) xs =
     (code_ok plenty op r xs \<and> codes_ok plenty ops rs (if r = 0 then fst (list_step op xs) else xs))"

text \<open>
  Plenty: memory is never refused, and the array stays far below the limit of its size: with indexes
  up to \<open>2 ^ 59\<close> it has at most \<open>2 ^ 60\<close> cells after doubling, of the less than \<open>2 ^ 61\<close> that a
  \<open>size_t\<close> of bytes allows.
\<close>

fun op_index :: "'a array_op \<Rightarrow> nat" where
  "op_index (OpPut i p) = i"
| "op_index _ = 0"

definition plenty :: "(nat \<Rightarrow> bool) \<Rightarrow> 'a array_list \<Rightarrow> 'a array_op list \<Rightarrow> bool" where
  "plenty alloc arr ops \<longleftrightarrow> (\<forall>n. alloc n) \<and> al_size arr \<le> 2 ^ 60 \<and> al_length arr + length ops \<le> 2 ^ 59 \<and>
     (\<forall>op \<in> set ops. op_index op + length ops \<le> 2 ^ 59)"

lemma expand_plenty:
  assumes "\<forall>n. alloc n" "al_size arr \<le> 2 ^ 60" "mx \<le> 2 ^ 59" and "array_list_expand_internal alloc arr mx = (ret, arr')"
  shows "ret = 0 \<and> al_size arr' \<le> 2 ^ 60"
  using assms
  by (auto simp: array_list_expand_internal_def grown_size_def realloc_cells_def Let_def split: if_splits)

lemma set_cells_size: "set_cells arr i ps = Inr arr' \<Longrightarrow> al_size arr' = al_size arr"
  by (auto simp: set_cells_def split: if_splits)

lemma step_rep:
  assumes "al_rep arr xs"
  shows "\<exists>r arr' fs. array_step alloc op arr = Inr (r, arr', fs) \<and>
     (r = 0 \<and> al_rep arr' (fst (list_step op xs)) \<and> fs = snd (list_step op xs) \<or> r = -1 \<and> arr' = arr \<and> fs = [])"
proof (cases op)
  case (OpAdd p)
  then show ?thesis using add_rep [OF assms, of alloc p] by auto
next
  case (OpPut i p)
  then show ?thesis using put_idx_rep [OF assms, of alloc i p] by auto
next
  case (OpDel i n)
  then show ?thesis using del_idx_rep [OF assms, of i n] by (auto split: if_splits)
qed

lemma put_idx_size:
  assumes "array_list_put_idx alloc arr i p = Inr (r, arr', fs)"
    and "\<forall>n. alloc n" "al_size arr \<le> 2 ^ 60" "i < 2 ^ 59"
  shows "r = 0 \<and> al_size arr' \<le> 2 ^ 60"
proof -
  obtain ret arr1 where e: "array_list_expand_internal alloc arr (i + 1) = (ret, arr1)" by fastforce
  have 1: "ret = 0" "al_size arr1 \<le> 2 ^ 60" using expand_plenty [OF assms(2,3) _ e] assms(4) by auto
  have "i \<le> SIZE_T_MAX - 1" using assms(4) by simp
  with assms(1) e 1 show ?thesis
    by (auto simp: array_list_put_idx_def run_simps dest!: set_cells_size split: if_splits)
qed

lemma add_size:
  assumes "array_list_add alloc arr p = Inr (r, arr')"
    and "\<forall>n. alloc n" "al_size arr \<le> 2 ^ 60" "al_length arr < 2 ^ 59"
  shows "r = 0 \<and> al_size arr' \<le> 2 ^ 60"
proof -
  obtain ret arr1 where e: "array_list_expand_internal alloc arr (al_length arr + 1) = (ret, arr1)" by fastforce
  have 1: "ret = 0" "al_size arr1 \<le> 2 ^ 60" using expand_plenty [OF assms(2,3) _ e] assms(4) by auto
  have "al_length arr \<le> SIZE_T_MAX - 1" using assms(4) by simp
  with assms(1) e 1 show ?thesis
    by (auto simp: array_list_add_def run_simps Let_def dest!: set_cells_size split: if_splits)
qed

lemma del_idx_size: "array_list_del_idx arr i n = Inr (r, arr', fs) \<Longrightarrow> al_size arr' = al_size arr"
  by (auto simp: array_list_del_idx_def run_simps Let_def split: if_splits)

text \<open>The return code of a step, and that there is still plenty for the others.\<close>

lemma step_code:
  assumes rep: "al_rep arr xs" and step: "array_step alloc op arr = Inr (r, arr', fs)"
  shows "code_ok (plenty alloc arr (op # ops)) op r xs \<and> (plenty alloc arr (op # ops) \<longrightarrow> plenty alloc arr' ops)"
proof (cases op)
  case (OpAdd p)
  have len: "al_length arr' \<le> al_length arr + 1"
    using add_rep [OF rep, of alloc p] step OpAdd rep by (auto simp: al_rep_def)
  show ?thesis using step OpAdd add_rep [OF rep, of alloc p] add_size [of alloc arr p r arr'] len
    by (cases "\<forall>n. alloc n") (auto simp: plenty_def run_simps)
next
  case (OpPut i p)
  have len: "al_length arr' \<le> max (al_length arr) (i + 1)"
    using put_idx_rep [OF rep, of alloc i p] step OpPut rep by (auto simp: al_rep_def put_list_def split: if_splits)
  show ?thesis using step OpPut put_idx_rep [OF rep, of alloc i p] put_idx_size [of alloc arr i p r arr' fs] len
    by (cases "\<forall>n. alloc n") (auto simp: plenty_def)
next
  case (OpDel i n)
  have len: "al_length arr' \<le> al_length arr"
    using del_idx_rep [OF rep, of i n] step OpDel rep by (auto simp: al_rep_def split: if_splits)
  show ?thesis using step OpDel del_idx_rep [OF rep, of i n] del_idx_size [of arr i n r arr' fs] len
    by (auto simp: plenty_def split: if_splits)
qed

lemma codes_ok_mono: "codes_ok p ops rs xs \<Longrightarrow> (q \<Longrightarrow> p) \<Longrightarrow> codes_ok q ops rs xs"
proof (induction p ops rs xs rule: codes_ok.induct)
  case (3 p op ops r rs xs)
  then show ?case by (cases op) auto
qed simp_all

text \<open>
  C25. The growing array refines a list: every sequence of additions, replacements and deletions runs without an
  access outside the array or to a cell that was never written, releases exactly the elements the same changes of a
  list drop, and afterwards every index reads what the list holds there, and \<open>NULL\<close> beyond its end.  A deletion returns
  0 when its range is inside the list and -1 otherwise; while memory is not refused and indexes stay within \<open>2 ^ 59\<close>
  every addition and replacement returns 0, and what is refused for lack of memory changes nothing.
\<close>

theorem array_list_refines:
  assumes "al_rep arr xs"
  shows "\<exists>rs arr'. array_run alloc ops arr = Inr (rs, arr', snd (list_run ops rs xs)) \<and>
     codes_ok (plenty alloc arr ops) ops rs xs \<and> al_rep arr' (fst (list_run ops rs xs)) \<and>
     (\<forall>i. array_list_get arr' i = Inr (if i < length (fst (list_run ops rs xs)) then fst (list_run ops rs xs) ! i else None))"
proof -
  have "\<exists>rs arr'. array_run alloc ops arr = Inr (rs, arr', snd (list_run ops rs xs)) \<and>
     codes_ok (plenty alloc arr ops) ops rs xs \<and> al_rep arr' (fst (list_run ops rs xs))"
    using assms
  proof (induction ops arbitrary: arr xs)
    case (Cons op ops)
    obtain r arr1 fs where 1: "array_step alloc op arr = Inr (r, arr1, fs)"
        "r = 0 \<and> al_rep arr1 (fst (list_step op xs)) \<and> fs = snd (list_step op xs) \<or> r = -1 \<and> arr1 = arr \<and> fs = []"
      using step_rep [OF Cons.prems, of alloc op] by blast
    note code = step_code [OF Cons.prems 1(1), of ops]
    let ?ys = "if r = 0 then fst (list_step op xs) else xs"
    have "al_rep arr1 ?ys" using 1(2) Cons.prems by auto
    from Cons.IH [OF this] obtain rs arr2 where 2: "array_run alloc ops arr1 = Inr (rs, arr2, snd (list_run ops rs ?ys))"
        "codes_ok (plenty alloc arr1 ops) ops rs ?ys" "al_rep arr2 (fst (list_run ops rs ?ys))" by blast
    have "codes_ok (plenty alloc arr (op # ops)) ops rs ?ys" using 2(2) code by (blast intro: codes_ok_mono)
    with 1 2 code show ?case by (intro exI [of _ "r # rs"] exI [of _ arr2]) (auto simp: case_prod_unfold)
  qed simp
  then show ?thesis using get_rep by blast
qed

definition demo_array :: "nat array_list" where
  "demo_array = \<lparr> al_array = [None], al_length = 0, al_size = 1 \<rparr>"

text \<open>An addition, a replacement beyond the end, a deletion and one that is out of range.\<close>

theorem array_list_refines_witness:
  "\<exists>arr'. array_run (\<lambda>_. True) [OpAdd (Some 7), OpPut 2 (Some 9), OpDel 0 1, OpDel 1 5] demo_array =
     Inr ([0, 0, 0, -1], arr', [7]) \<and> array_list_get arr' 0 = Inr None \<and> array_list_get arr' 1 = Inr (Some 9)"
proof -
  let ?ops = "[OpAdd (Some 7), OpPut 2 (Some 9), OpDel 0 1, OpDel 1 5] :: nat array_op list"
  have "al_rep demo_array []" by (simp add: al_rep_def demo_array_def)
  from array_list_refines [OF this, of "\<lambda>_. True" ?ops] obtain rs arr' where
      r: "array_run (\<lambda>_. True) ?ops demo_array = Inr (rs, arr', snd (list_run ?ops rs []))"
      "codes_ok (plenty (\<lambda>_. True) demo_array ?ops) ?ops rs []"
      "\<forall>i. array_list_get arr' i = Inr (if i < length (fst (list_run ?ops rs [])) then fst (list_run ?ops rs []) ! i else None)"
    by blast
  have "plenty (\<lambda>_. True) demo_array ?ops" by (simp add: plenty_def demo_array_def)
  with r(2) obtain a b c d where "rs = [a, b, c, d]" "a = 0" "b = 0" "c = 0" "d = -1"
    by (cases rs; cases "tl rs"; cases "tl (tl rs)"; cases "tl (tl (tl rs))"; cases "tl (tl (tl (tl rs)))")
      (auto simp: put_list_def)
  with r show ?thesis by (auto simp: put_list_def numeral_2_eq_2)
qed

end
