(* ===== verification/Json_Table.thy ===== *)
theory Json_Table
  imports Linkhash_Rep Arraylist Json_Object
begin

text \<open>
  The objects of \<open>json_object.c\<close> over the hash table that holds them.  \<open>Json_Object\<close> describes an object
  by the list of its members; the theorem here shows that the functions of json-c on the hash table do
  to the table what the functions there do to the list, whatever the hash function is.
\<close>

type_synonym jtable = "(bytes, json_object) lh_table"

definition lh_kchar_table_new :: "(nat \<Rightarrow> bool) \<Rightarrow> nat \<Rightarrow> bool \<Rightarrow> (bytes \<Rightarrow> u64) \<Rightarrow> jtable option res" where
  "lh_kchar_table_new alloc sz free_fn char_hash_fn = lh_table_new alloc sz free_fn char_hash_fn"

definition object_table_new :: "(nat \<Rightarrow> bool) \<Rightarrow> (bytes \<Rightarrow> u64) \<Rightarrow> jtable option res" where
  "object_table_new alloc char_hash_fn = lh_kchar_table_new alloc 16 True char_hash_fn"

text \<open>
  \<open>json_object_object_add_ex\<close>.  \<open>dup\<close> says whether \<open>strdup\<close> has memory, \<open>self\<close> whether the value is the object itself;
  \<open>add_new\<close> and \<open>const\<close> are the two flags of \<open>opts\<close>.  The last part of the result is the value that is released.
\<close>

record add_env =
  ae_alloc :: "nat \<Rightarrow> bool"
  ae_dup :: bool
  ae_self :: bool

definition object_add_ex :: "add_env \<Rightarrow> bool \<Rightarrow> bool \<Rightarrow> jtable \<Rightarrow> bytes \<Rightarrow> json \<Rightarrow> (int \<times> jtable \<times> json) res" where
  "object_add_ex env add_new const t key val =
     (let hash = lh_get_hash t (cstr key) in
      ebind (if add_new then Inr None else lh_table_lookup_entry_w_hash t (cstr key) hash) (\<lambda>existing_entry.
      if ae_self env then Inr (-1, t, None)
      else case existing_entry of
        None \<Rightarrow>
          if \<not> const \<and> \<not> ae_dup env then Inr (-1, t, None)
          else ebind (lh_table_insert_w_hash LH_DEPTH (ae_alloc env) t (cstr key) val hash const) (\<lambda>(ret, t). Inr (ret, t, None))
      | Some i \<Rightarrow>
          ebind (slot_at (lt_table t) i) (\<lambda>e.
          Inr (0, t\<lparr> lt_table := (lt_table t)[i := e\<lparr> lhe_v := val \<rparr>] \<rparr>, lhe_v e))))"

definition object_get_ex :: "jtable \<Rightarrow> bytes \<Rightarrow> json option res" where
  "object_get_ex t key = lh_table_lookup_ex t (cstr key)"

text \<open>The members in the order in which \<open>json_object_object_foreach\<close> visits them.\<close>

definition object_members :: "jtable \<Rightarrow> (bytes \<times> json) list res" where
  "object_members t =
     ebind (lh_foreach (Suc (length (lt_table t))) (lt_table t) (lt_head t)) (\<lambda>es. Inr (map (\<lambda>e. (entry_key e, lhe_v e)) es))"

fun object_adds :: "add_env \<Rightarrow> (bytes \<times> json) list \<Rightarrow> jtable \<Rightarrow> jtable res" where
  "object_adds env [] t = Inr t"
| "object_adds env ((key, val) # kvs) t =
     ebind (object_add_ex env False False t key val) (\<lambda>(ret, t, old). object_adds env kvs t)"

section \<open>Replacing a value\<close>

lemma jtable_put_old:
  "distinct (map fst es) \<Longrightarrow> k \<in> fst ` set es \<Longrightarrow> jtable_put k v es = map (\<lambda>p. if fst p = k then (k, v) else p) es"
proof (induction k v es rule: jtable_put.induct)
  case (2 k v k' v' es)
  have "map (\<lambda>p. if fst p = k then (k, v) else p) es = es" if "k \<notin> fst ` set es"
    using that by (force intro!: map_idI)
  with 2 show ?case by auto
qed simp

lemma replace_rep:
  assumes rep: "lh_rep t is" and i: "i \<in> set is"
  shows "lh_rep (t\<lparr> lt_table := (lt_table t)[i := (lt_table t ! i)\<lparr> lhe_v := v \<rparr>] \<rparr>) is"
proof -
  let ?tbl = "lt_table t" and ?tbl' = "(lt_table t)[i := (lt_table t ! i)\<lparr> lhe_v := v \<rparr>]"
  have bound: "i < length ?tbl" by (rule rep_bound [OF rep i])
  have same: "lhe_k (?tbl' ! j) = lhe_k (?tbl ! j)" "lhe_next (?tbl' ! j) = lhe_next (?tbl ! j)"
      "lhe_prev (?tbl' ! j) = lhe_prev (?tbl ! j)" for j
    using bound by (cases "j = i", simp_all)+
  then have keys: "entry_key (?tbl' ! j) = entry_key (?tbl ! j)" "occupied (?tbl' ! j) = occupied (?tbl ! j)" for j
    by (simp_all add: entry_key_def occupied.simps)
  have "dseg ?tbl' None (lt_head t) is (lt_tail t) None = dseg ?tbl None (lt_head t) is (lt_tail t) None"
    by (rule dseg_frame) (simp_all add: same)
  moreover have "probed (lt_hash_fn t) ?tbl' j = probed (lt_hash_fn t) ?tbl j" for j
    unfolding probed_def by (simp add: keys same)
  ultimately show ?thesis using rep unfolding lh_rep_def by (auto simp: keys)
qed

lemma replace_pairs:
  assumes rep: "lh_rep t is" and i: "i \<in> set is" "entry_key (lt_table t ! i) = k"
  shows "map (pair_at ((lt_table t)[i := (lt_table t ! i)\<lparr> lhe_v := v \<rparr>])) is =
     jtable_put k v (map (pair_at (lt_table t)) is)"
proof -
  let ?tbl = "lt_table t"
  have b: "i < length ?tbl" by (rule rep_bound [OF rep i(1)])
  have "pair_at (?tbl[i := (?tbl ! i)\<lparr> lhe_v := v \<rparr>]) j = (if fst (pair_at ?tbl j) = k then (k, v) else pair_at ?tbl j)"
    if j: "j \<in> set is" for j
  proof (cases "j = i")
    case True
    then show ?thesis using b i(2) by (simp add: pair_at_def entry_key_def)
  next
    case False
    then have "entry_key (?tbl ! j) \<noteq> k" using rep_inj [OF rep] i j by (auto simp: inj_on_def)
    then show ?thesis using False by (simp add: pair_at_def)
  qed
  moreover have "distinct (map fst (map (pair_at ?tbl) is))" using rep by (intro pairs_distinct) (auto simp: lh_pairs_def)
  moreover have "k \<in> fst ` set (map (pair_at ?tbl) is)" using i unfolding pairs_key by blast
  ultimately show ?thesis by (simp add: jtable_put_old)
qed

section \<open>Adding members\<close>

lemma add_pairs:
  assumes pairs: "lh_pairs t es" and env: "\<not> ae_self env" "ae_dup env" "lh_room (ae_alloc env) t"
  shows "\<exists>t' old. object_add_ex env False False t key val = Inr (0, t', old) \<and> lh_pairs t' (jtable_put (cstr key) val es) \<and>
     grown_from t t'"
proof (cases "cstr key \<in> fst ` set es")
  case True
  obtain "is" where rep: "lh_rep t is" and es: "es = map (pair_at (lt_table t)) is" using pairs by (auto simp: lh_pairs_def)
  obtain i where i: "i \<in> set is" "entry_key (lt_table t ! i) = cstr key" using True unfolding es pairs_key by blast
  let ?t = "t\<lparr> lt_table := (lt_table t)[i := (lt_table t ! i)\<lparr> lhe_v := val \<rparr>] \<rparr>"
  have "object_add_ex env False False t key val = Inr (0, ?t, lhe_v (lt_table t ! i))"
    using lookup_present [OF rep i] env(1) rep_bound [OF rep i(1)]
    by (simp add: object_add_ex_def lh_table_lookup_entry_def slot_at_def Let_def)
  moreover have "lh_pairs ?t (jtable_put (cstr key) val es)"
    unfolding lh_pairs_def es replace_pairs [OF rep i, symmetric] using replace_rep [OF rep i(1)] by auto
  ultimately show ?thesis by (auto simp: grown_from_def)
next
  case False
  then obtain "is" where r: "lh_rep t is" "\<forall>i \<in> set is. entry_key (lt_table t ! i) \<noteq> cstr key"
    using pairs_fresh [OF pairs False] by blast
  obtain t' where "lh_table_insert_w_hash (Suc (Suc 31)) (ae_alloc env) t (cstr key) val (lt_hash_fn t (cstr key)) False = Inr (0, t')"
      "lh_pairs t' (es @ [(cstr key, val)])" "grown_from t t'"
    using insert_pairs [OF pairs False, of 31 "ae_alloc env" val False] env(3) by blast
  then show ?thesis using lookup_absent [OF r] env False
    by (simp add: object_add_ex_def lh_table_lookup_entry_def Let_def lh_get_hash_def LH_DEPTH_def jtable_put_new
        del: lh_table_insert_w_hash.simps)
qed

text \<open>A table that was never deleted from is not bigger than its members need.\<close>

definition tight :: "('k, 'v) lh_table \<Rightarrow> bool" where
  "tight t \<longleftrightarrow> lt_size t \<le> 16 \<or> 33 * lt_size t \<le> 100 * lt_count t"

lemma tight_room: "tight t \<Longrightarrow> lt_count t \<le> 300000000 \<Longrightarrow> \<forall>n. alloc n \<Longrightarrow> lh_room alloc t"
  by (auto simp: tight_def lh_room_def)

lemma tight_grown: "tight t \<Longrightarrow> grown_from t t' \<Longrightarrow> lt_count t \<le> lt_count t' \<Longrightarrow> tight t'"
  by (auto simp: tight_def grown_from_def)

lemma length_jtable_put: "length es \<le> length (jtable_put k v es) \<and> length (jtable_put k v es) \<le> Suc (length es)"
  by (induction k v es rule: jtable_put.induct) auto

lemma adds_pairs:
  assumes "lh_pairs t es" "tight t" "length es + length kvs \<le> 300000000"
    and env: "\<not> ae_self env" "ae_dup env" "\<forall>n. ae_alloc env n"
  shows "\<exists>t'. object_adds env kvs t = Inr t' \<and> lh_pairs t' (fold (\<lambda>(k, v). jtable_put (cstr k) v) kvs es)"
  using assms(1-3)
proof (induction kvs arbitrary: t es)
  case (Cons kv kvs)
  obtain k v where kv: "kv = (k, v)" by fastforce
  have "lh_room (ae_alloc env) t"
    using tight_room [OF Cons.prems(2)] Cons.prems(3) pairs_count [OF Cons.prems(1)] env(3) by simp
  then obtain t' old where t': "object_add_ex env False False t k v = Inr (0, t', old)" "lh_pairs t' (jtable_put (cstr k) v es)" "grown_from t t'"
    using add_pairs [OF Cons.prems(1) env(1,2), of k v] by blast
  have "lt_count t \<le> lt_count t'" using pairs_count [OF Cons.prems(1)] pairs_count [OF t'(2)] length_jtable_put by metis
  from Cons.IH [OF t'(2) tight_grown [OF Cons.prems(2) t'(3) this]] length_jtable_put [of es "cstr k" v] Cons.prems(3)
  show ?case using t'(1) by (simp add: kv)
qed simp

lemma members_pairs: "lh_pairs t es \<Longrightarrow> object_members t = Inr es"
proof -
  assume "lh_pairs t es"
  then obtain "is" where rep: "lh_rep t is" and es: "es = map (pair_at (lt_table t)) is" by (auto simp: lh_pairs_def)
  have "dseg (lt_table t) None (lt_head t) is (lt_tail t) None" using rep unfolding lh_rep_def by blast
  moreover have "length is < Suc (length (lt_table t))" using rep_count [OF rep] rep by (simp add: lh_rep_def)
  ultimately show ?thesis using foreach_seg by (force simp: object_members_def es pair_at_def)
qed

text \<open>
  C5. The hash table refines the list of members: whatever keys and values are added to a fresh object, in
  whatever order and with whatever repetitions, and whatever the hash function is, the table, which grows and probes and
  replaces on the way, afterwards answers every lookup as the list does that the model of
  documents uses, has as many entries, and lists them in the same order; as long as there is memory, for up to
  300 million additions.
\<close>

theorem object_table_refines:
  assumes "length kvs \<le> 300000000" and "\<not> ae_self env" "ae_dup env" "\<forall>n. ae_alloc env n"
    and "es = fold (\<lambda>(k, v). jtable_put (cstr k) v) kvs []"
  shows "\<exists>t t'. object_table_new (ae_alloc env) h = Inr (Some t) \<and> object_adds env kvs t = Inr t' \<and>
     (\<forall>key. object_get_ex t' key = Inr (json_object_object_get_ex (Some (JObj es)) key)) \<and>
     lh_table_length t' = length es \<and> object_members t' = Inr es"
proof -
  have "\<exists>t. lh_table_new (ae_alloc env) 16 True h = Inr (Some t) \<and> lh_pairs t [] \<and> lt_size t = 16 \<and> lt_hash_fn t = h \<and> lt_free_fn t = True"
    by (rule new_pairs) (use assms(4) in simp_all)
  then obtain t where t: "object_table_new (ae_alloc env) h = Inr (Some t)" "lh_pairs t []" "lt_size t = 16"
    by (auto simp: object_table_new_def lh_kchar_table_new_def)
  have "tight t" using t(3) by (simp add: tight_def)
  from adds_pairs [OF t(2) this _ assms(2-4), of kvs] assms(1,5)
  obtain t' where t': "object_adds env kvs t = Inr t'" "lh_pairs t' es" by auto
  show ?thesis using t(1) t' lookup_ex_pairs [OF t'(2)] members_pairs [OF t'(2)] pairs_count [OF t'(2)]
    by (auto simp: object_get_ex_def lh_table_length_def)
qed

definition demo_add :: add_env where "demo_add = \<lparr> ae_alloc = (\<lambda>_. True), ae_dup = True, ae_self = False \<rparr>"

theorem object_table_refines_witness:
  "\<exists>t t'. object_table_new (ae_alloc demo_add) (\<lambda>k. 5) = Inr (Some t) \<and>
     object_adds demo_add [(''a'', None), (''b'', Some (JBool True)), (''a'', Some (JStr ''x''))] t = Inr t' \<and>
     object_get_ex t' ''a'' = Inr (Some (Some (JStr ''x''))) \<and> object_members t' = Inr [(''a'', Some (JStr ''x'')), (''b'', Some (JBool True))]"
proof -
  let ?kvs = "[(''a'', None), (''b'', Some (JBool True)), (''a'', Some (JStr ''x''))]"
  let ?es = "[(''a'', Some (JStr ''x'')), (''b'', Some (JBool True))]"
  have "\<exists>t t'. object_table_new (ae_alloc demo_add) (\<lambda>k. 5) = Inr (Some t) \<and> object_adds demo_add ?kvs t = Inr t' \<and>
     (\<forall>key. object_get_ex t' key = Inr (json_object_object_get_ex (Some (JObj ?es)) key)) \<and>
     lh_table_length t' = length ?es \<and> object_members t' = Inr ?es"
    by (rule object_table_refines) (simp_all add: demo_add_def cstr_def NUL_def)
  then show ?thesis by (auto simp: cstr_def NUL_def)
qed

end
