(* ===== verification/Printbuf.thy ===== *)
theory Printbuf
  imports Gw_Prelude
begin

text \<open>
  The output buffer of json-c (\<open>printbuf.c\<close>, \<open>printbuf.h\<close>).  \<open>bpos\<close> and \<open>size\<close> are of type \<open>int\<close>, and the code
  must not let them overflow.  \<open>pe_alloc n\<close> says whether there is memory for \<open>n\<close> bytes, and \<open>pe_junk\<close> is
  what fresh memory holds.
\<close>

section \<open>Operations\<close>

abbreviation (input) PB_MAX :: nat where "PB_MAX \<equiv> 0x7fffffff"

record pb_env =
  pe_alloc :: "nat \<Rightarrow> bool"
  pe_junk :: "nat \<Rightarrow> char"

record printbuf =
  pb_buf :: bytes
  pb_bpos :: nat
  pb_size :: nat

definition junk :: "pb_env \<Rightarrow> nat \<Rightarrow> nat \<Rightarrow> bytes" where
  "junk env i j = map (pe_junk env) [i..<j]"

definition printbuf_new :: "pb_env \<Rightarrow> printbuf option res" where
  "printbuf_new env =
     (if \<not> pe_alloc env 32 then Inr None
      else ebind (buf_set (junk env 0 32) 0 NUL) (\<lambda>buf. Inr (Some \<lparr> pb_buf = buf, pb_bpos = 0, pb_size = 32 \<rparr>)))"

definition printbuf_extend :: "pb_env \<Rightarrow> printbuf \<Rightarrow> nat \<Rightarrow> int \<times> printbuf" where
  "printbuf_extend env p min_size =
     (if min_size \<le> pb_size p then (0, p)
      else if PB_MAX - 8 < min_size then (-1, p)
      else
        let new_size = (if PB_MAX div 2 < pb_size p then min_size + 8
                        else if pb_size p * 2 < min_size + 8 then min_size + 8 else pb_size p * 2)
        in if \<not> pe_alloc env new_size then (-1, p)
           else (0, p\<lparr> pb_size := new_size, pb_buf := pb_buf p @ junk env (length (pb_buf p)) new_size \<rparr>))"

text \<open>The test \<open>size > INT_MAX - p->bpos - 1\<close> is written as a sum.\<close>

definition printbuf_memappend :: "pb_env \<Rightarrow> printbuf \<Rightarrow> bytes \<Rightarrow> (int \<times> printbuf) res" where
  "printbuf_memappend env p buf =
     (let sz = length buf in
      if PB_MAX < pb_bpos p + sz + 1 then Inr (-1, p)
      else
        case (if pb_size p \<le> pb_bpos p + sz + 1 then printbuf_extend env p (pb_bpos p + sz + 1) else (0, p)) of (ret, p) \<Rightarrow>
        if ret < 0 then Inr (-1, p)
        else
          ebind (buf_put (pb_buf p) (pb_bpos p) buf) (\<lambda>b.
          ebind (buf_set b (pb_bpos p + sz) NUL) (\<lambda>b.
          Inr (int sz, p\<lparr> pb_buf := b, pb_bpos := pb_bpos p + sz \<rparr>))))"

definition printbuf_memappend_fast :: "pb_env \<Rightarrow> printbuf \<Rightarrow> bytes \<Rightarrow> printbuf res" where
  "printbuf_memappend_fast env p buf =
     (if length buf < pb_size p - pb_bpos p then
        ebind (buf_put (pb_buf p) (pb_bpos p) buf) (\<lambda>b.
        ebind (buf_set b (pb_bpos p + length buf) NUL) (\<lambda>b.
        Inr (p\<lparr> pb_buf := b, pb_bpos := pb_bpos p + length buf \<rparr>)))
      else ebind (printbuf_memappend env p buf) (\<lambda>(_, p). Inr p))"

definition printbuf_memset :: "pb_env \<Rightarrow> printbuf \<Rightarrow> int \<Rightarrow> char \<Rightarrow> nat \<Rightarrow> (int \<times> printbuf) res" where
  "printbuf_memset env p offset charvalue len =
     (let offset = (if offset = -1 then int (pb_bpos p) else offset) in
      if offset < 0 then Inl OutOfBounds
      else if PB_MAX < nat offset + len then Inr (-1, p)
      else
        case (if pb_size p < nat offset + len then printbuf_extend env p (nat offset + len) else (0, p)) of (ret, p) \<Rightarrow>
        if ret < 0 then Inr (-1, p)
        else
          ebind (buf_put (pb_buf p) (nat offset) (replicate len charvalue)) (\<lambda>b.
          Inr (0, p\<lparr> pb_buf := b, pb_bpos := max (pb_bpos p) (nat offset + len) \<rparr>)))"

text \<open>\<open>out\<close> is what the format and its arguments print, which \<open>vsnprintf\<close> never refuses; above 127 bytes it needs memory of its own.\<close>

definition sprintbuf :: "pb_env \<Rightarrow> printbuf \<Rightarrow> bytes \<Rightarrow> (int \<times> printbuf) res" where
  "sprintbuf env p out =
     (if 127 < length out \<and> \<not> pe_alloc env (length out + 1) then Inr (-1, p)
      else ebind (printbuf_memappend env p out) (\<lambda>(_, p). Inr (int (length out), p)))"

definition printbuf_reset :: "printbuf \<Rightarrow> printbuf res" where
  "printbuf_reset p = ebind (buf_set (pb_buf p) 0 NUL) (\<lambda>b. Inr (p\<lparr> pb_buf := b, pb_bpos := 0 \<rparr>))"

section \<open>The text it holds\<close>

definition pb_holds :: "printbuf \<Rightarrow> bytes \<Rightarrow> bool" where
  "pb_holds p s \<longleftrightarrow> pb_size p = length (pb_buf p) \<and> 0 < pb_size p \<and> pb_size p \<le> PB_MAX \<and> pb_bpos p = length s \<and>
     length s \<le> pb_size p \<and> take (length s) (pb_buf p) = s"

text \<open>Terminated, too, as every function but \<open>printbuf_memset\<close> leaves it.\<close>

definition pb_string :: "printbuf \<Rightarrow> bytes \<Rightarrow> bool" where
  "pb_string p s \<longleftrightarrow> pb_holds p s \<and> length s < pb_size p \<and> pb_buf p ! length s = NUL"

lemma string_holds: "pb_string p s \<Longrightarrow> pb_holds p s"
  by (simp add: pb_string_def)

lemma string_cstr: "pb_string p s \<Longrightarrow> NUL \<notin> set s \<Longrightarrow> cstr (pb_buf p) = s"
proof -
  assume a: "pb_string p s" "NUL \<notin> set s"
  have "length s < length (pb_buf p)" using a(1) by (simp add: pb_string_def pb_holds_def)
  from id_take_nth_drop [OF this] have "pb_buf p = s @ NUL # drop (Suc (length s)) (pb_buf p)"
    using a(1) by (simp add: pb_string_def pb_holds_def)
  then have "cstr (pb_buf p) = cstr (s @ NUL # drop (Suc (length s)) (pb_buf p))" by (rule arg_cong)
  also have "\<dots> = s" using a(2) by (auto simp: cstr_def takeWhile_append takeWhile_eq_all_conv)
  finally show ?thesis .
qed

lemma new_string: "pe_alloc env 32 \<Longrightarrow> \<exists>p. printbuf_new env = Inr (Some p) \<and> pb_string p []"
  by (auto simp: printbuf_new_def junk_def buf_set_def pb_string_def pb_holds_def)

lemma extend_holds:
  assumes "pb_holds p s" "printbuf_extend env p n = (ret, p')"
  shows "pb_holds p' s \<and> (ret = 0 \<and> n \<le> pb_size p' \<or> ret = -1 \<and> p' = p \<and> (PB_MAX - 8 < n \<or> (\<exists>k. \<not> pe_alloc env k)))"
  using assms by (auto simp: printbuf_extend_def pb_holds_def Let_def junk_def split: if_splits)

lemma write_string:
  assumes "pb_holds p s" "length s + length t < pb_size p"
  shows "\<exists>b c. buf_put (pb_buf p) (pb_bpos p) t = Inr b \<and> buf_set b (pb_bpos p + length t) NUL = Inr c \<and>
     pb_string (p\<lparr> pb_buf := c, pb_bpos := pb_bpos p + length t \<rparr>) (s @ t)"
  using assms by (auto simp: buf_put_def buf_set_def pb_holds_def pb_string_def nth_append)

lemma memappend_string:
  assumes "pb_holds p s"
  shows "(\<exists>p'. printbuf_memappend env p t = Inr (int (length t), p') \<and> pb_string p' (s @ t)) \<or>
     printbuf_memappend env p t = Inr (-1, p) \<and> (PB_MAX - 8 < length s + length t + 1 \<or> (\<exists>k. \<not> pe_alloc env k))"
proof -
  let ?n = "length s + length t + 1"
  have bp: "pb_bpos p = length s" using assms by (simp add: pb_holds_def)
  obtain ret p1 where e: "(if pb_size p \<le> ?n then printbuf_extend env p ?n else (0, p)) = (ret, p1)" by fastforce
  then have e1: "pb_holds p1 s \<and> (ret = 0 \<and> ?n \<le> pb_size p1 \<or> ret = -1 \<and> p1 = p \<and> (PB_MAX - 8 < ?n \<or> (\<exists>k. \<not> pe_alloc env k)))"
    using assms extend_holds [OF assms, of env ?n] by (auto split: if_splits)
  show ?thesis
  proof (cases "PB_MAX < ?n \<or> ret = -1")
    case True
    then show ?thesis using e e1 bp by (auto simp: printbuf_memappend_def Let_def)
  next
    case False
    then have "length s + length t < pb_size p1" "ret = 0" "pb_bpos p1 = length s" using e1 by (auto simp: pb_holds_def)
    then show ?thesis using e e1 bp False write_string [of p1 s t] by (auto simp: printbuf_memappend_def Let_def)
  qed
qed

text \<open>
  C27. The macro \<open>printbuf_memappend_fast\<close>, which copies without a call while there is room, does exactly what
  \<open>printbuf_memappend\<close> does, for every buffer and text.
\<close>

theorem memappend_fast_same:
  assumes "pb_holds p s"
  shows "printbuf_memappend_fast env p t = ebind (printbuf_memappend env p t) (\<lambda>(_, p). Inr p)"
proof (cases "length t < pb_size p - pb_bpos p")
  case True
  then have "\<not> PB_MAX < pb_bpos p + length t + 1" "pb_bpos p + length t + 1 \<le> pb_size p" using assms by (auto simp: pb_holds_def)
  then show ?thesis using True
    by (simp add: printbuf_memappend_fast_def printbuf_memappend_def Let_def printbuf_extend_def ebind_assoc)
next
  case False
  then show ?thesis by (simp add: printbuf_memappend_fast_def)
qed

lemma memset_end:
  assumes "pb_holds p s"
  shows "(\<exists>p'. printbuf_memset env p (-1) c n = Inr (0, p') \<and> pb_holds p' (s @ replicate n c)) \<or>
     printbuf_memset env p (-1) c n = Inr (-1, p) \<and> (PB_MAX - 8 < length s + n \<or> (\<exists>k. \<not> pe_alloc env k))"
proof -
  let ?n = "length s + n"
  have bp: "pb_bpos p = length s" using assms by (simp add: pb_holds_def)
  obtain ret p1 where e: "(if pb_size p < ?n then printbuf_extend env p ?n else (0, p)) = (ret, p1)" by fastforce
  then have e1: "pb_holds p1 s \<and> (ret = 0 \<and> ?n \<le> pb_size p1 \<or> ret = -1 \<and> p1 = p \<and> (PB_MAX - 8 < ?n \<or> (\<exists>k. \<not> pe_alloc env k)))"
    using assms extend_holds [OF assms, of env ?n] by (auto split: if_splits)
  have run: "printbuf_memset env p (-1) c n =
      (if PB_MAX < ?n then Inr (-1, p) else if ret < 0 then Inr (-1, p1)
       else ebind (buf_put (pb_buf p1) (length s) (replicate n c)) (\<lambda>b.
            Inr (0, p1\<lparr> pb_buf := b, pb_bpos := max (pb_bpos p1) ?n \<rparr>)))"
    using e bp by (cases "pb_size p < ?n") (auto simp: printbuf_memset_def Let_def)
  show ?thesis using e1 unfolding run by (auto simp: buf_put_def pb_holds_def)
qed

section \<open>Printing in pieces\<close>

text \<open>What the printers of \<open>json_object.c\<close> do with their buffer: pieces of text, and indentation.\<close>

datatype pb_piece = Piece bytes | Indent char nat

fun pb_emit :: "pb_env \<Rightarrow> pb_piece \<Rightarrow> printbuf \<Rightarrow> (int \<times> printbuf) res" where
  "pb_emit env (Piece t) p = printbuf_memappend env p t"
| "pb_emit env (Indent c n) p = printbuf_memset env p (-1) c n"

fun pb_run :: "pb_env \<Rightarrow> pb_piece list \<Rightarrow> printbuf \<Rightarrow> printbuf res" where
  "pb_run env [] p = Inr p"
| "pb_run env (x # xs) p = ebind (pb_emit env x p) (\<lambda>(_, p). pb_run env xs p)"

fun piece_text :: "pb_piece \<Rightarrow> bytes" where
  "piece_text (Piece t) = t"
| "piece_text (Indent c n) = replicate n c"

lemma emit_holds:
  assumes "pb_holds p s" "\<And>k. pe_alloc env k" "length s + length (piece_text x) + 9 \<le> PB_MAX"
  shows "\<exists>r p'. pb_emit env x p = Inr (r, p') \<and> pb_holds p' (s @ piece_text x)"
  using assms memappend_string [OF assms(1), of env] memset_end [OF assms(1), of env]
  by (cases x) (fastforce dest: string_holds)+

lemma run_holds:
  assumes "pb_holds p s" "\<And>k. pe_alloc env k" "length s + length (concat (map piece_text xs)) + 9 \<le> PB_MAX"
  shows "\<exists>p'. pb_run env xs p = Inr p' \<and> pb_holds p' (s @ concat (map piece_text xs))"
  using assms(1,3)
proof (induction xs arbitrary: p s)
  case (Cons x xs)
  obtain r p1 where "pb_emit env x p = Inr (r, p1)" "pb_holds p1 (s @ piece_text x)"
    using emit_holds [OF Cons.prems(1) assms(2), of x] Cons.prems(2) by auto
  with Cons.IH [of p1 "s @ piece_text x"] Cons.prems(2) show ?case by auto
qed simp

text \<open>
  C26. Whatever pieces of text and indentation the printer emits, a buffer that starts empty holds their
  concatenation as a C string once the last piece is text, as long as there is memory and the whole text stays 9
  bytes below \<open>INT_MAX\<close>; nothing is written outside the buffer while it grows.
\<close>

theorem printbuf_concat:
  assumes "\<And>k. pe_alloc env k" and "length (concat (map piece_text xs)) + length t + 9 \<le> PB_MAX"
    and "NUL \<notin> set (concat (map piece_text xs)) \<union> set t"
  shows "\<exists>p p'. printbuf_new env = Inr (Some p) \<and> pb_run env (xs @ [Piece t]) p = Inr p' \<and>
     cstr (pb_buf p') = concat (map piece_text xs) @ t \<and>
     pb_bpos p' = length (concat (map piece_text xs) @ t) \<and> pb_bpos p' < length (pb_buf p')"
proof -
  let ?s = "concat (map piece_text xs)"
  obtain p where p: "printbuf_new env = Inr (Some p)" "pb_string p []" using new_string assms(1) by blast
  obtain p1 where p1: "pb_run env xs p = Inr p1" "pb_holds p1 ?s"
    using run_holds [OF string_holds [OF p(2)] assms(1), of xs] assms(2) by auto
  obtain p2 where p2: "printbuf_memappend env p1 t = Inr (int (length t), p2)" "pb_string p2 (?s @ t)"
    using memappend_string [OF p1(2), of env t] assms(1,2) by auto
  have "pb_run env (xs @ [Piece t]) p = ebind (pb_run env xs p) (pb_run env [Piece t])"
    by (induction xs arbitrary: p) (auto simp: ebind_assoc case_prod_unfold)
  then have "pb_run env (xs @ [Piece t]) p = Inr p2" using p1(1) p2(1) by simp
  moreover have "cstr (pb_buf p2) = ?s @ t" using string_cstr [OF p2(2)] assms(3) by auto
  ultimately show ?thesis using p(1) p2(2) by (auto simp: pb_string_def pb_holds_def)
qed

definition demo_pb :: pb_env where "demo_pb = \<lparr> pe_alloc = (\<lambda>_. True), pe_junk = (\<lambda>_. CHR ''x'') \<rparr>"

theorem printbuf_concat_witness:
  "\<exists>p p'. printbuf_new demo_pb = Inr (Some p) \<and> pb_run demo_pb [Piece ''['', Indent CHR '' '' 60, Piece ''1]''] p = Inr p' \<and>
     cstr (pb_buf p') = CHR ''['' # replicate 60 (CHR '' '') @ ''1]''"
proof -
  have "\<exists>p p'. printbuf_new demo_pb = Inr (Some p) \<and> pb_run demo_pb ([Piece ''['', Indent CHR '' '' 60] @ [Piece ''1]'']) p = Inr p' \<and>
     cstr (pb_buf p') = concat (map piece_text [Piece ''['', Indent CHR '' '' 60]) @ ''1]'' \<and>
     pb_bpos p' = length (concat (map piece_text [Piece ''['', Indent CHR '' '' 60]) @ ''1]'') \<and> pb_bpos p' < length (pb_buf p')"
    by (rule printbuf_concat) (simp_all add: demo_pb_def NUL_def)
  then show ?thesis by auto
qed

theorem memappend_fast_same_witness:
  "printbuf_memappend_fast demo_pb \<lparr> pb_buf = [NUL], pb_bpos = 0, pb_size = 1 \<rparr> ''ab'' =
     ebind (printbuf_memappend demo_pb \<lparr> pb_buf = [NUL], pb_bpos = 0, pb_size = 1 \<rparr> ''ab'') (\<lambda>(_, p). Inr p)"
  by (rule memappend_fast_same [of _ "[]"]) (simp add: pb_holds_def)

end
