(* ===== verification/Tstack.thy ===== *)
theory Tstack
  imports Gw_Interfaces
begin

text \<open>
  The array stack of \<open>include/gwbot/lib/tstack.h\<close>: it grows from the high end of the
  array towards index 0, and the server keeps the indexes of its idle channels and
  workers in two of them.  The invariant is the one the \<open>TASSERT\<close>s of the code state,
  with the size of the array; the contents, read from the stack pointer up, are a list
  with the top first.
\<close>

record tstack =
  ts_sp :: u32
  ts_capacity :: u32
  ts_arr :: "u32 list"

text \<open>The first argument tells whether \<open>calloc\<close> finds memory.\<close>

definition tss_init :: "bool \<Rightarrow> tstack \<Rightarrow> u32 \<Rightarrow> tstack option" where
  "tss_init calloc_ok st cap =
     (if \<not> calloc_ok then None
      else Some (st\<lparr>ts_sp := cap, ts_capacity := cap, ts_arr := replicate (unat cap) 0\<rparr>))"

definition tss_count :: "tstack \<Rightarrow> u32 res" where
  "tss_count st =
     (let cap = ts_capacity st; sp = ts_sp st
      in ebind (guard (sp \<le> cap) AssertFail) (\<lambda>_. Inr (cap - sp)))"

definition tss_push :: "tstack \<Rightarrow> u32 \<Rightarrow> (int \<times> tstack) res" where
  "tss_push st val =
     (let cap = ts_capacity st; sp = ts_sp st
      in ebind (guard (sp \<le> cap) AssertFail) (\<lambda>_.
         if sp = 0 then Inr (-1, st)
         else
           (let sp' = sp - 1
            in ebind (guard (unat sp' < length (ts_arr st)) OutOfBounds) (\<lambda>_.
               Inr (uint val, st\<lparr>ts_arr := (ts_arr st)[unat sp' := val], ts_sp := sp'\<rparr>)))))"

definition tss_pop :: "tstack \<Rightarrow> (int \<times> tstack) res" where
  "tss_pop st =
     (let cap = ts_capacity st; sp = ts_sp st
      in ebind (guard (sp \<le> cap) AssertFail) (\<lambda>_.
         if sp = cap then Inr (-1, st)
         else
           ebind (guard (unat sp < length (ts_arr st)) OutOfBounds) (\<lambda>_.
             Inr (uint (ts_arr st ! unat sp), st\<lparr>ts_sp := sp + 1\<rparr>))))"

text \<open>\<open>free(st->arr)\<close>: the array is gone, the other fields keep their values.\<close>

definition tss_destroy :: "tstack \<Rightarrow> tstack" where
  "tss_destroy st = st\<lparr>ts_arr := []\<rparr>"

definition tss_wf :: "tstack \<Rightarrow> bool" where
  "tss_wf st \<longleftrightarrow> ts_sp st \<le> ts_capacity st \<and> length (ts_arr st) = unat (ts_capacity st)"

definition tss_list :: "tstack \<Rightarrow> u32 list" where
  "tss_list st = drop (unat (ts_sp st)) (ts_arr st)"

definition tss_cap :: "tstack \<Rightarrow> nat" where
  "tss_cap st = unat (ts_capacity st)"

lemmas tss_defs = tss_wf_def tss_list_def tss_cap_def

section \<open>The operations against the list of contents\<close>

lemma unat_minus_one: "w \<noteq> 0 \<Longrightarrow> unat (w - 1) = unat (w :: u32) - 1"
  by (metis unat_minus_one)

lemma unat_plus_one: "w < (v :: u32) \<Longrightarrow> unat (w + 1) = unat w + 1"
  using unat_u32_less [of v] by (simp add: word_less_nat_alt unat_word_ariths)

lemma tss_init_wf:
  "tss_init True st cap = Some st' \<Longrightarrow> tss_wf st' \<and> tss_list st' = [] \<and> tss_cap st' = unat cap"
  by (auto simp: tss_init_def tss_defs)

lemma tss_list_length: "tss_wf st \<Longrightarrow> length (tss_list st) = unat (ts_capacity st) - unat (ts_sp st)"
  by (simp add: tss_defs)

lemma tss_count_eq: "tss_wf st \<Longrightarrow> tss_count st = Inr (of_nat (length (tss_list st)))"
  by (simp add: tss_count_def tss_defs Let_def word_le_nat_alt of_nat_diff)

lemma tss_push_room:
  assumes wf: "tss_wf st" and room: "length (tss_list st) < tss_cap st"
  shows "\<exists>st'. tss_push st v = Inr (uint v, st') \<and> tss_wf st' \<and>
           tss_list st' = v # tss_list st \<and> tss_cap st' = tss_cap st"
proof -
  have nz: "ts_sp st \<noteq> 0" using assms by (auto simp: tss_defs)
  have sp: "unat (ts_sp st - 1) = unat (ts_sp st) - 1" using nz by (rule unat_minus_one)
  have pos: "0 < unat (ts_sp st)" using nz by (simp add: unat_gt_0)
  have le: "unat (ts_sp st) \<le> length (ts_arr st)"
    using wf by (simp add: tss_defs word_le_nat_alt)
  have idx: "unat (ts_sp st) - 1 < length (ts_arr st)" using pos le by simp
  have "drop (unat (ts_sp st) - 1) ((ts_arr st)[unat (ts_sp st) - 1 := v]) =
      v # drop (unat (ts_sp st)) (ts_arr st)"
    using pos le by (simp add: drop_update_swap Cons_nth_drop_Suc [symmetric])
  moreover have "ts_sp st - 1 \<le> ts_capacity st"
    using wf sp by (auto simp: tss_defs word_le_nat_alt)
  ultimately show ?thesis
    using wf nz sp idx by (auto simp: tss_push_def tss_defs Let_def)
qed

lemma tss_push_full:
  "tss_wf st \<Longrightarrow> length (tss_list st) = tss_cap st \<Longrightarrow> tss_push st v = Inr (-1, st)"
proof -
  assume wf: "tss_wf st" and full: "length (tss_list st) = tss_cap st"
  then have "ts_sp st = 0"
    using unat_gt_0 [of "ts_sp st"] by (auto simp: tss_defs word_le_nat_alt)
  then show ?thesis by (simp add: tss_push_def)
qed

lemma tss_pop_some:
  assumes wf: "tss_wf st" and top: "tss_list st = v # vs"
  shows "\<exists>st'. tss_pop st = Inr (uint v, st') \<and> tss_wf st' \<and> tss_list st' = vs \<and>
           tss_cap st' = tss_cap st"
proof -
  have lt: "unat (ts_sp st) < length (ts_arr st)"
    using top by (auto simp: tss_defs intro: ccontr)
  then have neq: "ts_sp st < ts_capacity st"
    using wf by (simp add: tss_defs word_less_nat_alt)
  have v: "ts_arr st ! unat (ts_sp st) = v" "drop (Suc (unat (ts_sp st))) (ts_arr st) = vs"
    using top Cons_nth_drop_Suc [OF lt] by (auto simp: tss_defs)
  have sp: "unat (ts_sp st + 1) = Suc (unat (ts_sp st))"
    using neq by (simp add: unat_plus_one)
  show ?thesis
    using wf lt neq v sp by (auto simp: tss_pop_def tss_defs Let_def word_le_nat_alt)
qed

lemma tss_pop_none: "tss_wf st \<Longrightarrow> tss_list st = [] \<Longrightarrow> tss_pop st = Inr (-1, st)"
  by (auto simp: tss_pop_def tss_defs Let_def word_le_nat_alt word_unat_eq_iff)

text \<open>The model of the C stack meets the stack contract.\<close>

interpretation tss: lifo_stack tss_push tss_pop uint tss_list tss_cap tss_wf
proof
  show "length (tss_list st) \<le> tss_cap st" if "tss_wf st" for st
    using tss_list_length [OF that] by (simp add: tss_cap_def)
qed (simp_all add: tss_push_room tss_push_full tss_pop_some tss_pop_none)

section \<open>Properties\<close>

text \<open>
  A stack of \<open>tstack.h\<close> is last in, first out: on a stack with room for them, pushing
  values returns each value, popping as often returns them in reverse order, and the
  contents are those from before.  No assertion fails and no access is out of bounds.
\<close>

theorem tss_lifo:
  assumes "tss_wf st" and "length (tss_list st) + length vs \<le> tss_cap st"
  shows "\<exists>st1 st2. run_pushes tss_push st vs = Inr (map uint vs, st1) \<and>
           run_takes tss_pop st1 (length vs) = Inr (map uint (rev vs), st2) \<and>
           tss_wf st2 \<and> tss_list st2 = tss_list st"
  by (rule tss.pushes_then_takes [OF assms])

definition tss_example :: tstack where
  "tss_example = \<lparr>ts_sp = 3, ts_capacity = 4, ts_arr = [0, 0, 0, 8]\<rparr>"

lemma tss_example_wf: "tss_wf tss_example" "tss_list tss_example = [8]" "tss_cap tss_example = 4"
  by (simp_all add: tss_defs tss_example_def)

theorem tss_lifo_witness:
  "\<exists>st1 st2. run_pushes tss_push tss_example [1, 2, 3] = Inr ([1, 2, 3], st1) \<and>
     run_takes tss_pop st1 (Suc (Suc (Suc 0))) = Inr ([3, 2, 1], st2) \<and>
     tss_wf st2 \<and> tss_list st2 = [8]"
  using tss_lifo [OF tss_example_wf(1), of "[1, 2, 3]"]
  by (simp add: tss_example_wf)

text \<open>
  A push on a full stack and a pop on an empty one return -1 and change nothing, and
  no other push or pop returns -1: a caller can tell the index 0 from an error.
\<close>

theorem tss_error_iff:
  assumes "tss_wf st"
  shows "\<exists>r st1 q st2. tss_push st v = Inr (r, st1) \<and> tss_pop st = Inr (q, st2) \<and>
           (r = -1 \<longleftrightarrow> length (tss_list st) = tss_cap st) \<and> (r = -1 \<longrightarrow> st1 = st) \<and>
           (q = -1 \<longleftrightarrow> tss_list st = []) \<and> (q = -1 \<longrightarrow> st2 = st)"
proof -
  obtain q st2 where "tss_pop st = Inr (q, st2)" "q = -1 \<longleftrightarrow> tss_list st = []" "q = -1 \<longrightarrow> st2 = st"
    using tss.pop_wf [OF assms] tss.pop_error_iff [OF assms] tss.pop_none [OF assms] by fastforce
  moreover obtain r st1 where "tss_push st v = Inr (r, st1)"
      "r = -1 \<longleftrightarrow> length (tss_list st) = tss_cap st" "r = -1 \<longrightarrow> st1 = st"
    using tss.push_room [OF assms, of v] tss.push_full [OF assms, of v] tss.contents_cap [OF assms]
      tss.enc_not_error [of v] by (cases "length (tss_list st) = tss_cap st") fastforce+
  ultimately show ?thesis by blast
qed

theorem tss_error_iff_witness:
  "\<exists>r st1 q st2. tss_push tss_example 5 = Inr (r, st1) \<and> tss_pop tss_example = Inr (q, st2) \<and>
     r \<noteq> -1 \<and> q \<noteq> -1"
  using tss_error_iff [OF tss_example_wf(1), of 5] by (auto simp: tss_example_wf)

text \<open>
  Every operation keeps the invariant of the stack, \<open>tss_init\<close> establishes it with an
  empty stack, and \<open>tss_count\<close> is the number of elements at full width.
\<close>

theorem tss_invariant:
  assumes "tss_wf st"
  shows "(\<exists>r st1. tss_push st v = Inr (r, st1) \<and> tss_wf st1) \<and>
         (\<exists>q st2. tss_pop st = Inr (q, st2) \<and> tss_wf st2) \<and>
         (\<exists>st0. tss_init True st cap = Some st0 \<and> tss_wf st0 \<and> tss_list st0 = []) \<and>
         (\<exists>c. tss_count st = Inr c \<and> unat c = length (tss_list st))"
proof -
  have "length (tss_list st) < 2 ^ 32"
    using tss.contents_cap [OF assms] unat_u32_less [of "ts_capacity st"] by (simp add: tss_cap_def)
  then have "\<exists>c. tss_count st = Inr c \<and> unat c = length (tss_list st)"
    by (simp add: tss_count_eq [OF assms] unsigned_of_nat take_bit_nat_eq_self)
  moreover obtain st0 where "tss_init True st cap = Some st0" by (simp add: tss_init_def)
  ultimately show ?thesis
    using tss.push_wf [OF assms] tss.pop_wf [OF assms] tss_init_wf by blast
qed

theorem tss_invariant_witness:
  "(\<exists>r st1. tss_push tss_example 9 = Inr (r, st1) \<and> tss_wf st1) \<and>
   (\<exists>c. tss_count tss_example = Inr c \<and> unat c = 1)"
  using tss_invariant [OF tss_example_wf(1), of 9 4] by (simp add: tss_example_wf)

end
