(* ===== verification/Que.thy ===== *)
theory Que
  imports Gw_Interfaces "HOL-Library.Finite_Map"
begin

text \<open>
  The linked queue of \<open>include/gwbot/lib/que.h\<close>, which holds the packets no worker was
  free for.  The nodes live in a heap, a finite map from addresses to nodes; the queue
  header keeps the head, the tail and the count.  \<open>que_rep\<close> says that a heap and a
  header represent a list of packets: the \<open>next\<close> pointers from the head run through
  distinct allocated nodes and end at the tail.
\<close>

type_synonym ptr = "nat option"

record que_node =
  qn_next :: ptr
  qn_prev :: ptr
  qn_len :: nat
  qn_data :: bytes

type_synonym heap = "(nat, que_node) fmap"

record que_master =
  que_head :: ptr
  que_tail :: ptr
  que_cnt :: u32
  que_capacity :: u32

type_synonym que_state = "heap \<times> que_master"

section \<open>The operations\<close>

definition que_init :: "que_master \<Rightarrow> u32 \<Rightarrow> que_master" where
  "que_init que cap = que\<lparr>que_head := None, que_tail := None, que_cnt := 0, que_capacity := cap\<rparr>"

definition que_count :: "que_master \<Rightarrow> u32" where
  "que_count que = que_cnt que"

text \<open>Reading through a pointer: the null pointer and freed memory are faults.\<close>

definition node_at :: "heap \<Rightarrow> ptr \<Rightarrow> que_node res" where
  "node_at h p =
     (case p of
        None \<Rightarrow> Inl NullDeref
      | Some a \<Rightarrow> (case fmlookup h a of None \<Rightarrow> Inl UseAfterFree | Some n \<Rightarrow> Inr n))"

text \<open>
  \<open>mem\<close> is the answer of \<open>aligned_alloc\<close>: an address, or the error number it sets.  The
  result is the new node, or the error number the caller finds in \<open>errno\<close>.
\<close>

definition que_enqueue :: "que_state \<Rightarrow> int + nat \<Rightarrow> bytes \<Rightarrow> ((int + nat) \<times> que_state) res" where
  "que_enqueue s mem data =
     (let (h, que) = s in
      if que_capacity que \<le> que_cnt que then Inr (Inl EAGAIN, s)
      else
        (case mem of
           Inl err \<Rightarrow> Inr (Inl err, s)
         | Inr a \<Rightarrow>
             (let node = \<lparr>qn_next = None, qn_prev = None, qn_len = length data, qn_data = data @ [NUL]\<rparr>
              in case que_head que of
                   None \<Rightarrow>
                     ebind (guard (que_tail que = None) AssertFail) (\<lambda>_.
                       Inr (Inr a, (fmupd a node h,
                         que\<lparr>que_head := Some a, que_tail := Some a, que_cnt := que_cnt que + 1\<rparr>)))
                 | Some _ \<Rightarrow>
                     ebind (guard (que_tail que \<noteq> None) AssertFail) (\<lambda>_.
                     ebind (node_at (fmupd a (node\<lparr>qn_prev := que_tail que\<rparr>) h) (que_tail que)) (\<lambda>tail.
                       Inr (Inr a,
                         (fmupd (the (que_tail que)) (tail\<lparr>qn_next := Some a\<rparr>)
                            (fmupd a (node\<lparr>qn_prev := que_tail que\<rparr>) h),
                          que\<lparr>que_tail := Some a, que_cnt := que_cnt que + 1\<rparr>)))))))"

definition que_dequeue :: "que_state \<Rightarrow> (nat option \<times> que_state) res" where
  "que_dequeue s =
     (let (h, que) = s in
      if que_cnt que = 0 then
        ebind (guard (que_head que = None) AssertFail) (\<lambda>_.
        ebind (guard (que_tail que = None) AssertFail) (\<lambda>_. Inr (None, s)))
      else
        ebind (node_at h (que_head que)) (\<lambda>n.
          case qn_next n of
            None \<Rightarrow>
              ebind (guard (que_cnt que = 1) AssertFail) (\<lambda>_.
              ebind (guard (que_head que = que_tail que) AssertFail) (\<lambda>_.
                Inr (que_head que,
                  (h, que\<lparr>que_head := None, que_tail := None, que_cnt := que_cnt que - 1\<rparr>))))
          | Some nxt \<Rightarrow>
              Inr (que_head que, (h, que\<lparr>que_head := Some nxt, que_cnt := que_cnt que - 1\<rparr>))))"

text \<open>\<open>free(node)\<close>; freeing the null pointer does nothing.\<close>

definition que_node_destroy :: "heap \<Rightarrow> ptr \<Rightarrow> heap res" where
  "que_node_destroy h p =
     (case p of
        None \<Rightarrow> Inr h
      | Some a \<Rightarrow> ebind (guard (a |\<in>| fmdom h) UseAfterFree) (\<lambda>_. Inr (fmdrop a h)))"

text \<open>The \<open>while (head)\<close> loop of \<open>que_destroy\<close>: every round frees a node, so it ends.\<close>

function que_free_all :: "heap \<Rightarrow> ptr \<Rightarrow> heap res" where
  "que_free_all h p =
     (case p of
        None \<Rightarrow> Inr h
      | Some a \<Rightarrow>
          (case fmlookup h a of
             None \<Rightarrow> Inl UseAfterFree
           | Some n \<Rightarrow> que_free_all (fmdrop a h) (qn_next n)))"
  by pat_completeness auto
termination
proof (relation "measure (\<lambda>(h, p). fcard (fmdom h))", goal_cases)
  case (2 h p a n)
  then have "a |\<in>| fmdom h" by (simp add: fmdomI)
  then show ?case using fcard_fminus1_less [of a "fmdom h"] by simp
qed simp

declare que_free_all.simps [simp del]

definition que_destroy :: "que_state \<Rightarrow> que_state res" where
  "que_destroy s =
     (let (h, que) = s in
      ebind (if que_cnt que = 0 then Inr h else que_free_all h (que_head que)) (\<lambda>h'.
        Inr (h', que_init que 0)))"

section \<open>Representation\<close>

primrec que_path :: "heap \<Rightarrow> ptr \<Rightarrow> nat list \<Rightarrow> bool" where
  "que_path h p [] \<longleftrightarrow> p = None"
| "que_path h p (a # as) \<longleftrightarrow> p = Some a \<and> (\<exists>n. fmlookup h a = Some n \<and> que_path h (qn_next n) as)"

definition que_payload :: "que_state \<Rightarrow> nat \<Rightarrow> bytes option" where
  "que_payload s a = map_option (\<lambda>n. take (qn_len n) (qn_data n)) (fmlookup (fst s) a)"

definition que_inv :: "que_state \<Rightarrow> nat list \<Rightarrow> bool" where
  "que_inv s as \<longleftrightarrow>
     que_path (fst s) (que_head (snd s)) as \<and> distinct as \<and>
     que_tail (snd s) = (if as = [] then None else Some (last as)) \<and>
     unat (que_cnt (snd s)) = length as"

definition que_rep :: "que_state \<Rightarrow> bytes list \<Rightarrow> bool" where
  "que_rep s vs \<longleftrightarrow> (\<exists>as. que_inv s as \<and> map (que_payload s) as = map Some vs)"

definition que_cap :: "que_state \<Rightarrow> nat" where
  "que_cap s = unat (que_capacity (snd s))"

text \<open>What \<open>aligned_alloc\<close> promises: the block is not in use.\<close>

definition que_fresh :: "que_state \<Rightarrow> int + nat \<Rightarrow> bool" where
  "que_fresh s mem \<longleftrightarrow> (\<exists>a. mem = Inr a \<and> a |\<notin>| fmdom (fst s))"

lemmas que_defs = que_inv_def que_payload_def que_cap_def

lemma que_path_upd [simp]: "b \<notin> set as \<Longrightarrow> que_path (fmupd b n h) p as = que_path h p as"
  by (induction as arbitrary: p) auto

lemma que_path_dom: "que_path h p as \<Longrightarrow> a \<in> set as \<Longrightarrow> a |\<in>| fmdom h"
  by (induction as arbitrary: p) (auto intro: fmdomI)

lemma que_path_snoc:
  assumes "que_path h p (as @ [t])" and "distinct (as @ [t])" and "a \<notin> set (as @ [t])"
    and "fmlookup h t = Some tn" and "qn_next n = None" and "qn_next tn' = Some a"
  shows "que_path (fmupd t tn' (fmupd a n h)) p (as @ [t, a])"
  using assms by (induction as arbitrary: p) auto

lemma que_inv_empty: "que_inv (h, que_init que cap) []"
  by (simp add: que_inv_def que_init_def)

lemma que_rep_init: "que_rep (h, que_init que cap) []"
  using que_inv_empty by (auto simp: que_rep_def)

lemma que_inv_cnt_Suc: "unat (c :: u32) < unat (d :: u32) \<Longrightarrow> unat (c + 1) = Suc (unat c)"
  using unat_u32_less [of d] by (simp add: unat_word_ariths)

lemma que_path_Nil_iff: "que_path h p as \<Longrightarrow> p = None \<longleftrightarrow> as = []"
  by (cases as) auto

lemma que_payload_upd_other:
  "b \<noteq> a \<Longrightarrow> que_payload (fmupd b n h, q) a = que_payload (h, q') a"
  by (simp add: que_payload_def)

section \<open>The operations keep the representation\<close>

lemma que_enqueue_first:
  assumes inv: "que_inv (h, q) []" and room: "0 < unat (que_capacity q)" and new: "a |\<notin>| fmdom h"
  shows "\<exists>s'. que_enqueue (h, q) (Inr a) v = Inr (Inr a, s') \<and> que_inv s' [a] \<and>
           que_payload s' a = Some v \<and> que_cap s' = que_cap (h, q)"
  using assms
  by (auto simp: que_enqueue_def que_inv_def que_payload_def que_cap_def word_le_nat_alt
      unat_eq_zero que_inv_cnt_Suc)

lemma que_enqueue_later:
  assumes inv: "que_inv (h, q) (as @ [t])" and room: "Suc (length as) < unat (que_capacity q)"
    and new: "a |\<notin>| fmdom h"
  shows "\<exists>s'. que_enqueue (h, q) (Inr a) v = Inr (Inr a, s') \<and> que_inv s' (as @ [t, a]) \<and>
           que_payload s' a = Some v \<and> (\<forall>b \<in> set (as @ [t]). que_payload s' b = que_payload (h, q) b) \<and>
           que_cap s' = que_cap (h, q)"
proof -
  have path: "que_path h (que_head q) (as @ [t])" and dist: "distinct (as @ [t])"
    and tail: "que_tail q = Some t" and cnt: "unat (que_cnt q) = Suc (length as)"
    using inv by (auto simp: que_inv_def)
  obtain tn where tn: "fmlookup h t = Some tn"
    using que_path_dom [OF path, of t] by auto
  have a: "a \<notin> set (as @ [t])" using que_path_dom [OF path] new by auto
  obtain b where b: "que_head q = Some b" using que_path_Nil_iff [OF path] by auto
  define n where "n = \<lparr>qn_next = None, qn_prev = Some t, qn_len = length v, qn_data = v @ [NUL]\<rparr>"
  define s' where "s' = (fmupd t (tn\<lparr>qn_next := Some a\<rparr>) (fmupd a n h),
      q\<lparr>que_tail := Some a, que_cnt := que_cnt q + 1\<rparr>)"
  have "que_enqueue (h, q) (Inr a) v = Inr (Inr a, s')"
    using room cnt b tail tn a
    by (auto simp: que_enqueue_def s'_def n_def node_at_def word_le_nat_alt)
  moreover have "que_inv s' (as @ [t, a])"
    using que_path_snoc [OF path dist a tn, of n "tn\<lparr>qn_next := Some a\<rparr>"] dist a cnt room
    by (auto simp: que_inv_def s'_def n_def que_inv_cnt_Suc [of _ "que_capacity q"])
  moreover have "que_payload s' a = Some v" "\<forall>b \<in> set (as @ [t]). que_payload s' b = que_payload (h, q) b"
    using a tn by (auto simp: s'_def n_def que_payload_def)
  ultimately show ?thesis by (auto simp: s'_def que_cap_def)
qed

lemma que_enqueue_room:
  assumes rep: "que_rep s vs" and room: "length vs < que_cap s" and new: "que_fresh s m"
  shows "\<exists>n s'. que_enqueue s m v = Inr (Inr n, s') \<and> que_rep s' (vs @ [v]) \<and>
           que_cap s' = que_cap s \<and> que_payload s' n = Some v"
proof -
  obtain h q where s: "s = (h, q)" by (cases s)
  obtain a where m: "m = Inr a" and a: "a |\<notin>| fmdom h" using new s by (auto simp: que_fresh_def)
  obtain as where inv: "que_inv (h, q) as" and pl: "map (que_payload (h, q)) as = map Some vs"
    using rep s by (auto simp: que_rep_def)
  have len: "length as = length vs" using pl by (metis length_map)
  show ?thesis
  proof (cases as rule: rev_cases)
    case Nil
    then have "vs = []" and "0 < unat (que_capacity q)" using len room s by (auto simp: que_cap_def)
    with que_enqueue_first [of h q a v] inv Nil a show ?thesis
      by (fastforce simp: s m que_rep_def)
  next
    case (snoc bs t)
    then have "Suc (length bs) < unat (que_capacity q)" using len room s by (auto simp: que_cap_def)
    with que_enqueue_later [of h q bs t a v] inv snoc a obtain s' where
      s': "que_enqueue (h, q) (Inr a) v = Inr (Inr a, s')" "que_inv s' (bs @ [t, a])"
        "que_payload s' a = Some v" "\<forall>b \<in> set (bs @ [t]). que_payload s' b = que_payload (h, q) b"
        "que_cap s' = que_cap (h, q)"
      by auto
    have "map (que_payload s') (bs @ [t]) = map Some vs"
      using s'(4) pl snoc by (metis map_cong)
    then have "map (que_payload s') (bs @ [t, a]) = map Some (vs @ [v])" using s'(3) by simp
    with s' show ?thesis by (auto simp: s m que_rep_def)
  qed
qed

lemma que_enqueue_full:
  assumes "que_rep s vs" and "que_cap s \<le> length vs"
  shows "que_enqueue s m v = Inr (Inl EAGAIN, s)"
proof -
  have "length vs = unat (que_cnt (snd s))"
    using assms(1) by (auto simp: que_rep_def que_inv_def dest: map_eq_imp_length_eq)
  with assms(2) show ?thesis
    by (auto simp: que_enqueue_def que_cap_def word_le_nat_alt split: prod.split)
qed

lemma que_enqueue_nomem:
  "que_cnt (snd s) < que_capacity (snd s) \<Longrightarrow> que_enqueue s (Inl err) v = Inr (Inl err, s)"
  by (auto simp: que_enqueue_def split: prod.split)

lemma que_inv_cnt: "que_rep s vs \<Longrightarrow> unat (que_cnt (snd s)) = length vs"
  by (auto simp: que_rep_def que_inv_def dest: map_eq_imp_length_eq)

lemma que_dequeue_some:
  assumes rep: "que_rep s (v # vs)"
  shows "\<exists>n s'. que_dequeue s = Inr (Some n, s') \<and> que_rep s' vs \<and> que_cap s' = que_cap s \<and>
           que_payload s' = que_payload s \<and> que_payload s' n = Some v"
proof -
  obtain h q where s: "s = (h, q)" by (cases s)
  obtain a as where inv: "que_inv (h, q) (a # as)" and v: "que_payload (h, q) a = Some v"
    and vs: "map (que_payload (h, q)) as = map Some vs"
    using rep s by (auto simp: que_rep_def map_eq_Cons_conv Cons_eq_map_conv)
  obtain n where n: "que_head q = Some a" "fmlookup h a = Some n" "que_path h (qn_next n) as"
    using inv by (auto simp: que_inv_def)
  have cnt: "unat (que_cnt q) = Suc (length as)" using inv by (simp add: que_inv_def)
  then have nz: "que_cnt q \<noteq> 0" by auto
  then have cnt': "unat (que_cnt q - 1) = length as" using cnt by (simp add: unat_minus_one)
  define q' where "q' = (case qn_next n of
       None \<Rightarrow> q\<lparr>que_head := None, que_tail := None, que_cnt := que_cnt q - 1\<rparr>
     | Some x \<Rightarrow> q\<lparr>que_head := Some x, que_cnt := que_cnt q - 1\<rparr>)"
  have empty: "qn_next n = None \<longleftrightarrow> as = []" by (rule que_path_Nil_iff [OF n(3)])
  have one: "que_cnt q = 1 \<and> que_head q = que_tail q" if "as = []"
    using that cnt inv n by (auto simp: que_inv_def word_unat_eq_iff)
  have "que_dequeue (h, q) = Inr (Some a, (h, q'))"
    using n nz empty one by (auto simp: que_dequeue_def node_at_def q'_def split: option.split)
  moreover have "que_inv (h, q') as"
    using inv n(3) cnt' empty by (auto simp: que_inv_def q'_def split: option.split)
  moreover have "que_payload (h, q') = que_payload (h, q)" by (auto simp: que_payload_def)
  moreover have "que_cap (h, q') = que_cap (h, q)" by (auto simp: que_cap_def q'_def split: option.split)
  ultimately show ?thesis using v vs by (auto simp: s que_rep_def)
qed

lemma que_dequeue_none: "que_rep s [] \<Longrightarrow> que_dequeue s = Inr (None, s)"
  by (auto simp: que_rep_def que_inv_def que_dequeue_def unat_eq_zero split: prod.split)

text \<open>The model of the C queue meets the queue contract.\<close>

interpretation quem: fifo_queue que_enqueue que_dequeue que_rep que_cap que_fresh que_payload
  by unfold_locales
    (fact que_enqueue_room que_enqueue_full que_dequeue_some que_dequeue_none)+

section \<open>Destroying a queue\<close>

lemma que_path_drop: "a \<notin> set as \<Longrightarrow> que_path (fmdrop a h) p as = que_path h p as"
  by (induction as arbitrary: p) auto

lemma que_free_all_path:
  "que_path h p as \<Longrightarrow> distinct as \<Longrightarrow> que_free_all h p = Inr (fold fmdrop as h)"
proof (induction as arbitrary: h p)
  case Nil
  then show ?case by (simp add: que_free_all.simps)
next
  case (Cons a as)
  then show ?case by (auto simp: que_free_all.simps [of h "Some a"] que_path_drop)
qed

lemma fmlookup_fold_drop:
  "fmlookup (fold fmdrop as h) a = (if a \<in> set as then None else fmlookup h a)"
  by (induction as arbitrary: h) auto

section \<open>Properties\<close>

text \<open>
  C20. A queue of \<open>que.h\<close> is first in, first out: enqueueing on a queue with room appends
  the packet (its bytes and length) to the queue's contents, and dequeueing as often as
  there are packets returns nodes that carry exactly these packets, oldest first, and
  leaves an empty queue on which a further dequeue returns \<open>NULL\<close>.  No assertion fails
  and no freed or null pointer is read.
\<close>

theorem que_fifo:
  assumes "que_rep s vs" and "length vs < que_cap s" and "que_fresh s mem"
  shows "\<exists>n s1 ns s2. que_enqueue s mem v = Inr (Inr n, s1) \<and>
           run_takes que_dequeue s1 (Suc (length vs)) = Inr (map Some ns, s2) \<and>
           map (que_payload s2) ns = map Some (vs @ [v]) \<and> que_dequeue s2 = Inr (None, s2)"
proof -
  obtain n s1 where s1: "que_enqueue s mem v = Inr (Inr n, s1)" "que_rep s1 (vs @ [v])"
    using quem.enq_room [OF assms] by blast
  from quem.drain [OF s1(2)] obtain ns s2 where
    "run_takes que_dequeue s1 (Suc (length vs)) = Inr (map Some ns, s2)" "que_rep s2 []"
    "map (que_payload s2) ns = map Some (vs @ [v])"
    by auto
  with s1(1) quem.deq_none show ?thesis by blast
qed

definition que_example :: que_state where
  "que_example =
     (fmupd 7 \<lparr>qn_next = None, qn_prev = None, qn_len = 3, qn_data = ''AAA'' @ [NUL]\<rparr> fmempty,
      \<lparr>que_head = Some 7, que_tail = Some 7, que_cnt = 1, que_capacity = 10\<rparr>)"

lemma que_example_rep: "que_rep que_example [''AAA'']"
  unfolding que_rep_def
  by (rule exI [of _ "[7]"]) (simp add: que_inv_def que_payload_def que_example_def)

lemma que_example_facts: "que_cap que_example = 10" "que_fresh que_example (Inr 9)"
  by (simp_all add: que_cap_def que_fresh_def que_example_def)

theorem que_fifo_witness:
  "\<exists>n s1 ns s2. que_enqueue que_example (Inr 9) ''BBB'' = Inr (Inr n, s1) \<and>
     run_takes que_dequeue s1 (Suc (Suc 0)) = Inr (map Some ns, s2) \<and>
     map (que_payload s2) ns = [Some ''AAA'', Some ''BBB''] \<and> que_dequeue s2 = Inr (None, s2)"
  using que_fifo [OF que_example_rep _ que_example_facts(2), of "''BBB''"]
  by (simp add: que_example_facts)

text \<open>
  A full queue refuses a packet with \<open>EAGAIN\<close>, and a failed allocation is reported
  with the allocator's error number; in both cases the queue and the heap are unchanged.
\<close>

theorem que_enqueue_refused:
  assumes "que_rep s vs" and "que_cap s \<le> length vs \<or> mem = Inl err"
  shows "que_enqueue s mem v = Inr (Inl (if que_cap s \<le> length vs then EAGAIN else err), s)"
proof (cases "que_cap s \<le> length vs")
  case True
  then show ?thesis using quem.enq_full [OF assms(1)] by simp
next
  case False
  then have "que_cnt (snd s) < que_capacity (snd s)"
    using que_inv_cnt [OF assms(1)] by (simp add: que_cap_def word_less_nat_alt)
  then show ?thesis using False assms(2) que_enqueue_nomem by auto
qed

theorem que_enqueue_refused_witness:
  "que_enqueue que_example (Inl ENOMEM) ''BBB'' = Inr (Inl ENOMEM, que_example)"
  using que_enqueue_refused [OF que_example_rep, of "Inl ENOMEM" ENOMEM "''BBB''"]
  by (simp add: que_example_facts)

text \<open>
  C36. \<open>que_destroy\<close> frees every node of the queue exactly once and nothing else: the heap
  afterwards is the heap before without the nodes of the queue, and the header is that of
  an empty queue of capacity 0.
\<close>

theorem que_destroy_frees_all:
  assumes "que_inv s as"
  shows "\<exists>h' q'. que_destroy s = Inr (h', q') \<and> que_inv (h', q') [] \<and> que_capacity q' = 0 \<and>
           (\<forall>a. fmlookup h' a = (if a \<in> set as then None else fmlookup (fst s) a))"
proof -
  obtain h q where s: "s = (h, q)" by (cases s)
  have path: "que_path h (que_head q) as" "distinct as" and cnt: "unat (que_cnt q) = length as"
    using assms s by (auto simp: que_inv_def)
  have "(if que_cnt q = 0 then Inr h else que_free_all h (que_head q)) = Inr (fold fmdrop as h)"
    using que_free_all_path [OF path] cnt by (auto simp: unat_eq_zero)
  then have "que_destroy s = Inr (fold fmdrop as h, que_init q 0)"
    by (simp add: que_destroy_def s)
  then show ?thesis
    using que_inv_empty [of "fold fmdrop as h" q 0]
    by (simp add: fmlookup_fold_drop s que_init_def)
qed

theorem que_destroy_frees_all_witness:
  "\<exists>h' q'. que_destroy que_example = Inr (h', q') \<and> que_inv (h', q') [] \<and> que_capacity q' = 0 \<and>
     (\<forall>a. fmlookup h' a = (if a \<in> {7} then None else fmlookup (fst que_example) a))"
  using que_destroy_frees_all [of que_example "[7]"]
  by (simp add: que_inv_def que_example_def)

end
