(* ===== verification/Arena.thy ===== *)
theory Arena
  imports Gw_Interfaces
begin

text \<open>
  The bump allocator of \<open>lib/arena.c\<close>.  The three static variables are the record; a
  pointer into the arena is an offset from \<open>__ar_addr\<close>.  The only check is the
  \<open>TASSERT\<close> in \<open>internal_ar_alloc\<close>, as built without \<open>NDEBUG\<close>.
\<close>

record arena =
  ar_addr :: bytes
  ar_size :: nat
  ar_pos :: nat

definition ar_init :: "bytes \<Rightarrow> nat \<Rightarrow> arena" where
  "ar_init ar sz = \<lparr> ar_addr = ar, ar_size = sz, ar_pos = 0 \<rparr>"

definition ar_unused_size :: "arena \<Rightarrow> nat" where
  "ar_unused_size a = (ar_size a + 2 ^ 64 - ar_pos a) mod 2 ^ 64"

text \<open>\<open>__ar_pos += len\<close> wraps at the width of \<open>size_t\<close>.\<close>

definition internal_ar_alloc :: "arena \<Rightarrow> nat \<Rightarrow> (nat \<times> arena) res" where
  "internal_ar_alloc a len =
     (let ret = ar_pos a; pos = (ar_pos a + len) mod 2 ^ 64
      in ebind (guard (pos < ar_size a) AssertFail) (\<lambda>_. Inr (ret, a\<lparr> ar_pos := pos \<rparr>)))"

definition ar_alloc :: "arena \<Rightarrow> nat \<Rightarrow> (nat \<times> arena) res" where
  "ar_alloc a len = internal_ar_alloc a len"

definition ar_strdup :: "arena \<Rightarrow> bytes \<Rightarrow> (nat \<times> arena) res" where
  "ar_strdup a str =
     (let len = length (cstr str)
      in ebind (internal_ar_alloc a (len + 1)) (\<lambda>(ret, a).
         ebind (buf_set (ar_addr a) (ret + len) NUL) (\<lambda>m.
         ebind (buf_put m ret (take len str)) (\<lambda>m.
           Inr (ret, a\<lparr> ar_addr := m \<rparr>)))))"

definition ar_strndup :: "arena \<Rightarrow> bytes \<Rightarrow> nat \<Rightarrow> (nat \<times> arena) res" where
  "ar_strndup a str inlen =
     (let len = strnlen str inlen
      in ebind (internal_ar_alloc a (len + 1)) (\<lambda>(ret, a).
         ebind (buf_set (ar_addr a) (ret + len) NUL) (\<lambda>m.
         ebind (buf_put m ret (take len str)) (\<lambda>m.
           Inr (ret, a\<lparr> ar_addr := m \<rparr>)))))"

section \<open>Invariant and abstraction\<close>

text \<open>
  The arena has its size in memory, the position lies in it, and a size is at most half the
  address space, so that no length of a string in memory can wrap the position.  \<open>ar_str\<close>
  is the C string at an offset; an offset is live when its string ends below the position.
\<close>

definition ar_wf :: "arena \<Rightarrow> bool" where
  "ar_wf a \<longleftrightarrow> length (ar_addr a) = ar_size a \<and> ar_pos a < ar_size a \<and> ar_size a \<le> 2 ^ 63"

definition ar_str :: "arena \<Rightarrow> nat \<Rightarrow> bytes" where
  "ar_str a p = cstr (drop p (ar_addr a))"

definition ar_live :: "arena \<Rightarrow> nat \<Rightarrow> bool" where
  "ar_live a p \<longleftrightarrow> p + length (ar_str a p) < ar_pos a"

definition ar_room :: "arena \<Rightarrow> nat" where
  "ar_room a = ar_size a - ar_pos a"

section \<open>Lemmas\<close>

lemma internal_ar_alloc_full:
  "ar_wf a \<Longrightarrow> len \<le> 2 ^ 63 \<Longrightarrow> ar_size a \<le> ar_pos a + len \<Longrightarrow> internal_ar_alloc a len = Inl AssertFail"
  by (simp add: internal_ar_alloc_def ar_wf_def Let_def)

text \<open>What a successful copy does: the string and its terminator at the old position.\<close>

lemma ar_strndup_eq:
  assumes "ar_wf a" and "n < 2 ^ 63" and "len = min n (length (cstr str))"
  shows "ar_strndup a str n =
    (if ar_pos a + len + 1 < ar_size a
     then Inr (ar_pos a, a\<lparr> ar_pos := ar_pos a + len + 1,
            ar_addr := take (ar_pos a) (ar_addr a) @ take n (cstr str) @ NUL #
                       drop (ar_pos a + len + 1) (ar_addr a) \<rparr>)
     else Inl AssertFail)"
proof -
  have len: "strnlen str n = len" "take len str = take n (cstr str)"
    using assms(3) by (simp_all add: strnlen_eq take_strlen)
  have "len \<le> n" using assms(3) by simp
  then have small: "len + 1 \<le> 2 ^ 63" using assms(2) by linarith
  show ?thesis
  proof (cases "ar_pos a + len + 1 < ar_size a")
    case True
    then have lt: "ar_pos a + len < length (ar_addr a)" using assms(1) by (simp add: ar_wf_def)
    have "internal_ar_alloc a (len + 1) = Inr (ar_pos a, a\<lparr> ar_pos := ar_pos a + len + 1 \<rparr>)"
      using assms(1) True by (simp add: internal_ar_alloc_def ar_wf_def Let_def)
    moreover have "length (take n (cstr str)) = len" using assms(3) by simp
    moreover have "drop (ar_pos a + len) ((ar_addr a)[ar_pos a + len := NUL]) =
        NUL # drop (ar_pos a + len + 1) (ar_addr a)"
      using lt by (simp add: drop_update_swap upd_conv_take_nth_drop)
    ultimately show ?thesis
      using True lt by (simp add: ar_strndup_def len Let_def take_update_cancel)
  next
    case False
    then show ?thesis
      using internal_ar_alloc_full [OF assms(1) small] by (simp add: ar_strndup_def len Let_def)
  qed
qed

lemma ar_str_below:
  assumes "ar_live a p" and "take (ar_pos a) m = take (ar_pos a) (ar_addr a)"
    and "ar_pos a \<le> length (ar_addr a)"
  shows "cstr (drop p m) = ar_str a p"
proof -
  let ?s = "ar_str a p"
  have le: "p + length ?s < ar_pos a" using assms(1) by (simp add: ar_live_def)
  have "length ?s < length (drop p (ar_addr a))" using le assms(3) by simp
  then have "take (Suc (length ?s)) (drop p (ar_addr a)) = ?s @ [NUL]"
    by (simp add: ar_str_def cstr_prefix)
  moreover have "take (Suc (length ?s)) (drop p m) = take (Suc (length ?s)) (drop p (ar_addr a))"
    using assms(2) le by (metis (no_types) Suc_leI add_Suc_right min.absorb1 take_drop take_take add.commute)
  ultimately have "drop p m = ?s @ NUL # drop (Suc (length ?s)) (drop p m)"
    by (metis append.assoc append_Cons append_Nil append_take_drop_id)
  then show ?thesis by (metis ar_str_def cstr_append_NUL cstr_no_NUL)
qed

lemma ar_store:
  assumes "n < 2 ^ 63"
  shows "string_store (\<lambda>a x. ar_strndup a x n) n ar_str ar_live ar_room ar_wf"
proof
  fix s x p s'
  assume wf: "ar_wf s" and dup: "ar_strndup s x n = Inr (p, s')"
  define len where "len = min n (length (cstr x))"
  have eq: "ar_pos s + len + 1 < ar_size s" "p = ar_pos s"
      "s' = s\<lparr> ar_pos := ar_pos s + len + 1,
        ar_addr := take (ar_pos s) (ar_addr s) @ take n (cstr x) @ NUL # drop (ar_pos s + len + 1) (ar_addr s) \<rparr>"
    using dup ar_strndup_eq [OF wf assms len_def] by (auto split: if_splits)
  have str: "ar_str s' p = take n (cstr x)"
    using wf eq by (simp add: ar_str_def ar_wf_def cstr_take_cstr)
  show "ar_wf s' \<and> ar_live s' p \<and> ar_str s' p = take n (cstr x)"
    using wf eq str by (simp add: ar_wf_def ar_live_def len_def min.commute [of "length (cstr x)"])
  show "ar_live s' q \<and> ar_str s' q = ar_str s q" if "ar_live s q" for q
  proof -
    have "ar_str s' q = ar_str s q"
      using ar_str_below [OF that, of "ar_addr s'"] wf eq by (simp add: ar_str_def ar_wf_def)
    with that eq show ?thesis by (simp add: ar_live_def)
  qed
next
  fix s x
  assume wf: "ar_wf s"
  note eq = ar_strndup_eq [OF wf assms refl, of x]
  show "\<exists>p s'. ar_strndup s x n = Inr (p, s') \<and> ar_room s' = ar_room s - (min n (length (cstr x)) + 1)"
    if "min n (length (cstr x)) + 1 < ar_room s"
    using that unfolding eq by (simp add: ar_room_def)
  show "ar_strndup s x n = Inl AssertFail" if "ar_room s \<le> min n (length (cstr x)) + 1"
    using that unfolding eq by (simp add: ar_room_def)
qed

interpretation ar: string_store "\<lambda>a x. ar_strndup a x 255" 255 ar_str ar_live ar_room ar_wf
  by (rule ar_store) simp

section \<open>Properties\<close>

text \<open>
  The arena as a store of strings: any sequence of copies whose sizes, with a
  terminator each, sum up to less than what is left succeeds; afterwards each pointer
  handed out still points to its own string, cut to the limit, and every pointer handed
  out before points to the string it had.
\<close>

theorem ar_strings_kept:
  assumes "ar_wf a" and "n < 2 ^ 63"
    and "sum_list (map (\<lambda>x. min n (length (cstr x)) + 1) xs) < ar_size a - ar_pos a"
  shows "\<exists>ps a'. run_dups (\<lambda>a x. ar_strndup a x n) a xs = Inr (ps, a') \<and> ar_wf a' \<and>
           map (ar_str a') ps = map (\<lambda>x. take n (cstr x)) xs \<and>
           (\<forall>q. ar_live a q \<longrightarrow> ar_live a' q \<and> ar_str a' q = ar_str a q)"
proof -
  note store = ar_store [OF assms(2)]
  obtain ps a' where run: "run_dups (\<lambda>a x. ar_strndup a x n) a xs = Inr (ps, a')"
    using string_store.dups_room [OF store assms(1) assms(3) [folded ar_room_def]] by blast
  then show ?thesis
    using string_store.dups_read [OF store assms(1) run] string_store.dups_old [OF store assms(1) run]
      string_store.dups_inv [OF store assms(1) run] by blast
qed

theorem ar_strings_kept_witness:
  "\<exists>ps a'. run_dups (\<lambda>a x. ar_strndup a x 3) (ar_init (replicate 16 NUL) 16) [''token'', ''ab''] = Inr (ps, a') \<and>
     map (ar_str a') ps = [''tok'', ''ab'']"
  using ar_strings_kept [of "ar_init (replicate 16 NUL) 16" 3 "[''token'', ''ab'']"]
  by (auto simp: ar_wf_def ar_init_def NUL_def)

end
