(* ===== verification/Inih.thy ===== *)
theory Inih
  imports Gw_Prelude
begin

text \<open>
  The INI parser of \<open>ext/inih/inih.c\<close> as it is configured by \<open>custom.h\<close> and the defaults of
  \<open>inih.h\<close>: line buffer of 200 bytes on the stack, continuation lines, a byte order mark,
  inline comments, no stop at the first error.  The parser edits its line buffer in place;
  the model works on the C strings that its pointers denote.  The handler is an argument
  and may fault.
\<close>

section \<open>String helpers\<close>

abbreviation (input) INI_MAX_LINE :: nat where "INI_MAX_LINE \<equiv> 200"
abbreviation (input) MAX_SECTION :: nat where "MAX_SECTION \<equiv> 50"
abbreviation (input) MAX_NAME :: nat where "MAX_NAME \<equiv> 50"
abbreviation (input) NEWLINE :: char where "NEWLINE \<equiv> CHR 0x0A"

definition rstrip :: "bytes \<Rightarrow> bytes" where
  "rstrip s = rev (dropWhile isspace (rev (cstr s)))"

definition lskip :: "bytes \<Rightarrow> bytes" where
  "lskip s = dropWhile isspace (cstr s)"

text \<open>The distance of the pointer that \<open>find_chars_or_comment\<close> returns from its argument.\<close>

fun find_loop :: "bool \<Rightarrow> bytes option \<Rightarrow> bytes \<Rightarrow> nat" where
  "find_loop was_space chars [] = 0"
| "find_loop was_space chars (c # s) =
     (if (case chars of None \<Rightarrow> False | Some cs \<Rightarrow> c \<in> set cs) \<or> was_space \<and> c = CHR '';'' then 0
      else Suc (find_loop (isspace c) chars s))"

definition find_chars_or_comment :: "bytes \<Rightarrow> bytes option \<Rightarrow> nat" where
  "find_chars_or_comment s chars = find_loop False chars (cstr s)"

definition strncpy0 :: "bytes \<Rightarrow> nat \<Rightarrow> bytes" where
  "strncpy0 src n = take (n - 1) (cstr src)"

section \<open>Reading lines\<close>

fun ini_read :: "nat \<Rightarrow> bytes \<Rightarrow> bytes \<times> bytes" where
  "ini_read 0 s = ([], s)"
| "ini_read n [] = ([], [])"
| "ini_read (Suc n) (c # s) =
     (if c = NEWLINE then ([c], s) else let (l, r) = ini_read n s in (c # l, r))"

text \<open>
  The next line of at most \<open>num - 1\<close> bytes and the rest of the stream, or \<open>None\<close> for \<open>NULL\<close>;
  \<open>fgets\<close> on a file that can be read to its end returns the same.
\<close>

definition ini_reader_string :: "nat \<Rightarrow> bytes \<Rightarrow> (bytes \<times> bytes) option" where
  "ini_reader_string num s = (if s = [] \<or> num < 2 then None else Some (ini_read (num - 1) s))"

lemma ini_read_shorter: "ini_read n s = (l, r) \<Longrightarrow> length r \<le> length s"
  by (induction n s arbitrary: l r rule: ini_read.induct)
    (auto split: if_splits prod.splits simp: le_SucI)

lemma ini_read_less: "0 < n \<Longrightarrow> s \<noteq> [] \<Longrightarrow> ini_read n s = (l, r) \<Longrightarrow> length r < length s"
  by (cases n; cases s) (auto split: if_splits prod.splits dest: ini_read_shorter)

function ini_lines :: "bytes \<Rightarrow> bytes list" where
  "ini_lines s =
     (case ini_reader_string INI_MAX_LINE s of None \<Rightarrow> [] | Some (l, r) \<Rightarrow> l # ini_lines r)"
  by auto
termination
  by (relation "measure length")
    (auto simp: ini_reader_string_def split: if_splits intro: ini_read_less [of 199])

declare ini_lines.simps [simp del]

section \<open>Parsing\<close>

type_synonym 'u ini_handler = "'u \<Rightarrow> bytes \<Rightarrow> bytes \<Rightarrow> bytes \<Rightarrow> nat \<Rightarrow> (bool \<times> 'u) res"

record 'u ini_state =
  ini_section :: bytes
  ini_prev_name :: bytes
  ini_lineno :: nat
  ini_error :: nat
  ini_user :: 'u

text \<open>\<open>if (!HANDLER(user, section, name, value) && !error) error = lineno\<close>.\<close>

definition ini_call :: "'u ini_handler \<Rightarrow> 'u ini_state \<Rightarrow> bytes \<Rightarrow> bytes \<Rightarrow> 'u ini_state res" where
  "ini_call handler st name val =
     ebind (handler (ini_user st) (ini_section st) name val (ini_lineno st)) (\<lambda>(ok, u).
       Inr (st\<lparr> ini_user := u,
                ini_error := if \<not> ok \<and> ini_error st = 0 then ini_lineno st else ini_error st \<rparr>))"

definition ini_bad_line :: "'u ini_state \<Rightarrow> 'u ini_state" where
  "ini_bad_line st = (if ini_error st = 0 then st\<lparr> ini_error := ini_lineno st \<rparr> else st)"

definition ini_bom :: bytes where "ini_bom = [CHR 0xEF, CHR 0xBB, CHR 0xBF]"

definition ini_section_line :: "'u ini_state \<Rightarrow> bytes \<Rightarrow> 'u ini_state" where
  "ini_section_line st s =
     (let e = find_chars_or_comment s (Some '']'')
      in if e < length s \<and> s ! e = CHR '']'' then
           st\<lparr> ini_section := strncpy0 (take e s) MAX_SECTION, ini_prev_name := [] \<rparr>
         else ini_bad_line st)"

definition ini_pair_line :: "'u ini_handler \<Rightarrow> 'u ini_state \<Rightarrow> bytes \<Rightarrow> 'u ini_state res" where
  "ini_pair_line handler st s =
     (let e = find_chars_or_comment s (Some ''=:'')
      in if e < length s \<and> (s ! e = CHR ''='' \<or> s ! e = CHR '':'') then
           (let name = rstrip (take e s);
                rest = drop (Suc e) s;
                val = rstrip (lskip (take (find_chars_or_comment rest None) rest))
            in ini_call handler (st\<lparr> ini_prev_name := strncpy0 name MAX_NAME \<rparr>) name val)
         else Inr (ini_bad_line st))"

definition ini_line :: "'u ini_handler \<Rightarrow> 'u ini_state \<Rightarrow> bytes \<Rightarrow> 'u ini_state res" where
  "ini_line handler st0 line =
     (let st = st0\<lparr> ini_lineno := ini_lineno st0 + 1 \<rparr>;
          bom = (ini_lineno st = 1 \<and> take 3 line = ini_bom);
          stripped = rstrip (if bom then drop 3 line else line);
          start = lskip stripped;
          moved = (bom \<or> length start < length stripped)
      in case start of
           [] \<Rightarrow> Inr st
         | c # cs \<Rightarrow>
             if c = CHR '';'' \<or> c = CHR ''#'' then Inr st
             else if ini_prev_name st \<noteq> [] \<and> moved then ini_call handler st (ini_prev_name st) start
             else if c = CHR ''['' then Inr (ini_section_line st cs)
             else ini_pair_line handler st start)"

fun ini_parse_lines :: "'u ini_handler \<Rightarrow> 'u ini_state \<Rightarrow> bytes list \<Rightarrow> 'u ini_state res" where
  "ini_parse_lines handler st [] = Inr st"
| "ini_parse_lines handler st (l # ls) =
     ebind (ini_line handler st l) (\<lambda>st. ini_parse_lines handler st ls)"

definition ini_parse_stream :: "'u ini_handler \<Rightarrow> 'u \<Rightarrow> bytes \<Rightarrow> (nat \<times> 'u) res" where
  "ini_parse_stream handler user stream =
     ebind (ini_parse_lines handler
              \<lparr> ini_section = [], ini_prev_name = [], ini_lineno = 0, ini_error = 0, ini_user = user \<rparr>
              (ini_lines stream)) (\<lambda>st.
       Inr (ini_error st, ini_user st))"

definition ini_parse_file :: "bytes \<Rightarrow> 'u ini_handler \<Rightarrow> 'u \<Rightarrow> (nat \<times> 'u) res" where
  "ini_parse_file file handler user = ini_parse_stream handler user file"

definition ini_parse_string :: "bytes \<Rightarrow> 'u ini_handler \<Rightarrow> 'u \<Rightarrow> (nat \<times> 'u) res" where
  "ini_parse_string str handler user = ini_parse_stream handler user (cstr str)"

section \<open>Well-formed files\<close>

text \<open>
  A file as its author means it: section headings and pairs, one per line.  \<open>ini_calls\<close> are
  the handler calls the file stands for, with the line numbers.
\<close>

datatype ini_item = Heading bytes | Pair bytes bytes

definition ini_word :: "bytes \<Rightarrow> bool" where
  "ini_word s \<longleftrightarrow> s \<noteq> [] \<and> (\<forall>c \<in> set s. 32 < byte c \<and> byte c < (127::nat) \<and> c \<notin> set ''[]=:;#'')"

definition ini_value :: "bytes \<Rightarrow> bool" where
  "ini_value s \<longleftrightarrow> (\<forall>c \<in> set s. c \<notin> {NUL, NEWLINE, CHR '';''}) \<and>
     (s \<noteq> [] \<longrightarrow> \<not> isspace (s ! 0) \<and> \<not> isspace (last s))"

fun ini_item_ok :: "ini_item \<Rightarrow> bool" where
  "ini_item_ok (Heading s) = (ini_word s \<and> length s < 50)"
| "ini_item_ok (Pair n v) = (ini_word n \<and> ini_value v \<and> length n + length v < 196)"

fun ini_show :: "ini_item \<Rightarrow> bytes" where
  "ini_show (Heading s) = CHR ''['' # s @ '']'' @ [NEWLINE]"
| "ini_show (Pair n v) = n @ '' = '' @ v @ [NEWLINE]"

fun ini_calls :: "bytes \<Rightarrow> nat \<Rightarrow> ini_item list \<Rightarrow> (bytes \<times> bytes \<times> bytes \<times> nat) list" where
  "ini_calls sec k [] = []"
| "ini_calls sec k (Heading s # es) = ini_calls s (Suc k) es"
| "ini_calls sec k (Pair n v # es) = (sec, n, v, Suc k) # ini_calls sec (Suc k) es"

text \<open>Calls of a handler in order, and the line number of the first call it refuses.\<close>

fun run_calls :: "'u ini_handler \<Rightarrow> nat \<Rightarrow> 'u \<Rightarrow> (bytes \<times> bytes \<times> bytes \<times> nat) list \<Rightarrow> (nat \<times> 'u) res" where
  "run_calls h err u [] = Inr (err, u)"
| "run_calls h err u ((sec, n, v, k) # cs) =
     ebind (h u sec n v k) (\<lambda>(ok, u'). run_calls h (if \<not> ok \<and> err = 0 then k else err) u' cs)"

section \<open>Lemmas\<close>

lemma ini_read_line:
  "NEWLINE \<notin> set l \<Longrightarrow> length l < n \<Longrightarrow> ini_read n (l @ NEWLINE # rest) = (l @ [NEWLINE], rest)"
proof (induction l arbitrary: n)
  case Nil
  then show ?case by (cases n) auto
next
  case (Cons c l)
  then show ?case by (cases n) auto
qed

lemma ini_lines_Nil [simp]: "ini_lines [] = []"
  by (simp add: ini_lines.simps ini_reader_string_def)

lemma ini_lines_line:
  "NEWLINE \<notin> set l \<Longrightarrow> length l < 199 \<Longrightarrow> ini_lines (l @ NEWLINE # rest) = (l @ [NEWLINE]) # ini_lines rest"
  by (subst ini_lines.simps) (simp add: ini_reader_string_def ini_read_line)

lemma ini_word_chars:
  assumes "ini_word s" and "c \<in> set s"
  shows "\<not> isspace c" "c \<noteq> NUL" "c \<noteq> NEWLINE" "c \<notin> set ''[]=:;#''" "c \<noteq> CHR 0xEF"
proof -
  have b: "32 < byte c" "byte c < (127::nat)" and n: "c \<notin> set ''[]=:;#''"
    using assms by (auto simp: ini_word_def)
  show "\<not> isspace c" using b(1) by (auto simp: isspace_def)
  show "c \<noteq> NUL" "c \<noteq> NEWLINE" using b(1) by (auto simp: NUL_def)
  show "c \<noteq> CHR 0xEF" using b(2) by auto
  show "c \<notin> set ''[]=:;#''" by (fact n)
qed

lemma rstrip_id: "NUL \<notin> set s \<Longrightarrow> s = [] \<or> \<not> isspace (last s) \<Longrightarrow> rstrip s = s"
  by (cases s rule: rev_cases) (auto simp: rstrip_def)

lemma rstrip_space:
  "NUL \<notin> set s \<Longrightarrow> s = [] \<or> \<not> isspace (last s) \<Longrightarrow> isspace c \<Longrightarrow> c \<noteq> NUL \<Longrightarrow> rstrip (s @ [c]) = s"
  by (cases s rule: rev_cases) (auto simp: rstrip_def)

lemma lskip_id: "NUL \<notin> set s \<Longrightarrow> s = [] \<or> \<not> isspace (s ! 0) \<Longrightarrow> lskip s = s"
  by (cases s) (auto simp: lskip_def)

lemma find_loop_skip:
  "(\<And>c. c \<in> set w \<Longrightarrow> c \<noteq> CHR '';'' \<and> (case chars of None \<Rightarrow> True | Some cs \<Rightarrow> c \<notin> set cs)) \<Longrightarrow>
     find_loop b chars (w @ r) = length w + find_loop (if w = [] then b else isspace (last w)) chars r"
proof (induction w arbitrary: b)
  case (Cons c w)
  then have "\<not> (case chars of None \<Rightarrow> False | Some cs \<Rightarrow> c \<in> set cs)" "c \<noteq> CHR '';''"
    by (auto split: option.splits)
  with Cons show ?case by auto
qed simp

lemma isspace_simps [simp]: "isspace NEWLINE" "isspace (CHR '' '')" "\<not> isspace (CHR ''='')"
    "\<not> isspace (CHR '']'')" "\<not> isspace (CHR ''['')"
  by (simp_all add: isspace_def)

lemma NUL_simps [simp]: "NUL \<noteq> NEWLINE" "NUL \<noteq> CHR '' ''" "NUL \<noteq> CHR ''=''" "NUL \<noteq> CHR '']''"
    "NUL \<noteq> CHR ''[''" "NUL \<noteq> CHR 0xEF" "NEWLINE \<noteq> NUL" "CHR '' '' \<noteq> NUL" "CHR ''='' \<noteq> NUL"
    "CHR '']'' \<noteq> NUL" "CHR ''['' \<noteq> NUL"
  by (simp_all add: NUL_def)

text \<open>A line that starts with neither white space, a comment sign nor the byte order mark.\<close>

lemma ini_line_plain:
  assumes "NUL \<notin> set s" and "c \<noteq> NUL" and "\<not> isspace c" and "\<not> isspace (last (c # s))"
    and "c \<notin> {CHR '';'', CHR ''#'', CHR 0xEF}"
    and "line = c # s @ [NEWLINE] \<or> line = c # s @ [CHR '' '', NEWLINE]"
  shows "ini_line handler st line =
    (let st = st\<lparr> ini_lineno := ini_lineno st + 1 \<rparr>
     in if c = CHR ''['' then Inr (ini_section_line st s) else ini_pair_line handler st (c # s))"
proof -
  have "rstrip line = c # s"
    using assms rstrip_space [of "c # s" NEWLINE] rstrip_space [of "c # s" "CHR '' ''"]
    by (auto simp: rstrip_def)
  moreover have "lskip (c # s) = c # s" using assms by (intro lskip_id) auto
  moreover have "take 3 line \<noteq> ini_bom" using assms by (auto simp: ini_bom_def)
  ultimately show ?thesis using assms(5) by (simp add: ini_line_def Let_def)
qed

lemma ini_section_line_eq:
  assumes "ini_word s" and "length s < 50"
  shows "ini_section_line st (s @ '']'') = st\<lparr> ini_section := s, ini_prev_name := [] \<rparr>"
proof -
  have nul: "NUL \<notin> set s" using ini_word_chars(2) [OF assms(1)] by blast
  have "find_chars_or_comment (s @ '']'') (Some '']'') = length s"
    using nul find_loop_skip [of s "Some '']''" False "'']''"] ini_word_chars(4) [OF assms(1)]
    by (auto simp: find_chars_or_comment_def)
  with nul assms(2) show ?thesis by (simp add: ini_section_line_def Let_def strncpy0_def)
qed

lemma ini_pair_line_eq:
  assumes "ini_word n" and "ini_value v" and "s = n @ '' ='' @ (if v = [] then [] else CHR '' '' # v)"
  shows "ini_pair_line handler st s = ini_call handler (st\<lparr> ini_prev_name := strncpy0 n 50 \<rparr>) n v"
proof -
  let ?r = "if v = [] then [] else CHR '' '' # v"
  have nul: "NUL \<notin> set n" "NUL \<notin> set v" "n \<noteq> []" "\<not> isspace (last n)"
    using ini_word_chars [OF assms(1)] assms(1,2) by (auto simp: ini_word_def ini_value_def)
  then have s: "cstr s = (n @ '' '') @ CHR ''='' # ?r" using assms(3) by simp
  have w: "c \<noteq> CHR '';'' \<and> c \<notin> set ''=:''" if "c \<in> set (n @ '' '')" for c
    using that ini_word_chars(4) [OF assms(1), of c] by auto
  have "find_chars_or_comment s (Some ''=:'') = length n + 1"
    unfolding find_chars_or_comment_def s using find_loop_skip [of "n @ '' ''" "Some ''=:''"] w by auto
  moreover have "find_chars_or_comment ?r None = length ?r"
  proof -
    have "c \<noteq> CHR '';''" if "c \<in> set ?r" for c
      using that assms(2) by (auto simp: ini_value_def split: if_splits)
    then have "find_loop False None (?r @ []) = length ?r + 0"
      by (subst find_loop_skip) (simp_all del: append_Nil2)
    moreover have "cstr ?r = ?r" using nul by simp
    ultimately show ?thesis by (simp only: find_chars_or_comment_def append_Nil2 add_0_right)
  qed
  moreover have "lskip ?r = v"
  proof (cases v)
    case (Cons c cs)
    then have "\<not> isspace c" using assms(2) by (simp add: ini_value_def)
    with Cons nul show ?thesis by (simp add: lskip_def)
  qed (simp add: lskip_def)
  moreover have "rstrip v = v" using assms(2) nul by (intro rstrip_id) (auto simp: ini_value_def)
  moreover have "rstrip (n @ '' '') = n" using nul by (intro rstrip_space) auto
  ultimately show ?thesis
    using assms(3) by (simp add: ini_pair_line_def Let_def nth_append)
qed

text \<open>One item, as one line of the file.\<close>

definition ini_item_step :: "'u ini_handler \<Rightarrow> 'u ini_state \<Rightarrow> ini_item \<Rightarrow> 'u ini_state res" where
  "ini_item_step handler st e =
     (let st = st\<lparr> ini_lineno := ini_lineno st + 1 \<rparr>
      in case e of
           Heading s \<Rightarrow> Inr (st\<lparr> ini_section := s, ini_prev_name := [] \<rparr>)
         | Pair n v \<Rightarrow> ini_call handler (st\<lparr> ini_prev_name := strncpy0 n 50 \<rparr>) n v)"

lemma ini_show_line:
  assumes "ini_item_ok e"
  obtains l where "ini_show e = l @ [NEWLINE]" "NEWLINE \<notin> set l" "length l < 199"
    "\<And>handler st. ini_line handler st (l @ [NEWLINE]) = ini_item_step handler st e"
proof (cases e)
  case (Heading s)
  have w: "ini_word s" "length s < 50" using assms Heading by auto
  have nul: "NUL \<notin> set (s @ '']'')" "NEWLINE \<notin> set s"
    using ini_word_chars(2,3) [OF w(1)] by auto
  have "ini_line handler st ((CHR ''['' # s @ '']'') @ [NEWLINE]) = ini_item_step handler st e" for handler st
    using ini_line_plain [OF nul(1), of "CHR ''[''" "(CHR ''['' # s @ '']'') @ [NEWLINE]" handler st]
      ini_section_line_eq [OF w] Heading
    by (simp add: ini_item_step_def)
  with Heading w nul show ?thesis by (intro that [of "CHR ''['' # s @ '']''"]) auto
next
  case (Pair n v)
  have w: "ini_word n" "ini_value v" "length n + length v < 196" using assms Pair by auto
  obtain c m where n: "n = c # m" using w(1) by (cases n) (auto simp: ini_word_def)
  let ?s = "n @ '' ='' @ (if v = [] then [] else CHR '' '' # v)"
  have chars: "NUL \<notin> set n" "NUL \<notin> set v" "NEWLINE \<notin> set n" "NEWLINE \<notin> set v"
      "v \<noteq> [] \<Longrightarrow> \<not> isspace (last v)" "\<not> isspace c" "c \<notin> set ''[]=:;#''" "c \<noteq> CHR 0xEF"
    using ini_word_chars [OF w(1)] w(2) n by (auto simp: ini_value_def)
  have "ini_line handler st ((n @ '' = '' @ v) @ [NEWLINE]) = ini_item_step handler st e" for handler st
    using ini_line_plain [of "tl ?s" c "(n @ '' = '' @ v) @ [NEWLINE]" handler st]
      ini_pair_line_eq [OF w(1,2) refl, of handler "st\<lparr> ini_lineno := ini_lineno st + 1 \<rparr>"] chars n Pair
    by (cases "v = []") (auto simp: ini_item_step_def)
  with Pair w chars show ?thesis by (intro that [of "n @ '' = '' @ v"]) auto
qed

lemma ini_parse_items:
  "list_all ini_item_ok es \<Longrightarrow>
     ebind (ini_parse_lines h st (ini_lines (concat (map ini_show es)))) (\<lambda>st. Inr (ini_error st, ini_user st)) =
     run_calls h (ini_error st) (ini_user st) (ini_calls (ini_section st) (ini_lineno st) es)"
proof (induction es arbitrary: st)
  case (Cons e es)
  obtain l where l: "ini_show e = l @ [NEWLINE]" "NEWLINE \<notin> set l" "length l < 199"
      "ini_line h st (l @ [NEWLINE]) = ini_item_step h st e"
    using Cons.prems ini_show_line [of e] by (metis list.pred_inject(2))
  then have lines: "ini_lines (concat (map ini_show (e # es))) = (l @ [NEWLINE]) # ini_lines (concat (map ini_show es))"
    by (simp add: ini_lines_line)
  have IH: "ebind (ini_parse_lines h st (ini_lines (concat (map ini_show es)))) (\<lambda>st. Inr (ini_error st, ini_user st)) =
      run_calls h (ini_error st) (ini_user st) (ini_calls (ini_section st) (ini_lineno st) es)" for st
    using Cons by simp
  show ?case
    unfolding lines ini_parse_lines.simps ebind_assoc l(4) IH
    by (cases e) (auto simp: ini_item_step_def ini_call_def ebind_assoc Let_def intro!: arg_cong2 [where f = ebind])
qed simp

text \<open>A line with a word and no separator is an error, whatever the handler.\<close>

lemma ini_parse_bare_word:
  assumes "ini_word w" and "length w < 199"
  shows "ini_parse_file (w @ [NEWLINE]) handler u = Inr (1, u)"
proof -
  obtain c m where w: "w = c # m" using assms(1) by (cases w) (auto simp: ini_word_def)
  have nul: "NUL \<notin> set w" "NEWLINE \<notin> set w" "c \<notin> set ''[]=:;#''" "\<not> isspace c" "c \<noteq> CHR 0xEF"
      "\<not> isspace (last w)"
    using ini_word_chars [OF assms(1)] w by auto
  have "find_loop False (Some ''=:'') (w @ []) = length w + 0"
    using ini_word_chars(4) [OF assms(1)] by (subst find_loop_skip) auto
  then have "find_chars_or_comment w (Some ''=:'') = length w"
    using nul(1) by (simp add: find_chars_or_comment_def)
  moreover have "ini_line handler st (w @ [NEWLINE]) =
      ini_pair_line handler (st\<lparr> ini_lineno := ini_lineno st + 1 \<rparr>) w" for st
    using ini_line_plain [of m c "w @ [NEWLINE]" handler st] nul w by auto
  moreover have "ini_lines (w @ [NEWLINE]) = [w @ [NEWLINE]]"
    using ini_lines_line [OF nul(2) assms(2), of "[]"] by simp
  ultimately show ?thesis
    by (simp add: ini_parse_file_def ini_parse_stream_def ini_pair_line_def ini_bad_line_def)
qed

section \<open>Properties\<close>

text \<open>
  C29. A file of section headings and \<open>name = value\<close> lines within the length limits is read
  as its author means it: for every handler the parser makes exactly the calls the file
  stands for, in order, with section, name, value and line number, also after a refused
  call; it returns the line of the first refused call, or 0.
\<close>

theorem ini_parse_file_calls:
  assumes "list_all ini_item_ok es"
  shows "ini_parse_file (concat (map ini_show es)) handler user = run_calls handler 0 user (ini_calls [] 0 es)"
  unfolding ini_parse_file_def ini_parse_stream_def by (subst ini_parse_items [OF assms]) simp

theorem ini_parse_file_calls_witness:
  "ini_parse_file (concat (map ini_show [Heading ''socket'', Pair ''port'' ''80'', Pair ''x'' []]))
     (\<lambda>u sec n v k. Inr (n = ''port'', (sec, n, v, k) # u)) [] =
   Inr (3, [(''socket'', ''x'', [], 3), (''socket'', ''port'', ''80'', 2)])"
  by (subst ini_parse_file_calls) (simp_all add: ini_word_def ini_value_def isspace_def NUL_def)

end
