(* ===== verification/Gw_String.thy ===== *)
theory Gw_String
  imports Gw_Prelude "HOL-Library.Sublist"
begin

text \<open>
  The string helpers of \<open>lib/string.c\<close> and \<open>sane_strncpy\<close> of \<open>lib/string.h\<close> (the
  non-Windows branches).  A function that writes into a caller's buffer takes the buffer
  or its size, and a write outside it is a fault.  Each encoder is proved against a
  reference decoder: what a POSIX shell, a form decoder or an HTML reader makes of the
  output.
\<close>

section \<open>Shell quoting\<close>

abbreviation (input) QUOTE :: char where "QUOTE \<equiv> CHR 0x27"
abbreviation (input) BACKSLASH :: char where "BACKSLASH \<equiv> CHR 0x5C"

fun escapeshellarg_loop :: "nat \<Rightarrow> bytes \<Rightarrow> bytes \<Rightarrow> bytes res" where
  "escapeshellarg_loop cap [] cmd = Inr cmd"
| "escapeshellarg_loop cap (c # cs) cmd =
     ebind (if c = QUOTE then buf_app cap cmd [QUOTE, BACKSLASH, QUOTE] else Inr cmd) (\<lambda>cmd.
     ebind (buf_app cap cmd [c]) (escapeshellarg_loop cap cs))"

text \<open>
  \<open>alloc\<close> is the size of the caller's buffer, or \<open>None\<close> for \<open>NULL\<close>; then the function
  allocates \<open>4 * l + 1\<close> bytes.  The result is the bytes written and \<open>*res_len\<close>.
\<close>

definition escapeshellarg :: "nat option \<Rightarrow> bytes \<Rightarrow> nat \<Rightarrow> (bytes \<times> nat) res" where
  "escapeshellarg alloc str len =
     (let l = (if 0 < len then len else length (cstr str));
          cap = (case alloc of None \<Rightarrow> l * 4 + 1 | Some n \<Rightarrow> n)
      in ebind (guard (l \<le> length str) OutOfBounds) (\<lambda>_.
         ebind (buf_app cap [] [QUOTE]) (\<lambda>cmd.
         ebind (escapeshellarg_loop cap (take l str) cmd) (\<lambda>cmd.
         ebind (buf_app cap cmd [QUOTE]) (\<lambda>cmd.
         ebind (buf_app cap cmd [NUL]) (\<lambda>cmd'. Inr (cmd', length cmd)))))))"

section \<open>Trimming and truncating\<close>

definition trim_ws :: "char \<Rightarrow> bool" where
  "trim_ws c \<longleftrightarrow> c = CHR '' '' \<or> c = CHR 0x0A \<or> c = CHR 0x0D \<or> c = CHR 0x0B"

fun trim_head :: "bytes \<Rightarrow> nat \<Rightarrow> nat \<Rightarrow> nat \<times> nat" where
  "trim_head buf h 0 = (h, 0)"
| "trim_head buf h (Suc len) =
     (if trim_ws (buf ! h) then trim_head buf (Suc h) len else (h, Suc len))"

text \<open>The tail pointer runs down with the length, so it is \<open>h + len - 1\<close> in every round.\<close>

fun trim_tail :: "bytes \<Rightarrow> nat \<Rightarrow> nat \<Rightarrow> nat" where
  "trim_tail buf h 0 = 0"
| "trim_tail buf h (Suc len) =
     (if trim_ws (buf ! (h + len)) then trim_tail buf h len else Suc len)"

text \<open>The result is the offset of the returned pointer, the buffer and \<open>*res_len\<close>.\<close>

definition trim_len :: "bytes \<Rightarrow> nat \<Rightarrow> (nat \<times> bytes \<times> nat) res" where
  "trim_len buf len =
     ebind (guard (len \<le> length buf) OutOfBounds) (\<lambda>_.
       let (h, l) = trim_head buf 0 len; l' = trim_tail buf h l
       in ebind (if 0 < l' \<and> l' < l then buf_set buf (h + l') NUL else Inr buf) (\<lambda>buf'.
          Inr (h, buf', l')))"

definition trim_len_cpy :: "bytes \<Rightarrow> nat \<Rightarrow> (nat \<times> bytes \<times> nat) res" where
  "trim_len_cpy buf len =
     ebind (guard (len \<le> length buf) OutOfBounds) (\<lambda>_.
       let (h, l) = trim_head buf 0 len; l' = trim_tail buf h l
       in ebind (if 0 < h then
                   ebind (if 0 < l' then buf_put buf 0 (take l' (drop h buf)) else Inr buf) (\<lambda>buf.
                     buf_set buf l' NUL)
                 else Inr buf) (\<lambda>buf'.
          Inr (0, buf', l')))"

definition trim :: "bytes \<Rightarrow> (nat \<times> bytes) res" where
  "trim str = ebind (trim_len str (length (cstr str))) (\<lambda>(h, buf, l). Inr (h, buf))"

definition trim_cpy :: "bytes \<Rightarrow> (nat \<times> bytes) res" where
  "trim_cpy str = ebind (trim_len_cpy str (length (cstr str))) (\<lambda>(h, buf, l). Inr (h, buf))"

definition trunc_str :: "bytes \<Rightarrow> nat \<Rightarrow> bytes res" where
  "trunc_str str n = (if strnlen str n < n then Inr str else buf_set str n NUL)"

definition memzero_explicit :: "bytes \<Rightarrow> nat \<Rightarrow> bytes res" where
  "memzero_explicit s n = buf_put s 0 (replicate n NUL)"

text \<open>
  \<open>strncpy(dest, src, m)\<close> copies at most \<open>m\<close> bytes and pads with null bytes up to \<open>m\<close>;
  \<open>n - 1\<close> is computed in \<open>size_t\<close>.
\<close>

definition strncpy :: "bytes \<Rightarrow> bytes \<Rightarrow> nat \<Rightarrow> bytes res" where
  "strncpy dest src m =
     buf_put dest 0 (take m (cstr src) @ replicate (m - length (cstr src)) NUL)"

definition sane_strncpy :: "bytes \<Rightarrow> bytes \<Rightarrow> nat \<Rightarrow> bytes res" where
  "sane_strncpy dest src n =
     (let m = (if n = 0 then 2 ^ 64 - 1 else n - 1)
      in ebind (strncpy dest src m) (\<lambda>dest. buf_set dest m NUL))"

section \<open>URL encoding\<close>

definition hexchars :: bytes where "hexchars = ''0123456789ABCDEF''"

definition url_escaped :: "bool \<Rightarrow> char \<Rightarrow> bool" where
  "url_escaped raw ch \<longleftrightarrow>
     (let c = byte ch :: nat in
      (c < 48 \<and> c \<noteq> 45 \<and> c \<noteq> 46) \<or> (c < 65 \<and> 57 < c) \<or> (90 < c \<and> c < 97 \<and> c \<noteq> 95) \<or>
      (122 < c \<and> (\<not> raw \<or> c \<noteq> 126)))"

definition url_char :: "bool \<Rightarrow> char \<Rightarrow> bytes" where
  "url_char raw c =
     (if \<not> raw \<and> c = CHR '' '' then ''+''
      else if url_escaped raw c then
        [CHR ''%'', hexchars ! (byte c div 16), hexchars ! (byte c mod 16)]
      else [c])"

fun urlencode_loop :: "nat \<Rightarrow> bool \<Rightarrow> bytes \<Rightarrow> bytes \<Rightarrow> bytes res" where
  "urlencode_loop cap raw [] out = Inr out"
| "urlencode_loop cap raw (c # cs) out =
     ebind (buf_app cap out (url_char raw c)) (urlencode_loop cap raw cs)"

text \<open>The bytes written from the start of the destination, the final null byte included.\<close>

definition urlencode :: "nat option \<Rightarrow> bytes \<Rightarrow> nat \<Rightarrow> bool \<Rightarrow> bytes res" where
  "urlencode alloc s len raw =
     (let cap = (case alloc of None \<Rightarrow> len * 3 + 1 | Some n \<Rightarrow> n)
      in ebind (guard (len \<le> length s) OutOfBounds) (\<lambda>_.
         ebind (urlencode_loop cap raw (take len s) []) (\<lambda>out. buf_app cap out [NUL])))"

section \<open>HTML escaping\<close>

definition html_map :: "char \<Rightarrow> bytes option" where
  "html_map c =
     (if c = CHR ''<'' then Some ''&lt;''
      else if c = CHR ''>'' then Some ''&gt;''
      else if c = CHR 0x22 then Some ''&quot;''
      else if c = CHR ''&'' then Some ''&amp;''
      else None)"

definition html_char :: "char \<Rightarrow> bytes" where
  "html_char c = (case html_map c of None \<Rightarrow> [c] | Some t \<Rightarrow> t)"

text \<open>
  The loop keeps the write position \<open>j\<close>, the length \<open>len\<close> of the replacement that was
  tried last, and the buffer; it stops when the replacement does not fit into \<open>outlen\<close>.
\<close>

fun htmlspecialchars_loop ::
  "nat \<Rightarrow> bytes \<Rightarrow> nat \<Rightarrow> nat \<Rightarrow> bytes \<Rightarrow> (nat \<times> nat \<times> bytes) res" where
  "htmlspecialchars_loop outlen [] j len out = Inr (j, len, out)"
| "htmlspecialchars_loop outlen (c # cs) j len out =
     (let cp = html_char c; len = length cp
      in if outlen \<le> j + len - 1 then Inr (j, len, out)
         else ebind (buf_put out j cp) (\<lambda>out. htmlspecialchars_loop outlen cs (j + len) len out))"

text \<open>
  \<open>out\<close> is the memory from the output pointer to the end of the buffer it points into,
  \<open>outlen\<close> the size the caller gives.  \<open>j\<close> is a \<open>size_t\<close>, so \<open>j -= len\<close> and \<open>++j\<close> wrap.
\<close>

definition htmlspecialchars :: "bytes \<Rightarrow> nat \<Rightarrow> bytes \<Rightarrow> nat \<Rightarrow> (nat \<times> bytes) res" where
  "htmlspecialchars out outlen inp inlen =
     ebind (guard (inlen \<le> length inp) OutOfBounds) (\<lambda>_.
     ebind (htmlspecialchars_loop outlen (take inlen inp) 0 0 out) (\<lambda>(j, len, out).
       if 0 < outlen then
         (let j = (if outlen < j + 1 then (j + 2 ^ 64 - len) mod 2 ^ 64 else j);
              j = (j + 1) mod 2 ^ 64
          in ebind (buf_set out j NUL) (\<lambda>out. Inr (j, out)))
       else Inr (j, out)))"

section \<open>Reference decoders\<close>

text \<open>
  What a POSIX shell makes of a word built from single-quoted parts and backslash
  escapes (\<open>q\<close> tells whether the reader is inside quotes).  Any other unquoted byte, an
  open quote or a trailing backslash gives \<open>None\<close>.
\<close>

fun sh_unquote :: "bool \<Rightarrow> bytes \<Rightarrow> bytes option" where
  "sh_unquote q [] = (if q then None else Some [])"
| "sh_unquote True (c # cs) =
     (if c = QUOTE then sh_unquote False cs else map_option ((#) c) (sh_unquote True cs))"
| "sh_unquote False (c # cs) =
     (if c = QUOTE then sh_unquote True cs
      else if c = BACKSLASH then
        (case cs of [] \<Rightarrow> None | d # ds \<Rightarrow> map_option ((#) d) (sh_unquote False ds))
      else None)"

definition sh_quote :: "bytes \<Rightarrow> bytes" where
  "sh_quote s =
     QUOTE # concat (map (\<lambda>c. if c = QUOTE then [QUOTE, BACKSLASH, QUOTE, QUOTE] else [c]) s) @ [QUOTE]"

text \<open>Form decoding (\<open>application/x-www-form-urlencoded\<close>).\<close>

definition unhex :: "char \<Rightarrow> nat option" where
  "unhex c =
     (if 48 \<le> byte c \<and> byte c \<le> (57::nat) then Some (byte c - 48)
      else if 65 \<le> byte c \<and> byte c \<le> (70::nat) then Some (byte c - 55)
      else None)"

fun url_decode :: "bytes \<Rightarrow> bytes option" where
  "url_decode [] = Some []"
| "url_decode (c # cs) =
     (if c = CHR ''%'' then
        (case cs of
           a # b # ds \<Rightarrow>
             (case (unhex a, unhex b) of
                (Some x, Some y) \<Rightarrow> map_option ((#) (char_of (16 * x + y))) (url_decode ds)
              | _ \<Rightarrow> None)
         | _ \<Rightarrow> None)
      else map_option ((#) (if c = CHR ''+'' then CHR '' '' else c)) (url_decode cs))"

definition urlenc :: "bool \<Rightarrow> bytes \<Rightarrow> bytes" where
  "urlenc raw s = concat (map (url_char raw) s)"

definition htmlenc :: "bytes \<Rightarrow> bytes" where
  "htmlenc s = concat (map html_char s)"

definition html_entities :: "(bytes \<times> char) list" where
  "html_entities =
     [(''lt;'', CHR ''<''), (''gt;'', CHR ''>''), (''quot;'', CHR 0x22), (''amp;'', CHR ''&'')]"

fun html_entity :: "(bytes \<times> char) list \<Rightarrow> bytes \<Rightarrow> (char \<times> nat) option" where
  "html_entity [] s = None"
| "html_entity ((e, c) # es) s =
     (if take (length e) s = e then Some (c, length e) else html_entity es s)"

text \<open>An HTML reader: markup characters are not text, an ampersand starts an entity.\<close>

function html_decode :: "bytes \<Rightarrow> bytes option" where
  "html_decode [] = Some []"
| "html_decode (c # cs) =
     (if c \<in> {CHR ''<'', CHR ''>'', CHR 0x22} then None
      else if c = CHR ''&'' then
        (case html_entity html_entities cs of
           None \<Rightarrow> None
         | Some (d, n) \<Rightarrow> map_option ((#) d) (html_decode (drop n cs)))
      else map_option ((#) c) (html_decode cs))"
  by pat_completeness auto
termination
  by (relation "measure length") auto

text \<open>The text without the white space at its ends.\<close>

definition strip :: "bytes \<Rightarrow> bytes" where
  "strip s = rev (dropWhile trim_ws (rev (dropWhile trim_ws s)))"

section \<open>Shell quoting is read back\<close>

lemma sane_strncpy_fits:
  assumes "length dest = n" and "0 < n"
  shows "\<exists>r. sane_strncpy dest src n = Inr r \<and> length r = n"
  using assms by (simp add: sane_strncpy_def strncpy_def Let_def)

lemma escapeshellarg_loop_eq:
  "length cmd + length (tl (sh_quote s)) \<le> Suc cap \<Longrightarrow>
     escapeshellarg_loop cap s cmd = Inr (cmd @ butlast (tl (sh_quote s)))"
  by (induction s arbitrary: cmd) (auto simp: sh_quote_def butlast_append)

lemma length_sh_quote: "length (sh_quote s) \<le> 4 * length s + 2"
  by (induction s) (auto simp: sh_quote_def)

lemma sh_quote_split: "sh_quote s = [QUOTE] @ butlast (tl (sh_quote s)) @ [QUOTE]"
  by (simp add: sh_quote_def)

lemma escapeshellarg_eq:
  assumes len: "0 < len \<Longrightarrow> len \<le> length str"
    and l: "l = (if 0 < len then len else length (cstr str))"
    and cap: "cap = (case alloc of None \<Rightarrow> l * 4 + 1 | Some n \<Rightarrow> n)"
    and q: "q = sh_quote (take l str)" and fits: "length q < cap"
  shows "escapeshellarg alloc str len = Inr (q @ [NUL], length q)"
proof -
  let ?b = "butlast (tl q)"
  have "l \<le> length str" using len l by (auto simp: length_cstr_le)
  moreover have q': "q = QUOTE # ?b @ [QUOTE]" using sh_quote_split [of "take l str"] q by simp
  then have n: "length q = Suc (Suc (length ?b))" by (metis length_Cons length_append_singleton)
  moreover have "escapeshellarg_loop cap (take l str) [QUOTE] = Inr (QUOTE # ?b)"
    using escapeshellarg_loop_eq [of "[QUOTE]" "take l str" cap] fits q n by simp
  ultimately have "escapeshellarg alloc str len = Inr ((QUOTE # ?b @ [QUOTE]) @ [NUL], Suc (Suc (length ?b)))"
    using fits by (simp add: escapeshellarg_def Let_def l [symmetric] cap [symmetric])
  then show ?thesis unfolding n [symmetric] q' [symmetric] .
qed

lemma sh_unquote_body:
  "sh_unquote True (concat (map (\<lambda>c. if c = QUOTE then [QUOTE, BACKSLASH, QUOTE, QUOTE] else [c]) s) @ [QUOTE])
     = Some s"
  by (induction s) auto

lemma sh_unquote_quote: "sh_unquote False (sh_quote s) = Some s"
  by (simp add: sh_quote_def sh_unquote_body)

lemma NUL_sh_quote [simp]: "NUL \<notin> set s \<Longrightarrow> NUL \<notin> set (sh_quote s)"
  by (auto simp: sh_quote_def NUL_def split: if_splits)

section \<open>URL encoding is read back\<close>

lemma unhex_hexchars [simp]: "n < 16 \<Longrightarrow> unhex (hexchars ! n) = Some n"
  by (simp add: less_Suc_eq numeral_eq_Suc hexchars_def unhex_def) (elim disjE; simp add: unhex_def)

lemma char_of_nibbles [simp]: "char_of (16 * (byte c div 16) + byte c mod 16 :: nat) = c"
  by simp

lemma byte_less_256 [simp]: "byte c < (256::nat)"
  by (metis nat_of_char_less_256)

lemma url_char_length: "1 \<le> length (url_char raw c) \<and> length (url_char raw c) \<le> 3"
  by (simp add: url_char_def)

lemma url_plain: "\<not> url_escaped raw c \<Longrightarrow> c \<noteq> CHR ''%'' \<and> c \<noteq> CHR ''+''"
  by (auto simp: url_escaped_def Let_def)

lemma url_decode_char: "url_decode (url_char raw c @ s) = map_option ((#) c) (url_decode s)"
proof (cases "url_escaped raw c")
  case True
  then show ?thesis by (auto simp: url_char_def less_mult_imp_div_less)
next
  case False
  then show ?thesis using url_plain [OF False] by (auto simp: url_char_def)
qed

lemma url_decode_urlenc: "url_decode (urlenc raw s) = Some s"
  by (induction s) (auto simp: urlenc_def url_decode_char)

lemma length_urlenc: "length (urlenc raw s) \<le> 3 * length s"
  by (induction s) (use url_char_length [of raw] in \<open>auto simp: urlenc_def add_le_mono\<close>)

lemma urlencode_loop_eq:
  "length out + length (urlenc raw s) \<le> cap \<Longrightarrow> urlencode_loop cap raw s out = Inr (out @ urlenc raw s)"
  by (induction s arbitrary: out) (auto simp: urlenc_def)

lemma urlencode_eq:
  assumes "len \<le> length s" and "cap = (case alloc of None \<Rightarrow> len * 3 + 1 | Some n \<Rightarrow> n)"
    and "length (urlenc raw (take len s)) < cap"
  shows "urlencode alloc s len raw = Inr (urlenc raw (take len s) @ [NUL])"
  using assms urlencode_loop_eq [of "[]" raw "take len s" cap]
  by (simp add: urlencode_def Let_def)

text \<open>Letters, digits and the bytes \<open>- . _ ~ % +\<close>: none of them separates form fields.\<close>

definition url_safe :: "char \<Rightarrow> bool" where
  "url_safe c \<longleftrightarrow>
     (let b = byte c :: nat in
      (48 \<le> b \<and> b \<le> 57) \<or> (65 \<le> b \<and> b \<le> 90) \<or> (97 \<le> b \<and> b \<le> 122) \<or>
      b = 45 \<or> b = 46 \<or> b = 95 \<or> b = 126 \<or> b = 37 \<or> b = 43)"

lemma url_safe_hexchars [simp]: "n < 16 \<Longrightarrow> url_safe (hexchars ! n)"
  by (simp add: less_Suc_eq numeral_eq_Suc hexchars_def url_safe_def) (elim disjE; simp add: url_safe_def)

lemma url_safe_plain: "\<not> url_escaped raw c \<Longrightarrow> url_safe c"
  unfolding url_escaped_def url_safe_def Let_def by arith

lemma url_char_safe: "c \<in> set (url_char raw d) \<Longrightarrow> url_safe c"
proof (cases "url_escaped raw d")
  case True
  have "url_safe (CHR ''%'')" "url_safe (CHR ''+'')" by (simp_all add: url_safe_def)
  moreover assume "c \<in> set (url_char raw d)"
  ultimately show ?thesis
    using True by (auto simp: url_char_def less_mult_imp_div_less split: if_splits)
next
  case False
  have "url_safe (CHR ''+'')" by (simp add: url_safe_def)
  moreover assume "c \<in> set (url_char raw d)"
  ultimately show ?thesis
    using False url_safe_plain [OF False] by (auto simp: url_char_def split: if_splits)
qed

lemma urlenc_safe: "c \<in> set (urlenc raw s) \<Longrightarrow> url_safe c"
  by (auto simp: urlenc_def dest: url_char_safe)

lemma NUL_urlenc [simp]: "NUL \<notin> set (urlenc raw s)"
  using urlenc_safe [of NUL raw s] by (auto simp: url_safe_def NUL_def)

section \<open>HTML escaping is read back\<close>

lemma html_char_length: "1 \<le> length (html_char c)" "length (html_char c) \<le> 6"
  by (simp_all add: html_char_def html_map_def)

lemma htmlenc_simps [simp]:
  "htmlenc [] = []" "htmlenc (c # s) = html_char c @ htmlenc s" "htmlenc (s @ t) = htmlenc s @ htmlenc t"
  by (simp_all add: htmlenc_def)

lemma html_decode_char: "html_decode (html_char c @ s) = map_option ((#) c) (html_decode s)"
  by (simp add: html_char_def html_map_def html_entities_def)

lemma html_decode_htmlenc: "html_decode (htmlenc s) = Some s"
  by (induction s) (auto simp: html_decode_char)

lemma html_char_no_markup: "html_char c = d # ds \<Longrightarrow> e \<in> set (html_char c) \<Longrightarrow> e \<notin> {CHR ''<'', CHR ''>'', CHR 0x22}"
  by (auto simp: html_char_def html_map_def split: if_splits)

lemma htmlenc_no_markup: "e \<in> set (htmlenc s) \<Longrightarrow> e \<notin> {CHR ''<'', CHR ''>'', CHR 0x22}"
  by (auto simp: htmlenc_def html_char_def html_map_def split: if_splits)

lemma length_htmlenc: "length (htmlenc s) \<le> 6 * length s"
  by (induction s) (use html_char_length(2) in \<open>auto simp: add_le_mono\<close>)

lemma htmlspecialchars_loop_all:
  "j + length (htmlenc s) \<le> outlen \<Longrightarrow> j + length (htmlenc s) \<le> length out \<Longrightarrow>
     \<exists>l. htmlspecialchars_loop outlen s j len out =
       Inr (j + length (htmlenc s), l, take j out @ htmlenc s @ drop (j + length (htmlenc s)) out)"
proof (induction s arbitrary: j len out)
  case Nil
  then show ?case by simp
next
  case (Cons c s)
  let ?n = "length (html_char c)"
  have fit: "\<not> outlen \<le> j + ?n - 1" "j + ?n \<le> length out"
    using Cons.prems html_char_length(1) [of c] by auto
  obtain l where "htmlspecialchars_loop outlen s (j + ?n) ?n (take j out @ html_char c @ drop (j + ?n) out) =
      Inr (j + ?n + length (htmlenc s), l,
        take (j + ?n) (take j out @ html_char c @ drop (j + ?n) out) @ htmlenc s @
        drop (j + ?n + length (htmlenc s)) (take j out @ html_char c @ drop (j + ?n) out))"
    using Cons.IH [of "j + ?n" "take j out @ html_char c @ drop (j + ?n) out" ?n] Cons.prems fit(2)
    by auto
  then show ?case using fit by (auto simp: Let_def ac_simps min_absorb2)
qed

text \<open>
  What the loop has done when it stops: it has copied the escapes of a prefix of the
  input; \<open>l\<close> is the length of the last replacement, copied or not.
\<close>

lemma htmlspecialchars_loop_prefix:
  assumes "j \<le> outlen" "outlen \<le> length out"
  shows "\<exists>k l. k \<le> length s \<and> j + length (htmlenc (take k s)) \<le> outlen \<and>
    htmlspecialchars_loop outlen s j len out =
      Inr (j + length (htmlenc (take k s)), l,
        take j out @ htmlenc (take k s) @ drop (j + length (htmlenc (take k s))) out) \<and>
    (s = [] \<and> l = len \<or> 1 \<le> l \<and> l \<le> 6)"
  using assms
proof (induction s arbitrary: j len out)
  case Nil
  then show ?case by simp
next
  case (Cons c s)
  let ?n = "length (html_char c)" and ?out = "take j out @ html_char c @ drop (j + length (html_char c)) out"
  show ?case
  proof (cases "outlen \<le> j + ?n - 1")
    case True
    then show ?thesis
      using Cons.prems html_char_length [of c]
      by - (rule exI [of _ 0], rule exI [of _ ?n], simp add: Let_def)
  next
    case False
    then have le: "j + ?n \<le> outlen" using html_char_length(1) [of c] by simp
    then obtain k l where k: "k \<le> length s" "j + ?n + length (htmlenc (take k s)) \<le> outlen"
      "htmlspecialchars_loop outlen s (j + ?n) ?n ?out =
        Inr (j + ?n + length (htmlenc (take k s)), l,
          take (j + ?n) ?out @ htmlenc (take k s) @ drop (j + ?n + length (htmlenc (take k s))) ?out)"
      "s = [] \<and> l = ?n \<or> 1 \<le> l \<and> l \<le> 6"
      using Cons.IH [of "j + ?n" ?out ?n] Cons.prems by auto
    then show ?thesis
      using False le Cons.prems html_char_length [of c]
      by - (rule exI [of _ "Suc k"], rule exI [of _ l], auto simp: Let_def ac_simps min_absorb2)
  qed
qed

section \<open>HTML escaping into a buffer\<close>

lemma htmlspecialchars_eq:
  assumes "inlen \<le> length inp" and "e = htmlenc (take inlen inp)"
    and "length e < outlen" and "length e + 2 \<le> length out" and "outlen < 2 ^ 64"
  shows "htmlspecialchars out outlen inp inlen =
           Inr (length e + 1, e @ [out ! length e, NUL] @ drop (length e + 2) out) \<and>
         html_decode e = Some (take inlen inp)"
proof -
  obtain l where "htmlspecialchars_loop outlen (take inlen inp) 0 0 out = Inr (length e, l, e @ drop (length e) out)"
    using htmlspecialchars_loop_all [of 0 "take inlen inp" outlen out 0] assms by auto
  moreover have "drop (length e) out = out ! length e # out ! Suc (length e) # drop (Suc (Suc (length e))) out"
    using assms(4) by (simp add: Cons_nth_drop_Suc)
  ultimately show ?thesis
    using assms html_decode_htmlenc by (simp add: htmlspecialchars_def list_update_append)
qed

lemma htmlspecialchars_within:
  assumes "inlen \<le> length inp" and "6 \<le> outlen" and "outlen < length out" and "outlen < 2 ^ 64"
  shows "\<exists>r out'. htmlspecialchars out outlen inp inlen = Inr (r, out') \<and> length out' = length out \<and>
           1 \<le> r \<and> r \<le> outlen \<and> prefix (take (r - 1) out') (htmlenc (take inlen inp)) \<and>
           (\<forall>c \<in> set (take (r - 1) out'). c \<notin> {CHR ''<'', CHR ''>'', CHR 0x22}) \<and> out' ! r = NUL"
proof -
  let ?s = "take inlen inp"
  obtain k l where k: "k \<le> length ?s" "length (htmlenc (take k ?s)) \<le> outlen"
      "htmlspecialchars_loop outlen ?s 0 0 out = Inr (length (htmlenc (take k ?s)), l,
         htmlenc (take k ?s) @ drop (length (htmlenc (take k ?s))) out)"
      "?s = [] \<and> l = 0 \<or> 1 \<le> l \<and> l \<le> 6"
    using htmlspecialchars_loop_prefix [of 0 outlen out ?s 0] assms by auto
  define e where "e = htmlenc (take k ?s)"
  define j where "j = (if outlen < length e + 1 then length e - l else length e)"
  have pre: "prefix e (htmlenc ?s)"
    unfolding e_def by (metis append_take_drop_id htmlenc_simps(3) prefixI)
  have l: "1 \<le> l \<and> l \<le> length e" if "outlen < length e + 1"
    using k(4) that assms(2) by (auto simp: e_def)
  have e_le: "length e \<le> outlen" using k(2) unfolding e_def .
  have loop: "htmlspecialchars_loop outlen ?s 0 0 out = Inr (length e, l, e @ drop (length e) out)"
    using k(3) unfolding e_def .
  have j: "j < outlen" "j \<le> length e"
    using l e_le assms(2) by (auto simp: j_def)
  define out' where "out' = (e @ drop (length e) out)[j + 1 := NUL]"
  have wrap: "(if outlen < length e + 1 then (length e + 2 ^ 64 - l) mod 2 ^ 64 else length e) = j"
    using l j(1) assms(4) e_le by (auto simp: j_def mod_if)
  have "htmlspecialchars out outlen inp inlen = Inr (j + 1, out')"
    using assms e_le loop wrap j by (simp add: htmlspecialchars_def out'_def Let_def)
  moreover have "take j out' = take j e" using j by (simp add: out'_def)
  moreover have "prefix (take j e) (htmlenc ?s)"
    using pre by (metis take_is_prefix prefix_order.trans)
  moreover have "\<forall>c \<in> set (take j e). c \<notin> {CHR ''<'', CHR ''>'', CHR 0x22}"
    using htmlenc_no_markup by (auto simp: e_def dest: in_set_takeD)
  moreover have "out' ! (j + 1) = NUL" "length out' = length out"
    using j assms(3) e_le by (auto simp: out'_def)
  ultimately show ?thesis
    using j by (intro exI [of _ "j + 1"] exI [of _ out']) auto
qed

lemma htmlspecialchars_one_too_far:
  assumes "length (htmlenc inp) + 1 = outlen" and "length out = outlen" and "outlen < 2 ^ 64"
  shows "htmlspecialchars out outlen inp (length inp) = Inl OutOfBounds"
proof -
  obtain l where "htmlspecialchars_loop outlen inp 0 0 out =
      Inr (length (htmlenc inp), l, htmlenc inp @ drop (length (htmlenc inp)) out)"
    using htmlspecialchars_loop_all [of 0 inp outlen out 0] assms by auto
  then show ?thesis using assms by (auto simp: htmlspecialchars_def buf_set_def Let_def)
qed

section \<open>Trimming\<close>

lemma trim_head_eq:
  "h + len \<le> length buf \<Longrightarrow>
     trim_head buf h len =
       (h + length (takeWhile trim_ws (take len (drop h buf))),
        length (dropWhile trim_ws (take len (drop h buf))))"
proof (induction buf h len rule: trim_head.induct)
  case (1 buf h)
  then show ?case by simp
next
  case (2 buf h len)
  then have "drop h buf = buf ! h # drop (Suc h) buf" by (simp add: Cons_nth_drop_Suc)
  with 2 show ?case by simp
qed

lemma trim_tail_eq:
  "h + len \<le> length buf \<Longrightarrow>
     trim_tail buf h len = length (dropWhile trim_ws (rev (take len (drop h buf))))"
proof (induction buf h len rule: trim_tail.induct)
  case (1 buf h)
  then show ?case by simp
next
  case (2 buf h len)
  then have "take (Suc len) (drop h buf) = take len (drop h buf) @ [buf ! (h + len)]"
    by (simp add: take_Suc_conv_app_nth)
  with 2 show ?case by simp
qed

lemma strip_Nil: "strip s = [] \<Longrightarrow> dropWhile trim_ws s = []"
  by (metis dropWhile_eq_Nil_conv hd_dropWhile list.set_sel(1) rev_is_Nil_conv set_rev strip_def)

lemma strip_prefix:
  assumes "t = dropWhile trim_ws s"
  shows "strip s = take (length (strip s)) t" "length (strip s) \<le> length t"
proof -
  obtain u where "t = strip s @ u"
    using assms by (metis strip_def rev_append rev_rev_ident takeWhile_dropWhile_id)
  then show "strip s = take (length (strip s)) t" "length (strip s) \<le> length t" by auto
qed

lemma escapeshellarg_loop_overrun:
  "length cmd \<le> cap \<Longrightarrow> cap < length cmd + (length (sh_quote s) - 2) \<Longrightarrow>
     escapeshellarg_loop cap s cmd = Inl OutOfBounds"
proof (induction s arbitrary: cmd)
  case Nil
  then show ?case by (simp add: sh_quote_def)
next
  case (Cons c s)
  let ?e = "if c = QUOTE then [QUOTE, BACKSLASH, QUOTE, QUOTE] else [c]"
  show ?case
  proof (cases "length cmd + length ?e \<le> cap")
    case True
    with Cons.prems Cons.IH [of "cmd @ ?e"] show ?thesis
      by (auto simp: sh_quote_def split: if_splits)
  next
    case False
    then show ?thesis by (auto simp: buf_app_def split: if_splits)
  qed
qed

section \<open>Properties\<close>

text \<open>
  C31. \<open>escapeshellarg\<close> is safe to put into a shell command: into a buffer of at least
  \<open>4 * l + 3\<close> bytes it writes a word that a POSIX shell reads back as exactly the
  argument, with every byte inside quotes or escaped, and \<open>*res_len\<close> is its length.
\<close>

theorem escapeshellarg_roundtrip:
  assumes "NUL \<notin> set s" and "4 * length s + 3 \<le> n"
  shows "\<exists>out. escapeshellarg (Some n) (s @ [NUL]) 0 = Inr (out @ [NUL], length out) \<and>
           sh_unquote False out = Some s"
proof -
  have "length (sh_quote s) < n" using length_sh_quote [of s] assms(2) by simp
  then have "escapeshellarg (Some n) (s @ [NUL]) 0 = Inr (sh_quote s @ [NUL], length (sh_quote s))"
    using assms(1) by (intro escapeshellarg_eq [where l = "length s"]) simp_all
  with sh_unquote_quote show ?thesis by blast
qed

theorem escapeshellarg_roundtrip_witness:
  "\<exists>out. escapeshellarg (Some 24) (''it's'' @ [NUL]) 0 = Inr (out @ [NUL], length out) \<and>
     sh_unquote False out = Some ''it's''"
  using escapeshellarg_roundtrip [of "''it's''" 24] by (simp add: NUL_def)

text \<open>
  The buffer that \<open>escapeshellarg\<close> allocates for itself is too small: it has
  \<open>4 * l + 1\<close> bytes, and the function writes outside it exactly when the quoted word has
  more than \<open>4 * l\<close> bytes, so for the empty string and for every string of quotes.
\<close>

theorem escapeshellarg_alloc_overrun:
  assumes "NUL \<notin> set s"
  shows "escapeshellarg None (s @ [NUL]) 0 = Inl OutOfBounds \<longleftrightarrow> 4 * length s < length (sh_quote s)"
proof (cases "4 * length s < length (sh_quote s)")
  case False
  then have "escapeshellarg None (s @ [NUL]) 0 = Inr (sh_quote s @ [NUL], length (sh_quote s))"
    using assms
    by (intro escapeshellarg_eq [where l = "length s" and cap = "length s * 4 + 1"]) simp_all
  with False show ?thesis by simp
next
  case True
  let ?cap = "length s * 4 + 1" and ?b = "length (sh_quote s) - 2"
  have two: "2 \<le> length (sh_quote s)" by (simp add: sh_quote_def)
  have "escapeshellarg_loop ?cap s [QUOTE] =
      (if ?cap < 1 + ?b then Inl OutOfBounds else Inr (QUOTE # butlast (tl (sh_quote s))))"
    using escapeshellarg_loop_overrun [of "[QUOTE]" ?cap s] escapeshellarg_loop_eq [of "[QUOTE]" s ?cap] two
    by auto
  moreover have "length (butlast (tl (sh_quote s))) = ?b" by simp
  ultimately show ?thesis
    using assms True two by (auto simp: escapeshellarg_def buf_app_def Let_def)
qed

theorem escapeshellarg_alloc_overrun_witness:
  "escapeshellarg None ([QUOTE] @ [NUL]) 0 = Inl OutOfBounds \<and> escapeshellarg None ([] @ [NUL]) 0 = Inl OutOfBounds"
  using escapeshellarg_alloc_overrun [of "[QUOTE]"] escapeshellarg_alloc_overrun [of "[]"]
  by (simp add: NUL_def sh_quote_def)

text \<open>
  C32. \<open>urlencode\<close> never overruns the buffer of \<open>3 * len + 1\<close> bytes it allocates; its output
  contains no byte that separates the fields of a form, and a form decoder reads back the
  input, in both modes.
\<close>

theorem urlencode_roundtrip:
  assumes "len \<le> length s"
  shows "\<exists>out. urlencode None s len raw = Inr (out @ [NUL]) \<and> url_decode out = Some (take len s) \<and>
           list_all url_safe out \<and> length out \<le> 3 * len"
proof -
  have "length (urlenc raw (take len s)) \<le> 3 * len"
    using length_urlenc [of raw "take len s"] assms by simp
  moreover have "urlencode None s len raw = Inr (urlenc raw (take len s) @ [NUL])"
    using calculation assms by (intro urlencode_eq [where cap = "len * 3 + 1"]) simp_all
  ultimately show ?thesis
    using url_decode_urlenc urlenc_safe by (auto simp: list_all_iff)
qed

theorem urlencode_roundtrip_witness:
  "\<exists>out. urlencode None ''a&b=c d'' 7 True = Inr (out @ [NUL]) \<and> url_decode out = Some ''a&b=c d'' \<and>
     list_all url_safe out \<and> length out \<le> 21"
  using urlencode_roundtrip [of 7 "''a&b=c d''" True] by simp

text \<open>
  C33. \<open>htmlspecialchars\<close> on a buffer with room: it writes exactly the escaped text, which
  an HTML reader decodes to the input, and returns the length of that text plus one; the
  null byte is written one place after the byte that follows the text, and that byte keeps
  its old value.
\<close>

theorem htmlspecialchars_exact:
  assumes "inlen \<le> length inp" and "e = htmlenc (take inlen inp)"
    and "length e < outlen" and "length e + 2 \<le> length out" and "outlen < 2 ^ 64"
  shows "htmlspecialchars out outlen inp inlen =
           Inr (length e + 1, e @ [out ! length e, NUL] @ drop (length e + 2) out) \<and>
         html_decode e = Some (take inlen inp)"
  by (rule htmlspecialchars_eq [OF assms])

theorem htmlspecialchars_exact_witness:
  "htmlspecialchars ''................'' 15 ''<b>&'' 4 = Inr (15, ''&lt;b&gt;&amp;.'' @ [NUL])"
  using htmlspecialchars_exact [of 4 "''<b>&''" "''&lt;b&gt;&amp;''" 15 "''................''"]
  by (simp add: html_char_def html_map_def)

text \<open>
  C34. \<open>htmlspecialchars\<close> with a limit of at least 6 on a memory that is larger than the
  limit never writes outside it: whatever the input, the text it leaves is a prefix of the
  escaped input, without the characters \<open>< > "\<close>, followed one byte later by a null byte, and
  it returns at most the limit.
\<close>

theorem htmlspecialchars_safe:
  assumes "inlen \<le> length inp" and "6 \<le> outlen" and "outlen < length out" and "outlen < 2 ^ 64"
  shows "\<exists>r out'. htmlspecialchars out outlen inp inlen = Inr (r, out') \<and> length out' = length out \<and>
           1 \<le> r \<and> r \<le> outlen \<and> prefix (take (r - 1) out') (htmlenc (take inlen inp)) \<and>
           (\<forall>c \<in> set (take (r - 1) out'). c \<notin> {CHR ''<'', CHR ''>'', CHR 0x22}) \<and> out' ! r = NUL"
  by (rule htmlspecialchars_within [OF assms])

theorem htmlspecialchars_safe_witness:
  "\<exists>r out'. htmlspecialchars ''.......'' 6 ''ab<cd'' 5 = Inr (r, out') \<and> length out' = 7 \<and>
     1 \<le> r \<and> r \<le> 6 \<and> prefix (take (r - 1) out') (htmlenc ''ab<cd'') \<and> out' ! r = NUL"
  using htmlspecialchars_safe [of 5 "''ab<cd''" 6 "''.......''"] by auto

text \<open>
  With a memory of exactly the size the caller gives, \<open>htmlspecialchars\<close> writes one
  byte outside it when the escaped text has one byte less than that size, the case the
  limit is meant to allow.
\<close>

theorem htmlspecialchars_overrun:
  assumes "length (htmlenc inp) + 1 = outlen" and "length out = outlen" and "outlen < 2 ^ 64"
  shows "htmlspecialchars out outlen inp (length inp) = Inl OutOfBounds"
  by (rule htmlspecialchars_one_too_far [OF assms])

theorem htmlspecialchars_overrun_witness:
  "htmlspecialchars ''......'' 6 ''a<'' (Suc (Suc 0)) = Inl OutOfBounds"
  using htmlspecialchars_overrun [of "''a<''" 6 "''......''"] by (simp add: html_char_def html_map_def)

text \<open>
  \<open>trim\<close> returns a pointer into its argument at which the C string is the argument
  without the blanks, newlines, carriage returns and vertical tabs at both ends, and it
  writes only inside the argument.
\<close>

theorem trim_strips:
  assumes "NUL \<notin> set s"
  shows "\<exists>h buf. trim (s @ NUL # t) = Inr (h, buf) \<and> length buf = length (s @ NUL # t) \<and>
           cstr (drop h buf) = strip s"
proof -
  let ?b = "s @ NUL # t" and ?w = "takeWhile trim_ws s" and ?d = "dropWhile trim_ws s"
  let ?n = "length (strip s)"
  have s: "s = ?w @ ?d" by simp
  have hd: "trim_head ?b 0 (length s) = (length ?w, length ?d)" by (simp add: trim_head_eq)
  have drop: "drop (length ?w) ?b = ?d @ NUL # t" by (subst s) (simp del: takeWhile_dropWhile_id)
  have drop_w: "drop (length ?w) s = ?d" by (metis append_eq_conv_conj s)
  have "length ?w + length ?d = length s" by (metis s length_append)
  then have tl: "trim_tail ?b (length ?w) (length ?d) = ?n"
    by (simp add: trim_tail_eq drop drop_w strip_def)
  have d: "NUL \<notin> set ?d" using assms by (meson set_dropWhileD)
  obtain u where u: "?d = strip s @ u" using strip_prefix(1) [OF refl] by (metis append_take_drop_id)
  show ?thesis
  proof (cases "0 < ?n \<and> ?n < length ?d")
    case True
    then obtain a v where "u = a # v" using u by (cases u) auto
    then have "drop (length ?w) (?b[length ?w + ?n := NUL]) = strip s @ NUL # v @ NUL # t"
      by (subst drop_update_swap) (simp_all add: drop u del: drop_append)
    moreover have "NUL \<notin> set (strip s)" using d u by auto
    ultimately have "cstr (drop (length ?w) (?b[length ?w + ?n := NUL])) = strip s" by simp
    with True hd tl assms \<open>length ?w + length ?d = length s\<close> show ?thesis
      by (simp add: trim_def trim_len_def Let_def)
  next
    case False
    then have "?d = strip s" using u strip_Nil [of s] by auto
    then have "cstr (drop (length ?w) ?b) = strip s" using d drop by simp
    with False hd tl assms show ?thesis
      by (auto simp: trim_def trim_len_def)
  qed
qed

theorem trim_strips_witness:
  "\<exists>h buf. trim (''  Hello World  '' @ NUL # []) = Inr (h, buf) \<and>
     cstr (drop h buf) = ''Hello World''"
  using trim_strips [of "''  Hello World  ''" "[]"] by (auto simp: NUL_def strip_def trim_ws_def)

end
