(* ===== verification/Config.thy ===== *)
theory Config
  imports Arena Inih Gw_String
begin

text \<open>
  Command line, configuration file and the checks on the result: \<open>include/gwbot/config.h\<close>,
  \<open>config.c\<close>, \<open>argv.c\<close>, \<open>main.c\<close>, and \<open>validate_mysql_cfg\<close> and \<open>validate_cfg\<close> of
  \<open>core/server.c\<close>.  A \<open>char *\<close> of the configuration points into the arena or to an
  argument of the command line.  The file system is an argument: \<open>fopen\<close> answers with an
  error number or with the contents of the file, and so is what \<open>getopt_long\<close> returns.
\<close>

section \<open>The configuration\<close>

datatype cptr = InArena nat | InArgv bytes

record gwbot_sock_cfg =
  sk_bind_addr :: "cptr option"
  sk_backlog :: int
  sk_bind_port :: u16

record gwbot_cred_cfg =
  cr_token :: "cptr option"

record gwbot_wrk_cfg =
  wk_thread_c :: u16

record gwbot_mysql_cfg =
  my_host :: "cptr option"
  my_user :: "cptr option"
  my_pass :: "cptr option"
  my_db :: "cptr option"
  my_port :: u16
  my_unix_sock :: "cptr option"
  my_flags :: u32

record gwbot_cfg =
  cfg_file :: "cptr option"
  cfg_cred :: gwbot_cred_cfg
  cfg_sock :: gwbot_sock_cfg
  cfg_worker :: gwbot_wrk_cfg
  cfg_mysql :: gwbot_mysql_cfg
  cfg_use_db :: bool

text \<open>The string a pointer denotes.\<close>

fun cp_str :: "arena \<Rightarrow> cptr \<Rightarrow> bytes" where
  "cp_str a (InArena p) = ar_str a p"
| "cp_str a (InArgv s) = cstr s"

text \<open>\<open>memset(&cfg, 0, sizeof(cfg))\<close> in \<open>main\<close>.\<close>

definition cfg_zero :: gwbot_cfg where
  "cfg_zero = \<lparr> cfg_file = None, cfg_cred = \<lparr> cr_token = None \<rparr>,
     cfg_sock = \<lparr> sk_bind_addr = None, sk_backlog = 0, sk_bind_port = 0 \<rparr>,
     cfg_worker = \<lparr> wk_thread_c = 0 \<rparr>,
     cfg_mysql = \<lparr> my_host = None, my_user = None, my_pass = None, my_db = None, my_port = 0,
                   my_unix_sock = None, my_flags = 0 \<rparr>,
     cfg_use_db = False \<rparr>"

section \<open>The configuration file\<close>

record parse_struct =
  ctx_exec :: bool
  ctx_cfg :: gwbot_cfg
  ctx_ar :: arena

text \<open>\<open>field = ar_strndup(value, 255)\<close>, and \<open>field = number\<close>.\<close>

definition put_str ::
  "parse_struct \<Rightarrow> bytes \<Rightarrow> (cptr option \<Rightarrow> gwbot_cfg \<Rightarrow> gwbot_cfg) \<Rightarrow> (bool \<times> parse_struct) res" where
  "put_str ctx val upd =
     ebind (ar_strndup (ctx_ar ctx) val 255) (\<lambda>(p, a).
       Inr (True, ctx\<lparr> ctx_ar := a, ctx_cfg := upd (Some (InArena p)) (ctx_cfg ctx) \<rparr>))"

definition put_num :: "parse_struct \<Rightarrow> (gwbot_cfg \<Rightarrow> gwbot_cfg) \<Rightarrow> (bool \<times> parse_struct) res" where
  "put_num ctx upd = Inr (True, ctx\<lparr> ctx_cfg := upd (ctx_cfg ctx) \<rparr>)"

definition out_err :: "parse_struct \<Rightarrow> (bool \<times> parse_struct) res" where
  "out_err ctx = Inr (False, ctx\<lparr> ctx_exec := False \<rparr>)"

definition parser_handler :: "parse_struct ini_handler" where
  "parser_handler ctx section name val lineno =
     (if section = ''credential'' then
        if name = ''token'' then put_str ctx val (\<lambda>p. cfg_cred_update (cr_token_update (\<lambda>_. p)))
        else out_err ctx
      else if section = ''storage'' then Inr (True, ctx)
      else if section = ''mysql'' then
        if name = ''use_db'' then put_num ctx (cfg_use_db_update (\<lambda>_. atoi val \<noteq> 0))
        else if name = ''host'' then put_str ctx val (\<lambda>p. cfg_mysql_update (my_host_update (\<lambda>_. p)))
        else if name = ''port'' then
          put_num ctx (cfg_mysql_update (my_port_update (\<lambda>_. word_of_int (atoi val))))
        else if name = ''user'' then put_str ctx val (\<lambda>p. cfg_mysql_update (my_user_update (\<lambda>_. p)))
        else if name = ''pass'' then put_str ctx val (\<lambda>p. cfg_mysql_update (my_pass_update (\<lambda>_. p)))
        else if name = ''dbname'' then put_str ctx val (\<lambda>p. cfg_mysql_update (my_db_update (\<lambda>_. p)))
        else if name = ''unix_sock'' then
          put_str ctx val (\<lambda>p. cfg_mysql_update (my_unix_sock_update (\<lambda>_. p)))
        else out_err ctx
      else if section = ''socket'' then
        if name = ''bind_addr'' then put_str ctx val (\<lambda>p. cfg_sock_update (sk_bind_addr_update (\<lambda>_. p)))
        else if name = ''bind_port'' then
          put_num ctx (cfg_sock_update (sk_bind_port_update (\<lambda>_. word_of_int (atoi val))))
        else if name = ''backlog'' then put_num ctx (cfg_sock_update (sk_backlog_update (\<lambda>_. atoi val)))
        else out_err ctx
      else if section = ''worker'' then
        if name = ''thread_c'' then
          put_num ctx (cfg_worker_update (wk_thread_c_update (\<lambda>_. word_of_int (atoi val))))
        else out_err ctx
      else out_err ctx)"

definition gwbot_cfg_parse ::
  "(bytes \<Rightarrow> int + bytes) \<Rightarrow> arena \<Rightarrow> gwbot_cfg \<Rightarrow> (int \<times> gwbot_cfg \<times> arena) res" where
  "gwbot_cfg_parse fopen a cfg =
     (case cfg_file cfg of
        None \<Rightarrow> Inr (0, cfg, a)
      | Some p \<Rightarrow>
          if cp_str a p = [] then Inr (0, cfg, a)
          else case fopen (cp_str a p) of
                 Inl err \<Rightarrow> Inr (- err, cfg, a)
               | Inr contents \<Rightarrow>
                   ebind (ini_parse_file contents parser_handler
                            \<lparr> ctx_exec = True, ctx_cfg = cfg, ctx_ar = a \<rparr>) (\<lambda>(ret, ctx).
                     let retval = (if int ret < 0 then -1 else if \<not> ctx_exec ctx then - EINVAL else 0)
                     in Inr (retval, ctx_cfg ctx, ctx_ar ctx)))"

section \<open>Checks\<close>

definition validate_mysql_cfg :: "gwbot_mysql_cfg \<Rightarrow> int" where
  "validate_mysql_cfg mysql =
     (if my_host mysql = None then - EINVAL
      else if my_user mysql = None then - EINVAL
      else if my_db mysql = None then - EINVAL
      else 0)"

definition empty_str :: "arena \<Rightarrow> cptr option \<Rightarrow> bool" where
  "empty_str a p = (case p of None \<Rightarrow> True | Some q \<Rightarrow> cp_str a q = [])"

definition validate_cfg :: "arena \<Rightarrow> gwbot_cfg \<Rightarrow> int" where
  "validate_cfg a cfg =
     (let sock = cfg_sock cfg; cred = cfg_cred cfg; worker = cfg_worker cfg; mysql = cfg_mysql cfg
      in if empty_str a (sk_bind_addr sock) then - EINVAL
         else if sk_bind_port sock = 0 then - EINVAL
         else if sk_backlog sock = 0 then - EINVAL
         else if empty_str a (cr_token cred) then - EINVAL
         else if wk_thread_c worker = 0 then - EINVAL
         else if cfg_use_db cfg \<and> validate_mysql_cfg mysql \<noteq> 0 then validate_mysql_cfg mysql
         else 0)"

section \<open>The command line\<close>

text \<open>
  \<open>getopt_long\<close> is given by the options it returns, each with \<open>optarg\<close>; \<open>exit(0)\<close> ends
  the program.
\<close>

datatype outcome = Return int | Exit int

fun getopt_handler :: "(char \<times> bytes) list \<Rightarrow> gwbot_cfg \<Rightarrow> (outcome \<times> gwbot_cfg) res" where
  "getopt_handler [] cfg = Inr (Return 0, cfg)"
| "getopt_handler ((c, optarg) # opts) cfg =
     (if c = CHR ''h'' then Inr (Exit 0, cfg)
      else if c = CHR ''v'' then Inr (Exit 0, cfg)
      else if c = CHR ''t'' then
        ebind (trunc_str optarg 255) (\<lambda>s.
          getopt_handler opts (cfg\<lparr> cfg_cred := (cfg_cred cfg)\<lparr> cr_token := Some (InArgv s) \<rparr> \<rparr>))
      else if c = CHR ''c'' then
        ebind (trunc_str optarg 255) (\<lambda>s.
          getopt_handler opts (cfg\<lparr> cfg_file := Some (InArgv s) \<rparr>))
      else Inr (Return (- EINVAL), cfg))"

definition gwbot_argv_parse :: "(char \<times> bytes) list \<Rightarrow> gwbot_cfg \<Rightarrow> (outcome \<times> gwbot_cfg) res" where
  "gwbot_argv_parse opts cfg =
     ebind (getopt_handler opts cfg) (\<lambda>(r, cfg).
       Inr (case r of Exit e \<Rightarrow> Exit e | Return ret \<Rightarrow> if ret < 0 then Return ret else Return 0, cfg))"

text \<open>The status \<open>main\<close> leaves with; \<open>run\<close> is \<open>gwbot_run\<close>.\<close>

definition gwbot_main ::
  "(bytes \<Rightarrow> int + bytes) \<Rightarrow> (arena \<Rightarrow> gwbot_cfg \<Rightarrow> int res) \<Rightarrow> (char \<times> bytes) list \<Rightarrow> int res" where
  "gwbot_main fopen run opts =
     (let a = ar_init (replicate 4096 NUL) 4096
      in ebind (gwbot_argv_parse opts cfg_zero) (\<lambda>(r, cfg).
           case r of
             Exit e \<Rightarrow> Inr e
           | Return ret \<Rightarrow>
               if ret \<noteq> 0 then Inr ret
               else if cfg_file cfg \<noteq> None then
                 ebind (gwbot_cfg_parse fopen a cfg) (\<lambda>(ret, cfg, a).
                   if ret \<noteq> 0 then Inr ret else run a cfg)
               else run a cfg))"

section \<open>What a configuration means\<close>

text \<open>
  The abstract configuration is a map from section and name to the value given last.
  \<open>cfg_rel\<close> relates it to the record: a string field points to its value, a number field
  holds the number, and a field that was never set is null or zero.
\<close>

type_synonym settings = "bytes \<times> bytes \<rightharpoonup> bytes"

definition str_rel :: "settings \<Rightarrow> arena \<Rightarrow> bytes \<times> bytes \<Rightarrow> cptr option \<Rightarrow> bool" where
  "str_rel m a k p =
     (case p of
        None \<Rightarrow> m k = None
      | Some (InArena q) \<Rightarrow> ar_live a q \<and> m k = Some (ar_str a q)
      | Some (InArgv s) \<Rightarrow> m k = Some (cstr s))"

definition num_of :: "settings \<Rightarrow> bytes \<times> bytes \<Rightarrow> int" where
  "num_of m k = (case m k of None \<Rightarrow> 0 | Some v \<Rightarrow> atoi v)"

definition cfg_rel :: "settings \<Rightarrow> arena \<Rightarrow> gwbot_cfg \<Rightarrow> bool" where
  "cfg_rel m a cfg \<longleftrightarrow>
     str_rel m a (''credential'', ''token'') (cr_token (cfg_cred cfg)) \<and>
     str_rel m a (''mysql'', ''host'') (my_host (cfg_mysql cfg)) \<and>
     str_rel m a (''mysql'', ''user'') (my_user (cfg_mysql cfg)) \<and>
     str_rel m a (''mysql'', ''pass'') (my_pass (cfg_mysql cfg)) \<and>
     str_rel m a (''mysql'', ''dbname'') (my_db (cfg_mysql cfg)) \<and>
     str_rel m a (''mysql'', ''unix_sock'') (my_unix_sock (cfg_mysql cfg)) \<and>
     str_rel m a (''socket'', ''bind_addr'') (sk_bind_addr (cfg_sock cfg)) \<and>
     cfg_use_db cfg = (num_of m (''mysql'', ''use_db'') \<noteq> 0) \<and>
     my_port (cfg_mysql cfg) = word_of_int (num_of m (''mysql'', ''port'')) \<and>
     sk_bind_port (cfg_sock cfg) = word_of_int (num_of m (''socket'', ''bind_port'')) \<and>
     sk_backlog (cfg_sock cfg) = num_of m (''socket'', ''backlog'') \<and>
     wk_thread_c (cfg_worker cfg) = word_of_int (num_of m (''worker'', ''thread_c''))"

definition cfg_known :: "bytes \<Rightarrow> bytes \<Rightarrow> bool" where
  "cfg_known sec n \<longleftrightarrow> sec = ''storage'' \<or>
     (sec, n) \<in> set [(''credential'', ''token''), (''mysql'', ''use_db''), (''mysql'', ''host''),
       (''mysql'', ''port''), (''mysql'', ''user''), (''mysql'', ''pass''), (''mysql'', ''dbname''),
       (''mysql'', ''unix_sock''), (''socket'', ''bind_addr''), (''socket'', ''bind_port''),
       (''socket'', ''backlog''), (''worker'', ''thread_c'')]"

fun call_key :: "bytes \<times> bytes \<times> bytes \<times> nat \<Rightarrow> bytes \<times> bytes" where
  "call_key (sec, n, v, k) = (sec, n)"

fun call_val :: "bytes \<times> bytes \<times> bytes \<times> nat \<Rightarrow> bytes" where
  "call_val (sec, n, v, k) = v"

definition settings_of :: "settings \<Rightarrow> (bytes \<times> bytes \<times> bytes \<times> nat) list \<Rightarrow> settings" where
  "settings_of = foldl (\<lambda>m c. m(call_key c \<mapsto> call_val c))"

text \<open>What the calls take from the arena at most: every value with a terminator.\<close>

definition calls_size :: "(bytes \<times> bytes \<times> bytes \<times> nat) list \<Rightarrow> nat" where
  "calls_size cs = sum_list (map (\<lambda>c. length (call_val c) + 1) cs)"

section \<open>Lemmas\<close>

lemma str_rel_value: "str_rel m a k p \<Longrightarrow> map_option (cp_str a) p = m k"
  by (auto simp: str_rel_def split: option.splits cptr.splits)

lemma str_rel_other: "str_rel m a k p \<Longrightarrow> k \<noteq> k' \<Longrightarrow> str_rel (m(k' \<mapsto> v)) a k p"
  by (auto simp: str_rel_def split: option.splits cptr.splits)

lemma str_rel_grow:
  "str_rel m a k p \<Longrightarrow> ar_wf a \<Longrightarrow> ar_strndup a x 255 = Inr (q, a') \<Longrightarrow> str_rel m a' k p"
  using ar.dup_old [of a x q a'] by (auto simp: str_rel_def split: option.splits cptr.splits)

lemma num_of_other: "k \<noteq> k' \<Longrightarrow> num_of (m(k' \<mapsto> v)) k = num_of m k"
  by (simp add: num_of_def)

lemma num_of_same: "num_of (m(k \<mapsto> v)) k = atoi v"
  by (simp add: num_of_def)

lemmas rel_simps = cfg_rel_def num_of_other num_of_same

text \<open>A setting stored in the arena, for whichever field the handler puts it in.\<close>

lemma put_str_rel:
  assumes "ar_wf (ctx_ar ctx)" and "cfg_rel m (ctx_ar ctx) (ctx_cfg ctx)"
    and "NUL \<notin> set v" and "length v \<le> 255" and "length v + 1 < ar_room (ctx_ar ctx)"
    and upd: "\<And>p a. \<lbrakk> cfg_rel m a (ctx_cfg ctx); str_rel (m(k \<mapsto> v)) a k (Some p) \<rbrakk> \<Longrightarrow>
                cfg_rel (m(k \<mapsto> v)) a (upd (Some p) (ctx_cfg ctx))"
  shows "\<exists>ctx'. put_str ctx v upd = Inr (True, ctx') \<and> ctx_exec ctx' = ctx_exec ctx \<and>
           ar_wf (ctx_ar ctx') \<and> cfg_rel (m(k \<mapsto> v)) (ctx_ar ctx') (ctx_cfg ctx') \<and>
           ar_room (ctx_ar ctx) \<le> ar_room (ctx_ar ctx') + (length v + 1)"
proof -
  obtain p a' where dup: "ar_strndup (ctx_ar ctx) v 255 = Inr (p, a')"
      and room: "ar_room a' = ar_room (ctx_ar ctx) - (min 255 (length (cstr v)) + 1)"
    using ar.dup_room [of "ctx_ar ctx" v] assms(1,3,4,5) by auto
  have new: "ar_wf a'" "ar_live a' p" "ar_str a' p = v"
    using ar.dup_new [OF assms(1) dup] assms(3,4) by auto
  have "cfg_rel m a' (ctx_cfg ctx)"
    using assms(2) str_rel_grow [OF _ assms(1) dup] by (simp add: cfg_rel_def)
  then have "cfg_rel (m(k \<mapsto> v)) a' (upd (Some (InArena p)) (ctx_cfg ctx))"
    using new by (intro upd) (simp_all add: str_rel_def)
  with dup new room assms(3,4) show ?thesis by (simp add: put_str_def)
qed

lemma put_num_rel:
  assumes "ar_wf (ctx_ar ctx)" and "cfg_rel (m(k \<mapsto> v)) (ctx_ar ctx) (upd (ctx_cfg ctx))"
  shows "\<exists>ctx'. put_num ctx upd = Inr (True, ctx') \<and> ctx_exec ctx' = ctx_exec ctx \<and>
           ar_wf (ctx_ar ctx') \<and> cfg_rel (m(k \<mapsto> v)) (ctx_ar ctx') (ctx_cfg ctx') \<and>
           ar_room (ctx_ar ctx) \<le> ar_room (ctx_ar ctx') + (length v + 1)"
  using assms by (simp add: put_num_def)

lemma handler_eqs:
  "parser_handler ctx ''credential'' ''token'' v l =
     put_str ctx v (\<lambda>p. cfg_cred_update (cr_token_update (\<lambda>_. p)))"
  "parser_handler ctx ''mysql'' ''use_db'' v l = put_num ctx (cfg_use_db_update (\<lambda>_. atoi v \<noteq> 0))"
  "parser_handler ctx ''mysql'' ''host'' v l =
     put_str ctx v (\<lambda>p. cfg_mysql_update (my_host_update (\<lambda>_. p)))"
  "parser_handler ctx ''mysql'' ''port'' v l =
     put_num ctx (cfg_mysql_update (my_port_update (\<lambda>_. word_of_int (atoi v))))"
  "parser_handler ctx ''mysql'' ''user'' v l =
     put_str ctx v (\<lambda>p. cfg_mysql_update (my_user_update (\<lambda>_. p)))"
  "parser_handler ctx ''mysql'' ''pass'' v l =
     put_str ctx v (\<lambda>p. cfg_mysql_update (my_pass_update (\<lambda>_. p)))"
  "parser_handler ctx ''mysql'' ''dbname'' v l =
     put_str ctx v (\<lambda>p. cfg_mysql_update (my_db_update (\<lambda>_. p)))"
  "parser_handler ctx ''mysql'' ''unix_sock'' v l =
     put_str ctx v (\<lambda>p. cfg_mysql_update (my_unix_sock_update (\<lambda>_. p)))"
  "parser_handler ctx ''socket'' ''bind_addr'' v l =
     put_str ctx v (\<lambda>p. cfg_sock_update (sk_bind_addr_update (\<lambda>_. p)))"
  "parser_handler ctx ''socket'' ''bind_port'' v l =
     put_num ctx (cfg_sock_update (sk_bind_port_update (\<lambda>_. word_of_int (atoi v))))"
  "parser_handler ctx ''socket'' ''backlog'' v l =
     put_num ctx (cfg_sock_update (sk_backlog_update (\<lambda>_. atoi v)))"
  "parser_handler ctx ''worker'' ''thread_c'' v l =
     put_num ctx (cfg_worker_update (wk_thread_c_update (\<lambda>_. word_of_int (atoi v))))"
  by (simp_all add: parser_handler_def)

lemma parser_handler_known:
  assumes wf: "ar_wf (ctx_ar ctx)" and rel: "cfg_rel m (ctx_ar ctx) (ctx_cfg ctx)"
    and v: "NUL \<notin> set v" "length v \<le> 255" "length v + 1 < ar_room (ctx_ar ctx)"
    and known: "cfg_known sec n"
  shows "\<exists>ctx'. parser_handler ctx sec n v l = Inr (True, ctx') \<and> ctx_exec ctx' = ctx_exec ctx \<and>
           ar_wf (ctx_ar ctx') \<and> cfg_rel (m((sec, n) \<mapsto> v)) (ctx_ar ctx') (ctx_cfg ctx') \<and>
           ar_room (ctx_ar ctx) \<le> ar_room (ctx_ar ctx') + (length v + 1)"
proof -
  note str = put_str_rel [OF wf rel v] and num = put_num_rel [OF wf]
  note rels = rel_simps str_rel_other
  show ?thesis
  proof (cases "sec = ''storage''")
    case True
    with wf rel show ?thesis by (simp add: parser_handler_def rels)
  next
    case False
    then have "(sec, n) \<in> set [(''credential'', ''token''), (''mysql'', ''host''), (''mysql'', ''user''),
          (''mysql'', ''pass''), (''mysql'', ''dbname''), (''mysql'', ''unix_sock''), (''socket'', ''bind_addr'')] \<or>
        (sec, n) \<in> set [(''mysql'', ''use_db''), (''mysql'', ''port''), (''socket'', ''bind_port''),
          (''socket'', ''backlog''), (''worker'', ''thread_c'')]"
      using known unfolding cfg_known_def by simp argo
    then show ?thesis
    proof
      assume "(sec, n) \<in> set [(''credential'', ''token''), (''mysql'', ''host''), (''mysql'', ''user''),
        (''mysql'', ''pass''), (''mysql'', ''dbname''), (''mysql'', ''unix_sock''), (''socket'', ''bind_addr'')]"
      then show ?thesis
        by (simp only: list.set insert_iff prod.inject empty_iff simp_thms, elim disjE conjE)
          (simp only: handler_eqs, rule str, simp add: rels)+
    next
      assume "(sec, n) \<in> set [(''mysql'', ''use_db''), (''mysql'', ''port''), (''socket'', ''bind_port''),
        (''socket'', ''backlog''), (''worker'', ''thread_c'')]"
      then show ?thesis
        using rel
        by (simp only: list.set insert_iff prod.inject empty_iff simp_thms, elim disjE conjE)
          (simp only: handler_eqs, rule num, simp add: rels)+
    qed
  qed
qed

lemma parser_handler_unknown:
  "\<not> cfg_known sec n \<Longrightarrow> parser_handler ctx sec n v l = out_err ctx"
  by (simp add: parser_handler_def cfg_known_def)

lemma cfg_rel_unknown:
  assumes "cfg_rel m a cfg" and "\<not> cfg_known sec n"
  shows "cfg_rel (m((sec, n) \<mapsto> v)) a cfg"
proof -
  define m' where "m' = m((sec, n) \<mapsto> v)"
  have "m' k = m k" if "cfg_known (fst k) (snd k)" for k
    using that assms(2) by (cases k) (auto simp: m'_def)
  then have "str_rel m' a k p = str_rel m a k p" "num_of m' k = num_of m k"
    if "cfg_known (fst k) (snd k)" for k p
    using that by (simp_all add: str_rel_def num_of_def split: option.splits cptr.splits)
  with assms(1) show ?thesis by (simp add: cfg_rel_def cfg_known_def flip: m'_def)
qed

lemma run_calls_cfg:
  assumes "ar_wf (ctx_ar ctx)" and "cfg_rel m (ctx_ar ctx) (ctx_cfg ctx)"
    and "\<And>c. c \<in> set cs \<Longrightarrow> NUL \<notin> set (call_val c) \<and> length (call_val c) \<le> 255"
    and "calls_size cs < ar_room (ctx_ar ctx)"
  shows "\<exists>e ctx'. run_calls parser_handler err ctx cs = Inr (e, ctx') \<and>
           ctx_exec ctx' = (ctx_exec ctx \<and> list_all (\<lambda>c. case call_key c of (s, n) \<Rightarrow> cfg_known s n) cs) \<and>
           cfg_rel (settings_of m cs) (ctx_ar ctx') (ctx_cfg ctx')"
  using assms
proof (induction cs arbitrary: ctx m err)
  case Nil
  then show ?case by (simp add: settings_of_def)
next
  case (Cons c cs)
  obtain sec n v l where c: "c = (sec, n, v, l)" by (cases c)
  have v: "NUL \<notin> set v" "length v \<le> 255" "length v + 1 < ar_room (ctx_ar ctx)"
      "calls_size cs + (length v + 1) < ar_room (ctx_ar ctx)"
    using Cons.prems c by (fastforce simp: calls_size_def)+
  have step: "\<exists>ok ctx'. parser_handler ctx sec n v l = Inr (ok, ctx') \<and>
      ctx_exec ctx' = (ctx_exec ctx \<and> cfg_known sec n) \<and> ar_wf (ctx_ar ctx') \<and>
      cfg_rel (m((sec, n) \<mapsto> v)) (ctx_ar ctx') (ctx_cfg ctx') \<and>
      ar_room (ctx_ar ctx) \<le> ar_room (ctx_ar ctx') + (length v + 1)"
  proof (cases "cfg_known sec n")
    case True
    from parser_handler_known [OF Cons.prems(1,2) v(1-3) True] True show ?thesis by blast
  next
    case False
    with Cons.prems(1,2) show ?thesis
      by (intro exI [of _ False]) (simp add: parser_handler_unknown out_err_def cfg_rel_unknown)
  qed
  then obtain ok ctx1 where ctx1: "parser_handler ctx sec n v l = Inr (ok, ctx1)"
      "ctx_exec ctx1 = (ctx_exec ctx \<and> cfg_known sec n)" "ar_wf (ctx_ar ctx1)"
      "cfg_rel (m((sec, n) \<mapsto> v)) (ctx_ar ctx1) (ctx_cfg ctx1)"
      "ar_room (ctx_ar ctx) \<le> ar_room (ctx_ar ctx1) + (length v + 1)"
    by blast
  have "calls_size cs < ar_room (ctx_ar ctx1)" using v(4) ctx1(5) by simp
  then obtain e ctx2 where
      "run_calls parser_handler (if \<not> ok \<and> err = 0 then l else err) ctx1 cs = Inr (e, ctx2)"
      "ctx_exec ctx2 = (ctx_exec ctx1 \<and> list_all (\<lambda>c. case call_key c of (s, n) \<Rightarrow> cfg_known s n) cs)"
      "cfg_rel (settings_of (m((sec, n) \<mapsto> v)) cs) (ctx_ar ctx2) (ctx_cfg ctx2)"
    using Cons.IH [OF ctx1(3,4)] Cons.prems(3) by (meson list.set_intros(2))
  then show ?case using c ctx1(1,2) by (simp add: settings_of_def)
qed

lemma ini_calls_values:
  "list_all ini_item_ok es \<Longrightarrow> c \<in> set (ini_calls sec k es) \<Longrightarrow>
     NUL \<notin> set (call_val c) \<and> length (call_val c) \<le> 255"
proof (induction es arbitrary: sec k)
  case (Cons e es)
  then show ?case by (cases e) (auto simp: ini_value_def)
qed simp

lemma cfg_rel_zero: "cfg_rel (\<lambda>_. None) a cfg_zero"
  by (simp add: cfg_rel_def cfg_zero_def str_rel_def num_of_def)

section \<open>Properties\<close>

text \<open>
  C28. Reading the configuration file: for a file of headings and pairs within the limits
  whose values fit into the arena, \<open>gwbot_cfg_parse\<close> returns normally and leaves the record
  that stands for the old settings overridden by those of the file, the last one winning;
  it returns 0 when the sections and names are all known, and \<open>-EINVAL\<close> otherwise.
\<close>

theorem cfg_parse_settings:
  assumes "ar_wf a" and "cfg_rel m a cfg" and "list_all ini_item_ok es"
    and "cfg_file cfg = Some p" and "cp_str a p \<noteq> []"
    and "fopen (cp_str a p) = Inr (concat (map ini_show es))"
    and "calls_size (ini_calls [] 0 es) < ar_size a - ar_pos a"
  shows "\<exists>cfg' a'. gwbot_cfg_parse fopen a cfg =
           Inr (if list_all (\<lambda>c. case call_key c of (s, n) \<Rightarrow> cfg_known s n) (ini_calls [] 0 es)
                then 0 else - EINVAL, cfg', a') \<and>
           cfg_rel (settings_of m (ini_calls [] 0 es)) a' cfg'"
proof -
  let ?ctx = "\<lparr> ctx_exec = True, ctx_cfg = cfg, ctx_ar = a \<rparr>"
  obtain e ctx' where "run_calls parser_handler 0 ?ctx (ini_calls [] 0 es) = Inr (e, ctx')"
      "ctx_exec ctx' = list_all (\<lambda>c. case call_key c of (s, n) \<Rightarrow> cfg_known s n) (ini_calls [] 0 es)"
      "cfg_rel (settings_of m (ini_calls [] 0 es)) (ctx_ar ctx') (ctx_cfg ctx')"
    using run_calls_cfg [of ?ctx m "ini_calls [] 0 es" 0] assms(1,2,7) ini_calls_values [OF assms(3)]
    by (auto simp: ar_room_def)
  moreover have "ini_parse_file (concat (map ini_show es)) parser_handler ?ctx =
      run_calls parser_handler 0 ?ctx (ini_calls [] 0 es)"
    unfolding ini_parse_file_def ini_parse_stream_def by (subst ini_parse_items [OF assms(3)]) simp
  ultimately show ?thesis using assms(4-6) by (simp add: gwbot_cfg_parse_def)
qed

definition example_items :: "ini_item list" where
  "example_items = [Heading ''socket'', Pair ''bind_port'' ''80'', Pair ''bind_port'' ''81'', Pair ''bind_addr'' ''::'']"

theorem cfg_parse_settings_witness:
  "\<exists>cfg' a'. gwbot_cfg_parse (\<lambda>_. Inr (concat (map ini_show example_items)))
       (ar_init (replicate 64 NUL) 64) (cfg_zero\<lparr> cfg_file := Some (InArgv ''gw.ini'') \<rparr>) = Inr (0, cfg', a') \<and>
     sk_bind_port (cfg_sock cfg') = 81 \<and>
     map_option (cp_str a') (sk_bind_addr (cfg_sock cfg')) = Some ''::''"
proof -
  let ?a = "ar_init (replicate 64 NUL) 64" and ?cfg = "cfg_zero\<lparr> cfg_file := Some (InArgv ''gw.ini'') \<rparr>"
  have calls: "ini_calls [] 0 example_items = [(''socket'', ''bind_port'', ''80'', Suc (Suc 0)),
      (''socket'', ''bind_port'', ''81'', Suc (Suc (Suc 0))), (''socket'', ''bind_addr'', ''::'', Suc (Suc (Suc (Suc 0))))]"
    by (simp add: example_items_def)
  have "cfg_rel (\<lambda>_. None) ?a ?cfg" using cfg_rel_zero by (simp add: cfg_rel_def)
  then obtain cfg' a' where "gwbot_cfg_parse (\<lambda>_. Inr (concat (map ini_show example_items))) ?a ?cfg = Inr (0, cfg', a')"
      and rel: "cfg_rel (settings_of (\<lambda>_. None) (ini_calls [] 0 example_items)) a' cfg'"
    using cfg_parse_settings [of ?a "\<lambda>_. None" ?cfg example_items "InArgv ''gw.ini''"
        "\<lambda>_. Inr (concat (map ini_show example_items))"] calls
    by (auto simp: ar_wf_def ar_init_def NUL_def example_items_def ini_word_def ini_value_def isspace_def
        calls_size_def cfg_known_def)
  moreover have "sk_bind_port (cfg_sock cfg') = 81"
    using rel calls by (simp add: cfg_rel_def num_of_def settings_of_def atoi_def strtol_def isspace_def
        is_digit_def NUL_def)
  moreover have "map_option (cp_str a') (sk_bind_addr (cfg_sock cfg')) = Some ''::''"
  proof -
    have "str_rel (settings_of (\<lambda>_. None) (ini_calls [] 0 example_items)) a' (''socket'', ''bind_addr'')
        (sk_bind_addr (cfg_sock cfg'))"
      using rel unfolding cfg_rel_def by blast
    then show ?thesis using calls by (simp add: str_rel_value settings_of_def)
  qed
  ultimately show ?thesis by blast
qed

text \<open>
  Syntax errors in the configuration file are ignored: for a line that is a single word
  without a value the INI parser reports an error in line 1, but \<open>gwbot_cfg_parse\<close> only looks
  for a negative result, which the parser never returns here, and reports success with the
  configuration unchanged.
\<close>

theorem cfg_parse_ignores_syntax_error:
  assumes "ini_word w" and "length w < 199" and "cfg_file cfg = Some p" and "cp_str a p \<noteq> []"
    and "fopen (cp_str a p) = Inr (w @ [NEWLINE])"
  shows "gwbot_cfg_parse fopen a cfg = Inr (0, cfg, a) \<and>
         ini_parse_file (w @ [NEWLINE]) parser_handler ctx = Inr (1, ctx)"
  using assms(3-5) by (simp add: gwbot_cfg_parse_def ini_parse_bare_word [OF assms(1,2)])

theorem cfg_parse_ignores_syntax_error_witness:
  "gwbot_cfg_parse (\<lambda>_. Inr (''token'' @ [NEWLINE])) (ar_init [] 0)
     (cfg_zero\<lparr> cfg_file := Some (InArgv ''gw.ini'') \<rparr>) =
   Inr (0, cfg_zero\<lparr> cfg_file := Some (InArgv ''gw.ini'') \<rparr>, ar_init [] 0)"
  using cfg_parse_ignores_syntax_error [of "''token''" "cfg_zero\<lparr> cfg_file := Some (InArgv ''gw.ini'') \<rparr>"
      "InArgv ''gw.ini''" "ar_init [] 0" "\<lambda>_. Inr (''token'' @ [NEWLINE])"]
  by (simp add: ini_word_def NUL_def)

text \<open>
  \<open>validate_cfg\<close> accepts a configuration that stands for given settings exactly when the
  address and the token are set and not empty, the port and the number of workers are not
  zero as 16-bit numbers and the backlog is not zero, and, when a database is to be used,
  host, user and database name are set; it refuses every other one with \<open>-EINVAL\<close>.
\<close>

theorem validate_cfg_iff:
  assumes "cfg_rel m a cfg"
  shows "validate_cfg a cfg =
     (if m (''socket'', ''bind_addr'') \<notin> {None, Some []} \<and> m (''credential'', ''token'') \<notin> {None, Some []} \<and>
         num_of m (''socket'', ''bind_port'') mod 65536 \<noteq> 0 \<and> num_of m (''socket'', ''backlog'') \<noteq> 0 \<and>
         num_of m (''worker'', ''thread_c'') mod 65536 \<noteq> 0 \<and>
         (num_of m (''mysql'', ''use_db'') \<noteq> 0 \<longrightarrow>
            m (''mysql'', ''host'') \<noteq> None \<and> m (''mysql'', ''user'') \<noteq> None \<and> m (''mysql'', ''dbname'') \<noteq> None)
      then 0 else - EINVAL)"
proof -
  have str: "empty_str a p \<longleftrightarrow> m k \<in> {None, Some []}" "p = None \<longleftrightarrow> m k = None" if "str_rel m a k p" for k p
    using that by (auto simp: str_rel_def empty_str_def split: option.splits cptr.splits)
  have num: "(word_of_int i :: u16) = 0 \<longleftrightarrow> i mod 65536 = 0" for i
    using word_of_int_eq_iff [of i 0, where 'a = 16] by (simp add: take_bit_eq_mod)
  from assms show ?thesis
    unfolding cfg_rel_def validate_cfg_def validate_mysql_cfg_def Let_def
    by (elim conjE) (simp add: str num del: not_None_eq; argo)
qed

theorem validate_cfg_iff_witness: "validate_cfg (ar_init [] 0) cfg_zero = - EINVAL"
  using validate_cfg_iff [OF cfg_rel_zero, of "ar_init [] 0"] by simp

end
