(* ===== verification/Server_State.thy ===== *)
theory Server_State
  imports Tstack Que Config
begin

text \<open>
  The state of the server (\<open>include/gwbot/gwbot.h\<close>), the lock wrappers of
  \<open>include/gwbot/gwthread.h\<close>, and the initialisation of \<open>core/server.c\<close>.  The model is the
  main thread's view: memory allocators, \<open>pthread\<close> calls and system calls give their
  answers as arguments, and the calls that matter to the outside are recorded in the field
  \<open>st_sys\<close>.  A null array pointer is the empty list; the arrays are never allocated empty,
  because \<open>validate_cfg\<close> refuses a configuration with zero workers.
\<close>

section \<open>Locks and condition variables\<close>

record gwlock_t =
  need_destroy :: bool

definition gw_mutex_init :: "int \<Rightarrow> gwlock_t \<Rightarrow> int \<times> gwlock_t" where
  "gw_mutex_init pthread_ret lock = (pthread_ret, lock\<lparr> need_destroy := True \<rparr>)"

definition gw_cond_init :: "int \<Rightarrow> gwlock_t \<Rightarrow> int \<times> gwlock_t" where
  "gw_cond_init pthread_ret cond = (pthread_ret, cond\<lparr> need_destroy := True \<rparr>)"

text \<open>The result is what \<open>pthread_mutex_destroy\<close> answers when it is called, and 0 otherwise.\<close>

definition gw_mutex_destroy :: "int \<Rightarrow> gwlock_t \<Rightarrow> int \<times> gwlock_t" where
  "gw_mutex_destroy pthread_ret lock =
     (if need_destroy lock then (pthread_ret, lock\<lparr> need_destroy := False \<rparr>) else (0, lock))"

definition gw_cond_destroy :: "int \<Rightarrow> gwlock_t \<Rightarrow> int \<times> gwlock_t" where
  "gw_cond_destroy pthread_ret cond =
     (if need_destroy cond then (pthread_ret, cond\<lparr> need_destroy := False \<rparr>) else (0, cond))"

definition gw_mutex_lock :: "gwlock_t \<Rightarrow> unit res" where
  "gw_mutex_lock lock = guard (need_destroy lock) AssertFail"

definition gw_mutex_unlock :: "gwlock_t \<Rightarrow> unit res" where
  "gw_mutex_unlock lock = guard (need_destroy lock) AssertFail"

definition gw_cond_signal :: "gwlock_t \<Rightarrow> unit res" where
  "gw_cond_signal cond = guard (need_destroy cond) AssertFail"

section \<open>Packets, channels, workers, state\<close>

abbreviation (input) CHPKT_DATA_BUFSIZ :: nat where "CHPKT_DATA_BUFSIZ \<equiv> 24576"

text \<open>\<open>sizeof(struct chan_pkt)\<close>: the 16-bit length, then the data.\<close>

abbreviation (input) RAW_BUFSIZ :: nat where "RAW_BUFSIZ \<equiv> 24578"
abbreviation (input) DATA_OFF :: nat where "DATA_OFF \<equiv> 2"
abbreviation (input) IPV4_L :: nat where "IPV4_L \<equiv> 16"

record gwbot_chan =
  ch_is_online :: bool
  ch_fd :: int
  ch_idx :: u16
  ch_src_port :: u16
  ch_src_ip :: bytes
  ch_accepted_at :: int
  ch_recv_s :: nat
  ch_raw :: bytes

record gwbot_thread =
  th_last_work :: int
  th_ev_cond :: gwlock_t
  th_ev_lock :: gwlock_t
  th_idx :: u16
  th_is_online :: bool
  th_has_event :: bool
  th_from_sqe :: bool
  th_pkt_len :: nat
  th_sqe_node :: ptr
  th_raw :: bytes

text \<open>Calls that other processes or threads see.\<close>

datatype sys_call =
    CloseFd int | ShutdownFd int | EpollAdd int | EpollDel int
  | SpawnThread nat | SignalThread nat | ModShutdown | GlobalInit | GlobalDestroy
  | MysqlInit | MysqlEnd

record gwbot_state =
  st_stop_el :: bool
  st_intr_sig :: int
  st_tcp_fd :: int
  st_epl_fd :: int
  st_cfg :: gwbot_cfg
  st_epl_map :: "u16 list"
  st_chans :: "gwbot_chan list"
  st_threads :: "gwbot_thread list"
  st_active_chan :: u32
  st_sqe_lock :: gwlock_t
  st_sqes :: que_master
  st_cqe_lock :: gwlock_t
  st_cqes :: que_master
  st_log_lock :: gwlock_t
  st_log_cond :: gwlock_t
  st_chan_stk :: tstack
  st_thread_stk :: tstack
  st_thread_stk_lock :: gwlock_t
  st_online_thread :: u32
  st_heap :: heap
  st_sys :: "sys_call list"

abbreviation thread_c :: "gwbot_state \<Rightarrow> nat" where
  "thread_c st \<equiv> unat (wk_thread_c (cfg_worker (st_cfg st)))"

definition emit :: "sys_call \<Rightarrow> gwbot_state \<Rightarrow> gwbot_state" where
  "emit c st = st\<lparr> st_sys := st_sys st @ [c] \<rparr>"

text \<open>\<open>&state->chans[i]\<close> and \<open>&state->threads[i]\<close>, when the pointer is followed.\<close>

definition chan_at :: "gwbot_state \<Rightarrow> nat \<Rightarrow> gwbot_chan res" where
  "chan_at st i =
     (if st_chans st = [] then Inl NullDeref
      else if i < length (st_chans st) then Inr (st_chans st ! i) else Inl OutOfBounds)"

definition thread_at :: "gwbot_state \<Rightarrow> nat \<Rightarrow> gwbot_thread res" where
  "thread_at st i =
     (if st_threads st = [] then Inl NullDeref
      else if i < length (st_threads st) then Inr (st_threads st ! i) else Inl OutOfBounds)"

definition put_chan :: "nat \<Rightarrow> gwbot_chan \<Rightarrow> gwbot_state \<Rightarrow> gwbot_state" where
  "put_chan i ch st = st\<lparr> st_chans := (st_chans st)[i := ch] \<rparr>"

definition put_thread :: "nat \<Rightarrow> gwbot_thread \<Rightarrow> gwbot_state \<Rightarrow> gwbot_state" where
  "put_thread i th st = st\<lparr> st_threads := (st_threads st)[i := th] \<rparr>"

section \<open>Initialisation\<close>

abbreviation (input) EPL_MAP_TO_NOP :: u16 where "EPL_MAP_TO_NOP \<equiv> 0"
abbreviation (input) EPL_MAP_SHIFT :: nat where "EPL_MAP_SHIFT \<equiv> 1"
abbreviation (input) EPL_MAP_SIZE :: nat where "EPL_MAP_SIZE \<equiv> 65535"

definition reset_chan :: "gwbot_chan \<Rightarrow> u32 \<Rightarrow> gwbot_chan" where
  "reset_chan ch chan_idx = ch\<lparr> ch_fd := -1, ch_idx := ucast chan_idx, ch_accepted_at := 0,
     ch_recv_s := 0, ch_is_online := False \<rparr>"

text \<open>Zeroed memory, as \<open>calloc\<close> and \<open>memset\<close> give it.\<close>

definition chan_zero :: gwbot_chan where
  "chan_zero = \<lparr> ch_is_online = False, ch_fd = 0, ch_idx = 0, ch_src_port = 0,
     ch_src_ip = replicate (IPV4_L + 1) NUL, ch_accepted_at = 0, ch_recv_s = 0,
     ch_raw = replicate RAW_BUFSIZ NUL \<rparr>"

definition thread_zero :: gwbot_thread where
  "thread_zero = \<lparr> th_last_work = 0, th_ev_cond = \<lparr> need_destroy = False \<rparr>,
     th_ev_lock = \<lparr> need_destroy = False \<rparr>, th_idx = 0, th_is_online = False, th_has_event = False,
     th_from_sqe = False, th_pkt_len = 0, th_sqe_node = None, th_raw = replicate RAW_BUFSIZ NUL \<rparr>"

definition state_zero :: "gwbot_cfg \<Rightarrow> gwbot_state" where
  "state_zero cfg = \<lparr> st_stop_el = False, st_intr_sig = 0, st_tcp_fd = 0, st_epl_fd = 0, st_cfg = cfg,
     st_epl_map = [], st_chans = [], st_threads = [], st_active_chan = 0,
     st_sqe_lock = \<lparr> need_destroy = False \<rparr>,
     st_sqes = \<lparr> que_head = None, que_tail = None, que_cnt = 0, que_capacity = 0 \<rparr>,
     st_cqe_lock = \<lparr> need_destroy = False \<rparr>,
     st_cqes = \<lparr> que_head = None, que_tail = None, que_cnt = 0, que_capacity = 0 \<rparr>,
     st_log_lock = \<lparr> need_destroy = False \<rparr>, st_log_cond = \<lparr> need_destroy = False \<rparr>,
     st_chan_stk = \<lparr> ts_sp = 0, ts_capacity = 0, ts_arr = [] \<rparr>,
     st_thread_stk = \<lparr> ts_sp = 0, ts_capacity = 0, ts_arr = [] \<rparr>,
     st_thread_stk_lock = \<lparr> need_destroy = False \<rparr>, st_online_thread = 0, st_heap = fmempty, st_sys = [] \<rparr>"

text \<open>The answers of the allocators and of the \<open>pthread\<close> initialisers.\<close>

record init_env =
  ie_chans :: bool
  ie_threads :: bool
  ie_epl_map :: bool
  ie_chan_stk :: bool
  ie_thread_stk :: bool
  ie_ev_mutex :: "nat \<Rightarrow> int"
  ie_ev_cond :: "nat \<Rightarrow> int"
  ie_sqe_lock :: int
  ie_cqe_lock :: int
  ie_log_lock :: int
  ie_log_cond :: int
  ie_stk_lock :: int

definition init_state_chans :: "init_env \<Rightarrow> gwbot_state \<Rightarrow> int \<times> gwbot_state" where
  "init_state_chans env st =
     (if \<not> ie_chans env then (-1, st)
      else (0, st\<lparr> st_chans := map (\<lambda>i. reset_chan chan_zero (of_nat i)) [0..<thread_c st] \<rparr>))"

text \<open>\<open>-err\<close> with the sign of \<open>err\<close> made positive first.\<close>

definition neg_err :: "int \<Rightarrow> int" where
  "neg_err err = - (if 0 < err then err else - err)"

definition reset_thread :: "init_env \<Rightarrow> gwbot_thread \<Rightarrow> u32 \<Rightarrow> int \<times> gwbot_thread" where
  "reset_thread env th thread_idx =
     (let th = th\<lparr> th_last_work := 0, th_idx := ucast thread_idx, th_is_online := False,
                   th_has_event := False, th_from_sqe := False, th_pkt_len := 0, th_sqe_node := None \<rparr>;
          (err, lock) = gw_mutex_init (ie_ev_mutex env (unat thread_idx)) (th_ev_lock th);
          th = th\<lparr> th_ev_lock := lock \<rparr>
      in if err \<noteq> 0 then (neg_err err, th)
         else let (err, cond) = gw_cond_init (ie_ev_cond env (unat thread_idx)) (th_ev_cond th);
                  th = th\<lparr> th_ev_cond := cond \<rparr>
              in if err \<noteq> 0 then (neg_err err, th) else (0, th))"

text \<open>The loop over the workers: an error, or the array.\<close>

fun reset_threads :: "init_env \<Rightarrow> nat list \<Rightarrow> int + gwbot_thread list" where
  "reset_threads env [] = Inr []"
| "reset_threads env (i # is) =
     (let (ret, th) = reset_thread env thread_zero (of_nat i)
      in if ret \<noteq> 0 then Inl ret else ebind (reset_threads env is) (\<lambda>ths. Inr (th # ths)))"

definition init_state_threads :: "init_env \<Rightarrow> gwbot_state \<Rightarrow> int \<times> gwbot_state" where
  "init_state_threads env st =
     (if \<not> ie_threads env then (- ENOMEM, st)
      else case reset_threads env [0..<thread_c st] of
             Inl ret \<Rightarrow> (ret, st)
           | Inr ths \<Rightarrow> (0, st\<lparr> st_threads := ths \<rparr>))"

definition init_epl_map :: "init_env \<Rightarrow> gwbot_state \<Rightarrow> int \<times> gwbot_state" where
  "init_epl_map env st =
     (if \<not> ie_epl_map env then (- ENOMEM, st)
      else (0, st\<lparr> st_epl_map := replicate EPL_MAP_SIZE EPL_MAP_TO_NOP \<rparr>))"

text \<open>A sequence of initialisers stops at the first error.\<close>

definition and_then :: "int \<times> 's \<Rightarrow> ('s \<Rightarrow> int \<times> 's) \<Rightarrow> int \<times> 's" where
  "and_then r f = (if fst r \<noteq> 0 then r else f (snd r))"

definition init_locks :: "init_env \<Rightarrow> gwbot_state \<Rightarrow> int \<times> gwbot_state" where
  "init_locks env st0 =
     and_then (let (err, l) = gw_mutex_init (ie_sqe_lock env) (st_sqe_lock st0)
               in (neg_err err, st0\<lparr> st_sqe_lock := l \<rparr>)) (\<lambda>st.
     and_then (let (err, l) = gw_mutex_init (ie_cqe_lock env) (st_cqe_lock st)
               in (neg_err err, st\<lparr> st_cqe_lock := l \<rparr>)) (\<lambda>st.
     and_then (let (err, l) = gw_mutex_init (ie_log_lock env) (st_log_lock st)
               in (neg_err err, st\<lparr> st_log_lock := l \<rparr>)) (\<lambda>st.
     and_then (let (err, l) = gw_cond_init (ie_log_cond env) (st_log_cond st)
               in (neg_err err, st\<lparr> st_log_cond := l \<rparr>)) (\<lambda>st.
       let (err, l) = gw_mutex_init (ie_stk_lock env) (st_thread_stk_lock st)
       in (neg_err err, st\<lparr> st_thread_stk_lock := l \<rparr>)))))"

definition init_stacks :: "init_env \<Rightarrow> gwbot_state \<Rightarrow> int \<times> gwbot_state" where
  "init_stacks env st =
     (let c = ucast (wk_thread_c (cfg_worker (st_cfg st)))
      in case tss_init (ie_chan_stk env) (st_chan_stk st) c of
           None \<Rightarrow> (- ENOMEM, st)
         | Some stk \<Rightarrow>
             (let st = st\<lparr> st_chan_stk := stk \<rparr>
              in case tss_init (ie_thread_stk env) (st_thread_stk st) c of
                   None \<Rightarrow> (- ENOMEM, st)
                 | Some stk \<Rightarrow>
                     (0, st\<lparr> st_thread_stk := stk, st_sqes := que_init (st_sqes st) 100000,
                             st_cqes := que_init (st_cqes st) 100000 \<rparr>)))"

text \<open>\<open>for (uint32_t i = thread_c; i--;)\<close>: both stacks get every index, 0 last.\<close>

fun push_indexes :: "nat \<Rightarrow> gwbot_state \<Rightarrow> gwbot_state res" where
  "push_indexes 0 st = Inr st"
| "push_indexes (Suc i) st =
     ebind (tss_push (st_chan_stk st) (of_nat i)) (\<lambda>(ret, stk).
     ebind (guard (ret = int i) AssertFail) (\<lambda>_.
     ebind (gw_mutex_lock (st_thread_stk_lock st)) (\<lambda>_.
     ebind (tss_push (st_thread_stk st) (of_nat i)) (\<lambda>(ret, tstk).
     ebind (guard (ret = int i) AssertFail) (\<lambda>_.
     ebind (gw_mutex_unlock (st_thread_stk_lock st)) (\<lambda>_.
       push_indexes i (st\<lparr> st_chan_stk := stk, st_thread_stk := tstk \<rparr>)))))))"

definition init_state :: "init_env \<Rightarrow> gwbot_state \<Rightarrow> (int \<times> gwbot_state) res" where
  "init_state env st0 =
     (let st = st0\<lparr> st_stop_el := False, st_intr_sig := -1, st_tcp_fd := -1, st_epl_fd := -1,
                    st_epl_map := [], st_chans := [], st_threads := [], st_active_chan := 0,
                    st_online_thread := 0 \<rparr>;
          (err, st) = and_then (init_state_chans env st) (\<lambda>st.
                      and_then (init_state_threads env st) (\<lambda>st.
                      and_then (init_epl_map env st) (\<lambda>st.
                      and_then (init_stacks env st) (init_locks env))))
      in if err \<noteq> 0 then Inr (err, st)
         else ebind (push_indexes (thread_c st) st) (\<lambda>st.
                let st = (if cfg_use_db (st_cfg st) then emit MysqlInit st else st)
                in Inr (0, emit GlobalInit st)))"

end
