(* ===== verification/Server_Event.thy ===== *)
theory Server_Event
  imports Server_State
begin

unbundle bit_operations_syntax

text \<open>
  The event handling of \<open>core/server.c\<close>: accepting a connection, receiving a packet in
  pieces, giving it to a worker or to the submission queue, and dispatching queued packets.
  Every system call gives its answer as an argument.
\<close>

section \<open>Addresses and byte order\<close>

text \<open>A 16-bit number in memory, low byte first, and \<open>ntohs\<close> on such a machine.\<close>

definition load16 :: "char \<Rightarrow> char \<Rightarrow> u16" where
  "load16 lo hi = of_nat (byte lo + 256 * byte hi)"

definition store16 :: "u16 \<Rightarrow> bytes" where
  "store16 w = [char_of (unat w mod 256), char_of (unat w div 256)]"

definition ntohs :: "u16 \<Rightarrow> u16" where
  "ntohs w = push_bit 8 w OR drop_bit 8 w"

text \<open>\<open>inet_ntop(AF_INET, ...)\<close>: \<open>None\<close> when the buffer is too small.\<close>

definition inet_ntop :: "char \<times> char \<times> char \<times> char \<Rightarrow> nat \<Rightarrow> bytes option" where
  "inet_ntop addr n =
     (case addr of (a, b, c, d) \<Rightarrow>
        let s = show_nat (byte a) @ ''.'' @ show_nat (byte b) @ ''.'' @ show_nat (byte c) @ ''.'' @ show_nat (byte d)
        in if length s < n then Some s else None)"

record sockaddr_in =
  sin_port :: u16
  sin_addr :: "char \<times> char \<times> char \<times> char"

definition convert_addr_ntop :: "sockaddr_in \<Rightarrow> bytes option" where
  "convert_addr_ntop addr = inet_ntop (sin_addr addr) IPV4_L"

definition resolve_src_info :: "sockaddr_in \<Rightarrow> int + bytes \<times> u16" where
  "resolve_src_info addr =
     (case convert_addr_ntop addr of None \<Rightarrow> Inl (- EINVAL) | Some ip \<Rightarrow> Inr (ip, ntohs (sin_port addr)))"

section \<open>System calls\<close>

text \<open>\<open>epoll_ctl\<close> answers 0 or an error number.\<close>

definition epoll_delete :: "int \<Rightarrow> int \<Rightarrow> gwbot_state \<Rightarrow> int \<times> gwbot_state" where
  "epoll_delete err fd st = (if err \<noteq> 0 then (- err, st) else (0, emit (EpollDel fd) st))"

definition epoll_add :: "int \<Rightarrow> int \<Rightarrow> gwbot_state \<Rightarrow> int \<times> gwbot_state" where
  "epoll_add err fd st = (if err \<noteq> 0 then (- err, st) else (0, emit (EpollAdd fd) st))"

definition epl_map_at :: "gwbot_state \<Rightarrow> int \<Rightarrow> u16 res" where
  "epl_map_at st fd =
     (if 0 \<le> fd \<and> nat fd < length (st_epl_map st) then Inr (st_epl_map st ! nat fd) else Inl OutOfBounds)"

definition epl_map_put :: "int \<Rightarrow> u16 \<Rightarrow> gwbot_state \<Rightarrow> gwbot_state res" where
  "epl_map_put fd v st =
     (if 0 \<le> fd \<and> nat fd < length (st_epl_map st)
      then Inr (st\<lparr> st_epl_map := (st_epl_map st)[nat fd := v] \<rparr>) else Inl OutOfBounds)"

section \<open>Accepting a connection\<close>

record accept_env =
  ac_accept :: "int + int"
  ac_addr :: sockaddr_in
  ac_addr_len :: nat
  ac_time :: "int + int"
  ac_epoll :: int

definition run_acceptor :: "accept_env \<Rightarrow> gwbot_state \<Rightarrow> (int \<times> gwbot_state) res" where
  "run_acceptor env st =
     (case ac_accept env of
        Inl err \<Rightarrow> Inr (- err, st)
      | Inr chan_fd \<Rightarrow>
          if 16 < ac_addr_len env then Inr (- EOVERFLOW, emit (CloseFd chan_fd) st)
          else case resolve_src_info (ac_addr env) of
                 Inl ret \<Rightarrow> Inr (ret, emit (CloseFd chan_fd) st)
               | Inr (src_ip, src_port) \<Rightarrow>
                   ebind (tss_pop (st_chan_stk st)) (\<lambda>(pop_ret, stk).
                     let st = st\<lparr> st_chan_stk := stk \<rparr> in
                     if pop_ret = -1 then Inr (- EAGAIN, emit (CloseFd chan_fd) st)
                     else
                       let idx = nat pop_ret; epl_map_val = idx + EPL_MAP_SHIFT in
                       if EPL_MAP_SIZE \<le> epl_map_val then Inr (- EAGAIN, emit (CloseFd chan_fd) st)
                       else
                         case ac_time env of
                           Inl err \<Rightarrow> Inr (- err, emit (CloseFd chan_fd) st)
                         | Inr tv_sec \<Rightarrow>
                             let (ret, st) = epoll_add (ac_epoll env) chan_fd st in
                             if ret \<noteq> 0 then Inr (ret, emit (CloseFd chan_fd) st)
                             else
                               ebind (chan_at st idx) (\<lambda>ch.
                               ebind (sane_strncpy (ch_src_ip ch) src_ip (IPV4_L + 1)) (\<lambda>ip.
                                 let ch = ch\<lparr> ch_fd := chan_fd, ch_idx := of_nat idx, ch_accepted_at := tv_sec,
                                              ch_recv_s := 0, ch_src_port := src_port, ch_is_online := True,
                                              ch_src_ip := ip \<rparr>
                                 in ebind (epl_map_put chan_fd (of_nat epl_map_val) (put_chan idx ch st)) (\<lambda>st.
                                    Inr (0, st\<lparr> st_active_chan := st_active_chan st + 1 \<rparr>))))))"

text \<open>\<open>EPOLLERR | EPOLLHUP\<close>.\<close>

abbreviation (input) err_mask :: u32 where "err_mask \<equiv> 0x18"

definition handle_tcp_event :: "accept_env \<Rightarrow> gwbot_state \<Rightarrow> u32 \<Rightarrow> (int \<times> gwbot_state) res" where
  "handle_tcp_event env st revents =
     (if revents AND err_mask \<noteq> 0 then Inr (- ENETDOWN, st) else run_acceptor env st)"

section \<open>Handing an event to a worker\<close>

text \<open>The answers of \<open>aligned_alloc\<close> in \<open>que_enqueue\<close> and of \<open>pthread_create\<close>.\<close>

record submit_env =
  sm_alloc :: "int + nat"
  sm_spawn :: int

definition spawn_thread :: "int \<Rightarrow> nat \<Rightarrow> gwbot_state \<Rightarrow> int \<times> gwbot_state" where
  "spawn_thread err i st = (if err \<noteq> 0 then (neg_err err, st) else (0, emit (SpawnThread i) st))"

definition wake_thread :: "int \<Rightarrow> nat \<Rightarrow> gwbot_thread \<Rightarrow> gwbot_state \<Rightarrow> (int \<times> gwbot_state) res" where
  "wake_thread spawn i th st =
     (if th_is_online th then
        ebind (gw_cond_signal (th_ev_cond th)) (\<lambda>_.
        ebind (gw_mutex_unlock (th_ev_lock th)) (\<lambda>_. Inr (0, emit (SignalThread i) st)))
      else
        ebind (gw_mutex_unlock (th_ev_lock th)) (\<lambda>_. Inr (spawn_thread spawn i st)))"

definition submit_to_thread ::
  "submit_env \<Rightarrow> nat \<Rightarrow> gwbot_chan \<Rightarrow> nat \<Rightarrow> gwbot_state \<Rightarrow> (int \<times> gwbot_state) res" where
  "submit_to_thread env i ch cpy_len st =
     ebind (thread_at st i) (\<lambda>th.
     ebind (gw_mutex_lock (th_ev_lock th)) (\<lambda>_.
     ebind (guard (cpy_len \<le> length (ch_raw ch)) OutOfBounds) (\<lambda>_.
     ebind (buf_put (th_raw th) 0 (take cpy_len (ch_raw ch))) (\<lambda>raw.
     ebind (buf_set raw cpy_len NUL) (\<lambda>raw.
       let th = th\<lparr> th_from_sqe := False, th_has_event := True, th_pkt_len := cpy_len, th_raw := raw \<rparr>
       in wake_thread (sm_spawn env) i th (put_thread i th st))))))"

definition enqueue_to_sqe ::
  "submit_env \<Rightarrow> gwbot_chan \<Rightarrow> nat \<Rightarrow> gwbot_state \<Rightarrow> (int \<times> gwbot_state) res" where
  "enqueue_to_sqe env ch cpy_len st =
     ebind (guard (cpy_len \<le> length (ch_raw ch)) OutOfBounds) (\<lambda>_.
     ebind (que_enqueue (st_heap st, st_sqes st) (sm_alloc env) (take cpy_len (ch_raw ch))) (\<lambda>(node, (h, q)).
       let st = st\<lparr> st_heap := h, st_sqes := q \<rparr>
       in Inr (case node of Inl err \<Rightarrow> (- err, st) | Inr _ \<Rightarrow> (0, st))))"

definition submit_event :: "submit_env \<Rightarrow> u16 \<Rightarrow> gwbot_chan \<Rightarrow> gwbot_state \<Rightarrow> (int \<times> gwbot_state) res" where
  "submit_event env fdata_len ch st =
     (let cpy_len = DATA_OFF + unat fdata_len in
      ebind (gw_mutex_lock (st_thread_stk_lock st)) (\<lambda>_.
      ebind (tss_pop (st_thread_stk st)) (\<lambda>(pop_ret, stk).
      ebind (gw_mutex_unlock (st_thread_stk_lock st)) (\<lambda>_.
        let st = st\<lparr> st_thread_stk := stk \<rparr> in
        if pop_ret = -1 then enqueue_to_sqe env ch cpy_len st
        else submit_to_thread env (nat pop_ret) ch cpy_len st))))"

section \<open>Receiving\<close>

text \<open>Channel \<open>i\<close> has received \<open>recv_s\<close> bytes in all.\<close>

definition handle_client_event3 ::
  "submit_env \<Rightarrow> nat \<Rightarrow> nat \<Rightarrow> gwbot_state \<Rightarrow> (int \<times> gwbot_state) res" where
  "handle_client_event3 env recv_s i st =
     ebind (chan_at st i) (\<lambda>ch.
       let ch = ch\<lparr> ch_recv_s := recv_s \<rparr>; st = put_chan i ch st in
       if recv_s < DATA_OFF then Inr (0, st)
       else
         let fdata_len = ntohs (load16 (ch_raw ch ! 0) (ch_raw ch ! 1));
             cdata_len = (of_nat (recv_s - DATA_OFF) :: u16) in
         if CHPKT_DATA_BUFSIZ < unat fdata_len then Inr (- E2BIG, st)
         else if cdata_len < fdata_len then Inr (0, st)
         else if fdata_len < cdata_len then Inr (- EINVAL, st)
         else
           ebind (buf_put (ch_raw ch) 0 (store16 fdata_len)) (\<lambda>raw.
           ebind (buf_set raw (DATA_OFF + unat fdata_len) NUL) (\<lambda>raw.
             let ch = ch\<lparr> ch_raw := raw \<rparr>; st = put_chan i ch st
             in ebind (submit_event env fdata_len ch st) (\<lambda>(ret, st).
                  Inr (if ret \<noteq> 0 then ret else - EINPROGRESS, st)))))"

text \<open>
  \<open>recv\<close> answers with an error number, or with the bytes that are waiting, of which it takes
  as many as the buffer has room for; no byte is the end of the stream.
\<close>

record client_env =
  cl_recv :: "int + bytes"
  cl_epoll :: int
  cl_submit :: submit_env

definition close_chan :: "int \<Rightarrow> int \<Rightarrow> nat \<Rightarrow> gwbot_state \<Rightarrow> (int \<times> gwbot_state) res" where
  "close_chan epoll_err chan_fd i st =
     ebind (chan_at st i) (\<lambda>ch.
     ebind (tss_push (st_chan_stk st) (ucast (ch_idx ch))) (\<lambda>(_, stk).
     ebind (epl_map_put chan_fd EPL_MAP_TO_NOP (st\<lparr> st_chan_stk := stk \<rparr>)) (\<lambda>st.
       let st = snd (epoll_delete epoll_err chan_fd st)
       in Inr (0, emit (CloseFd chan_fd) (put_chan i (reset_chan ch (ucast (ch_idx ch))) st)))))"

definition handle_client_event2 ::
  "client_env \<Rightarrow> int \<Rightarrow> nat \<Rightarrow> u32 \<Rightarrow> gwbot_state \<Rightarrow> (int \<times> gwbot_state) res" where
  "handle_client_event2 env chan_fd i revents st =
     ebind (chan_at st i) (\<lambda>ch.
       if revents AND err_mask \<noteq> 0 \<or> ch_fd ch = -1 then close_chan (cl_epoll env) chan_fd i st
       else
         let recv_s = ch_recv_s ch;
             recv_len = (if recv_s \<le> RAW_BUFSIZ then RAW_BUFSIZ - recv_s
                         else 2 ^ 64 - (recv_s - RAW_BUFSIZ)) in
         case cl_recv env of
           Inl err \<Rightarrow> if err = EAGAIN then Inr (0, st) else close_chan (cl_epoll env) chan_fd i st
         | Inr avail \<Rightarrow>
             let got = take recv_len avail in
             if got = [] then close_chan (cl_epoll env) chan_fd i st
             else
               ebind (buf_put (ch_raw ch) recv_s got) (\<lambda>raw.
               ebind (handle_client_event3 (cl_submit env) (recv_s + length got) i
                        (put_chan i (ch\<lparr> ch_raw := raw \<rparr>) st)) (\<lambda>(ret, st).
                 if ret < 0 then close_chan (cl_epoll env) chan_fd i st else Inr (0, st))))"

definition handle_client_event ::
  "client_env \<Rightarrow> int \<Rightarrow> u32 \<Rightarrow> gwbot_state \<Rightarrow> (int \<times> gwbot_state) res" where
  "handle_client_event env chan_fd revents st =
     ebind (epl_map_at st chan_fd) (\<lambda>map_to.
     ebind (guard (map_to \<noteq> EPL_MAP_TO_NOP) Aborted) (\<lambda>_.
       handle_client_event2 env chan_fd (unat (map_to - of_nat EPL_MAP_SHIFT)) revents st))"

section \<open>Events\<close>

record epoll_event =
  ee_fd :: int
  ee_events :: u32
  ee_accept :: accept_env
  ee_client :: client_env

definition handle_event :: "epoll_event \<Rightarrow> gwbot_state \<Rightarrow> (int \<times> gwbot_state) res" where
  "handle_event ev st =
     (if ee_fd ev = st_tcp_fd st then handle_tcp_event (ee_accept ev) st (ee_events ev)
      else handle_client_event (ee_client ev) (ee_fd ev) (ee_events ev) st)"

fun handle_events :: "epoll_event list \<Rightarrow> gwbot_state \<Rightarrow> (int \<times> gwbot_state) res" where
  "handle_events [] st = Inr (0, st)"
| "handle_events (ev # evs) st =
     ebind (handle_event ev st) (\<lambda>(ret, st). if ret \<noteq> 0 then Inr (ret, st) else handle_events evs st)"

definition timed_out :: "int \<Rightarrow> gwbot_chan \<Rightarrow> bool" where
  "timed_out now ch \<longleftrightarrow> ch_is_online ch \<and> 10 < now - ch_accepted_at ch"

definition monitor_client_time :: "int + int \<Rightarrow> gwbot_state \<Rightarrow> (int \<times> gwbot_state) res" where
  "monitor_client_time tmvl st =
     (case tmvl of
        Inl err \<Rightarrow> Inr (- err, st)
      | Inr now \<Rightarrow>
          ebind (guard (thread_c st \<le> length (st_chans st)) OutOfBounds) (\<lambda>_.
            Inr (0, fold (\<lambda>ch. emit (ShutdownFd (ch_fd ch)))
                      (filter (timed_out now) (take (thread_c st) (st_chans st))) st)))"

definition dispatch_sqe :: "int \<Rightarrow> gwbot_state \<Rightarrow> gwbot_state res" where
  "dispatch_sqe spawn st =
     ebind (gw_mutex_lock (st_thread_stk_lock st)) (\<lambda>_.
     ebind (tss_pop (st_thread_stk st)) (\<lambda>(pop_ret, stk).
     ebind (gw_mutex_unlock (st_thread_stk_lock st)) (\<lambda>_.
       let st = st\<lparr> st_thread_stk := stk \<rparr> in
       if pop_ret = -1 then Inr st
       else
         ebind (thread_at st (nat pop_ret)) (\<lambda>th.
         ebind (gw_mutex_lock (th_ev_lock th)) (\<lambda>_.
         ebind (que_dequeue (st_heap st, st_sqes st)) (\<lambda>(node, (h, q)).
           case node of
             None \<Rightarrow> Inl Aborted
           | Some a \<Rightarrow>
               ebind (node_at h (Some a)) (\<lambda>n.
               ebind (guard (2 \<le> length (qn_data n)) OutOfBounds) (\<lambda>_.
                 let th = th\<lparr> th_from_sqe := True, th_has_event := True,
                              th_pkt_len := unat (load16 (qn_data n ! 0) (qn_data n ! 1)), th_sqe_node := Some a \<rparr>;
                     st = st\<lparr> st_heap := h, st_sqes := q \<rparr>
                 in ebind (wake_thread spawn (nat pop_ret) th (put_thread (nat pop_ret) th st)) (\<lambda>(_, st).
                      Inr st)))))))))"

section \<open>Lemmas on states and packets\<close>

lemma put_chan_twice [simp]: "put_chan i a (put_chan i b st) = put_chan i a st"
  by (simp add: put_chan_def)

lemma put_chan_simps [simp]:
  "st_epl_map (put_chan i ch st) = st_epl_map st"
  "st_chans (put_chan i ch st) = (st_chans st)[i := ch]"
  "st_chan_stk (put_chan i ch st) = st_chan_stk st"
  "st_thread_stk (put_chan i ch st) = st_thread_stk st"
  "st_thread_stk_lock (put_chan i ch st) = st_thread_stk_lock st"
  "st_threads (put_chan i ch st) = st_threads st"
  "st_heap (put_chan i ch st) = st_heap st"
  "st_sqes (put_chan i ch st) = st_sqes st"
  "st_tcp_fd (put_chan i ch st) = st_tcp_fd st"
  "st_cfg (put_chan i ch st) = st_cfg st"
  "st_active_chan (put_chan i ch st) = st_active_chan st"
  "st_sys (put_chan i ch st) = st_sys st"
  by (simp_all add: put_chan_def)

lemma epl_map_at_put_chan [simp]: "epl_map_at (put_chan i ch st) fd = epl_map_at st fd"
  by (simp add: epl_map_at_def)

lemma put_thread_simps [simp]:
  "st_epl_map (put_thread i th st) = st_epl_map st"
  "st_chans (put_thread i th st) = st_chans st"
  "st_chan_stk (put_thread i th st) = st_chan_stk st"
  "st_thread_stk (put_thread i th st) = st_thread_stk st"
  "st_thread_stk_lock (put_thread i th st) = st_thread_stk_lock st"
  "st_threads (put_thread i th st) = (st_threads st)[i := th]"
  "st_heap (put_thread i th st) = st_heap st"
  "st_sqes (put_thread i th st) = st_sqes st"
  "st_tcp_fd (put_thread i th st) = st_tcp_fd st"
  "st_cfg (put_thread i th st) = st_cfg st"
  "st_active_chan (put_thread i th st) = st_active_chan st"
  "st_sys (put_thread i th st) = st_sys st"
  by (simp_all add: put_thread_def)

lemma emit_simps [simp]:
  "st_epl_map (emit c st) = st_epl_map st"
  "st_chans (emit c st) = st_chans st"
  "st_chan_stk (emit c st) = st_chan_stk st"
  "st_thread_stk (emit c st) = st_thread_stk st"
  "st_thread_stk_lock (emit c st) = st_thread_stk_lock st"
  "st_threads (emit c st) = st_threads st"
  "st_heap (emit c st) = st_heap st"
  "st_sqes (emit c st) = st_sqes st"
  "st_tcp_fd (emit c st) = st_tcp_fd st"
  "st_cfg (emit c st) = st_cfg st"
  "st_stop_el (emit c st) = st_stop_el st"
  "st_active_chan (emit c st) = st_active_chan st"
  "st_sys (emit c st) = st_sys st @ [c]"
  by (simp_all add: emit_def)

lemma chan_at_Inr [run_simps]: "chan_at st i = Inr ch \<longleftrightarrow> i < length (st_chans st) \<and> ch = st_chans st ! i"
  by (auto simp: chan_at_def)

lemma thread_at_Inr [run_simps]:
  "thread_at st i = Inr th \<longleftrightarrow> i < length (st_threads st) \<and> th = st_threads st ! i"
  by (auto simp: thread_at_def)

lemma chan_at_ok [simp]: "i < length (st_chans st) \<Longrightarrow> chan_at st i = Inr (st_chans st ! i)"
  by (auto simp: chan_at_def)

lemma thread_at_ok [simp]: "i < length (st_threads st) \<Longrightarrow> thread_at st i = Inr (st_threads st ! i)"
  by (auto simp: thread_at_def)

text \<open>The length on the wire has the high byte first.\<close>

definition net16 :: "nat \<Rightarrow> bytes" where
  "net16 n = [char_of (n div 256), char_of (n mod 256)]"

lemma ntohs_eq: "ntohs w = of_nat (unat w * 256) + of_nat (unat w div 256)"
proof -
    have "push_bit 8 w AND drop_bit 8 w = 0"
      by (rule bit_word_eqI) (auto simp: bit_simps dest: bit_imp_le_length)
    then have "push_bit 8 w OR drop_bit 8 w = push_bit 8 w + drop_bit 8 w"
      by (simp add: disjunctive_add_eq_or)
    also have "\<dots> = of_nat (unat w * 256) + of_nat (unat w div 256)"
      by (simp add: push_bit_eq_mult drop_bit_eq_div word_arith_nat_div)
  finally show ?thesis by (simp add: ntohs_def)
qed
lemma ntohs_load16:
  assumes "n < 65536"
  shows "ntohs (load16 (char_of (n div 256)) (char_of (n mod 256))) = of_nat n"
proof -
  let ?h = "n div 256" and ?l = "n mod 256"
  have h: "?h < 256" using assms by simp
  have u: "unat (load16 (char_of ?h) (char_of ?l)) = ?h + 256 * ?l"
  proof -
    have "?h + 256 * ?l < 2 ^ 16" using h by simp
    then have "unat (of_nat (?h + 256 * ?l) :: u16) = ?h + 256 * ?l"
      by (simp only: unsigned_of_nat take_bit_nat_eq_self len_num1 len_bit0 len_of_finite_1_def)
         (simp add: take_bit_nat_eq_self)
    then show ?thesis using h by (simp only: load16_def of_char_of) simp
  qed
  have "of_nat ((?h + 256 * ?l) * 256) + of_nat ((?h + 256 * ?l) div 256) = (of_nat (?h * 256 + ?l) :: u16)"
  proof -
    have "(65536 :: u16) = 0" by simp
    then have "(of_nat (65536 * ?l) :: u16) = 0" by (simp only: of_nat_mult of_nat_numeral mult_zero_left)
    moreover have "(?h + 256 * ?l) * 256 = ?h * 256 + 65536 * ?l" "(?h + 256 * ?l) div 256 = ?l"
      using h by simp_all
    ultimately show ?thesis by (simp only: of_nat_add add_0_right)
  qed
  also have "?h * 256 + ?l = n" by simp
  finally show ?thesis unfolding ntohs_eq u .
qed

lemma nth_net16 [simp]: "net16 n ! 0 = char_of (n div 256)" "net16 n ! Suc 0 = char_of (n mod 256)"
    "length (net16 n) = 2"
  by (simp_all add: net16_def)

lemma length_store16 [simp]: "length (store16 w) = 2"
  by (simp add: store16_def)

section \<open>Receiving a packet in pieces\<close>

text \<open>
  The channel after \<open>k\<close> bytes of a packet, and after the packet has been completed: the
  length in host order, the data and a null byte.
\<close>

definition partial_chan :: "gwbot_chan \<Rightarrow> bytes \<Rightarrow> nat \<Rightarrow> gwbot_chan" where
  "partial_chan ch pkt k = ch\<lparr> ch_raw := take k pkt @ drop k (ch_raw ch), ch_recv_s := k \<rparr>"

definition full_chan :: "gwbot_chan \<Rightarrow> bytes \<Rightarrow> gwbot_chan" where
  "full_chan ch data = ch\<lparr> ch_recv_s := 2 + length data,
     ch_raw := store16 (of_nat (length data)) @ data @ NUL # drop (3 + length data) (ch_raw ch) \<rparr>"

text \<open>The client's bytes as they arrive: one readiness event for every piece.\<close>

fun recv_chunks :: "client_env \<Rightarrow> int \<Rightarrow> gwbot_state \<Rightarrow> bytes list \<Rightarrow> (int \<times> gwbot_state) res" where
  "recv_chunks env fd st [] = Inr (0, st)"
| "recv_chunks env fd st (c # cs) =
     ebind (handle_client_event (env\<lparr> cl_recv := Inr c \<rparr>) fd 1 st) (\<lambda>(ret, st').
       if cs = [] then Inr (ret, st') else recv_chunks env fd st' cs)"

lemma partial_chan_grow:
  assumes "k + length c \<le> length pkt" and "length pkt \<le> length (ch_raw ch)"
    and "take (length c) (drop k pkt) = c"
  shows "buf_put (ch_raw (partial_chan ch pkt k)) k c = Inr (ch_raw (partial_chan ch pkt (k + length c)))"
proof -
  have "take (k + length c) pkt = take k pkt @ c" using assms(3) by (simp add: take_add)
  with assms(1,2) show ?thesis by (simp add: partial_chan_def add.commute)
qed

text \<open>One piece: the packet stays incomplete, or it is complete and handed on.\<close>

lemma client_event3_piece:
  assumes n: "length data < 24576" and pkt: "pkt = net16 (length data) @ data"
    and i: "i < length (st_chans st)" and raw: "length (ch_raw ch) = 24578" and k: "k \<le> length pkt"
  shows "handle_client_event3 env k i (put_chan i (ch\<lparr> ch_recv_s := r, ch_raw := ch_raw (partial_chan ch pkt k) \<rparr>) st) =
    (if k < length pkt then Inr (0, put_chan i (partial_chan ch pkt k) st)
     else ebind (submit_event env (of_nat (length data)) (full_chan ch data) (put_chan i (full_chan ch data) st))
            (\<lambda>(ret, st). Inr (if ret \<noteq> 0 then ret else - EINPROGRESS, st)))"
proof (cases "k < 2")
  case True
  with i pkt show ?thesis
    by (simp add: handle_client_event3_def partial_chan_def Let_def)
next
  case False
  let ?n = "length data" and ?raw = "ch_raw (partial_chan ch pkt k)"
  have hdr: "?raw ! 0 = char_of (?n div 256)" "?raw ! 1 = char_of (?n mod 256)"
    using False k raw by (simp_all add: partial_chan_def nth_append pkt net16_def)
  have fdata: "ntohs (load16 (?raw ! 0) (?raw ! 1)) = of_nat ?n"
    unfolding hdr using n by (intro ntohs_load16) simp
  have un: "unat (of_nat ?n :: u16) = ?n" "unat (of_nat (k - 2) :: u16) = k - 2"
    using n k pkt by (simp_all add: unsigned_of_nat take_bit_nat_eq_self)
  have rawlen: "length ?raw = 24578" using raw k n pkt by (simp add: partial_chan_def)
  show ?thesis
  proof (cases "k < length pkt")
    case True
    then have "(of_nat (k - 2) :: u16) < of_nat ?n" using False pkt un by (simp add: word_less_nat_alt)
    with True False i n un fdata show ?thesis
      by (simp add: handle_client_event3_def partial_chan_def Let_def)
  next
    case False
    then have kn: "k = 2 + ?n" using k pkt by simp
    have "?raw = net16 ?n @ data @ drop k (ch_raw ch)"
      using kn pkt by (simp add: partial_chan_def)
    moreover have "drop k (ch_raw ch) = ch_raw ch ! k # drop (3 + ?n) (ch_raw ch)"
      using Cons_nth_drop_Suc [of k "ch_raw ch"] kn n raw by (simp add: numeral_3_eq_3)
    ultimately have "ebind (buf_put ?raw 0 (store16 (of_nat ?n))) (\<lambda>raw. buf_set raw (2 + ?n) NUL) =
        Inr (ch_raw (full_chan ch data))"
      using n raw kn by (simp add: full_chan_def list_update_append)
    then obtain r1 where r1: "buf_put ?raw 0 (store16 (of_nat ?n)) = Inr r1"
        "buf_set r1 (2 + ?n) NUL = Inr (ch_raw (full_chan ch data))"
      by (auto simp: run_simps)
    have "full_chan ch data = ch\<lparr> ch_recv_s := k, ch_raw := ch_raw (full_chan ch data) \<rparr>"
      using kn by (simp add: full_chan_def)
    with False kn i n un fdata r1 show ?thesis
      by (simp add: handle_client_event3_def Let_def)
  qed
qed

text \<open>Error numbers are positive.\<close>

definition errno_env :: "submit_env \<Rightarrow> bool" where
  "errno_env env \<longleftrightarrow> (case sm_alloc env of Inl err \<Rightarrow> 0 < err | Inr _ \<Rightarrow> True)"

lemma spawn_thread_nonpos: "spawn_thread err i st = (ret, st') \<Longrightarrow> ret \<le> 0"
  by (auto simp: spawn_thread_def neg_err_def split: if_splits)

lemma submit_event_nonpos:
  assumes "submit_event env w ch st = Inr (ret, st')" and "errno_env env"
  shows "ret \<le> 0"
proof -
  have thread: "submit_to_thread env i ch l s = Inr (ret, st') \<Longrightarrow> ret \<le> 0" for i l s
    by (auto simp: submit_to_thread_def wake_thread_def Let_def run_simps dest: spawn_thread_nonpos
        split: if_splits)
  have "que_enqueue q (sm_alloc env) d = Inr (Inl err, q') \<Longrightarrow> 0 < err" for q d err q'
    using assms(2) by (auto simp: que_enqueue_def errno_env_def Let_def run_simps
        split: if_splits sum.splits option.splits prod.splits)
  note enq = this
  have queue: "enqueue_to_sqe env ch l s = Inr (ret, st') \<Longrightarrow> ret \<le> 0" for l s
  proof -
    assume "enqueue_to_sqe env ch l s = Inr (ret, st')"
    then have l: "l \<le> length (ch_raw ch)" and
        e: "enqueue_to_sqe env ch l s = Inr (ret, st')"
      by (auto simp: enqueue_to_sqe_def run_simps)
    obtain r where "que_enqueue (st_heap s, st_sqes s) (sm_alloc env) (take l (ch_raw ch)) = Inr r"
      using e by (auto simp: enqueue_to_sqe_def run_simps)
    then obtain node h q where "que_enqueue (st_heap s, st_sqes s) (sm_alloc env) (take l (ch_raw ch)) = Inr (node, h, q)"
      by (cases r) auto
    with e l show "ret \<le> 0"
      by (cases node) (auto simp: enqueue_to_sqe_def Let_def dest!: enq)
  qed
  from assms(1) show ?thesis
    by (auto simp: submit_event_def Let_def run_simps dest: thread queue split: if_splits)
qed

lemma client_event_piece:
  assumes n: "length data < 24576" and pkt: "pkt = net16 (length data) @ data"
    and i: "i < length (st_chans st)" and raw: "length (ch_raw ch) = 24578"
    and online: "ch_fd ch \<noteq> -1"
    and fd: "epl_map_at st fd = Inr (of_nat (i + 1))" "i + 1 < 65535"
    and c: "c \<noteq> []" "k + length c \<le> length pkt" "take (length c) (drop k pkt) = c"
    and env: "errno_env (cl_submit env)"
  shows "handle_client_event (env\<lparr> cl_recv := Inr c \<rparr>) fd 1 (put_chan i (partial_chan ch pkt k) st) =
    (if k + length c < length pkt then Inr (0, put_chan i (partial_chan ch pkt (k + length c)) st)
     else ebind (submit_event (cl_submit env) (of_nat (length data)) (full_chan ch data)
                   (put_chan i (full_chan ch data) st))
            (\<lambda>(_, st). close_chan (cl_epoll env) fd i st))"
proof -
  let ?st = "put_chan i (partial_chan ch pkt k) st" and ?k = "k + length c"
  have idx: "unat (of_nat (i + 1) - of_nat 1 :: u16) = i"
    using fd(2) by (simp add: unsigned_of_nat take_bit_nat_eq_self)
  have "(of_nat (i + 1) :: u16) \<noteq> 0"
    using fd(2) by (simp add: word_unat_eq_iff unsigned_of_nat take_bit_nat_eq_self del: of_nat_Suc)
  then have route: "handle_client_event (env\<lparr> cl_recv := Inr c \<rparr>) fd 1 ?st =
      handle_client_event2 (env\<lparr> cl_recv := Inr c \<rparr>) fd i 1 ?st"
    using fd(1) idx by (simp add: handle_client_event_def)
  have small: "k + length c \<le> 24577" using c(2) n pkt by simp
  have grow: "buf_put (ch_raw (partial_chan ch pkt k)) k c = Inr (ch_raw (partial_chan ch pkt ?k))"
    using c(2,3) raw n pkt by (intro partial_chan_grow) simp_all
  have "handle_client_event2 (env\<lparr> cl_recv := Inr c \<rparr>) fd i 1 ?st =
      ebind (handle_client_event3 (cl_submit env) ?k i
        (put_chan i (ch\<lparr> ch_recv_s := k, ch_raw := ch_raw (partial_chan ch pkt ?k) \<rparr>) st)) (\<lambda>(ret, st).
          if ret < 0 then close_chan (cl_epoll env) fd i st else Inr (0, st))"
    using i online small c(1) grow
    by (simp add: handle_client_event2_def partial_chan_def [of _ _ k] Let_def split_def cong: if_cong)
  also have "\<dots> = (if ?k < length pkt then Inr (0, put_chan i (partial_chan ch pkt ?k) st)
      else ebind (submit_event (cl_submit env) (of_nat (length data)) (full_chan ch data)
                   (put_chan i (full_chan ch data) st))
            (\<lambda>(ret, st). if (if ret \<noteq> 0 then ret else - EINPROGRESS) < 0
                         then close_chan (cl_epoll env) fd i st else Inr (0, st)))"
    unfolding client_event3_piece [OF n pkt i raw c(2)]
    by (simp add: ebind_assoc case_prod_unfold cong: if_cong)
  also have "\<dots> = (if ?k < length pkt then Inr (0, put_chan i (partial_chan ch pkt ?k) st)
      else ebind (submit_event (cl_submit env) (of_nat (length data)) (full_chan ch data)
                   (put_chan i (full_chan ch data) st))
            (\<lambda>(_, st). close_chan (cl_epoll env) fd i st))"
    using submit_event_nonpos [OF _ env]
    by (cases "submit_event (cl_submit env) (of_nat (length data)) (full_chan ch data)
                   (put_chan i (full_chan ch data) st)") (auto simp: less_le)
  finally show ?thesis unfolding route .
qed

lemma recv_chunks_partial:
  assumes n: "length data < 24576" and pkt: "pkt = net16 (length data) @ data"
    and i: "i < length (st_chans st)" and raw: "length (ch_raw ch) = 24578"
    and online: "ch_fd ch \<noteq> -1"
    and fd: "epl_map_at st fd = Inr (of_nat (i + 1))" "i + 1 < 65535"
    and env: "errno_env (cl_submit env)"
  shows "concat cs = drop k pkt \<Longrightarrow> k < length pkt \<Longrightarrow> [] \<notin> set cs \<Longrightarrow>
    recv_chunks env fd (put_chan i (partial_chan ch pkt k) st) cs =
      ebind (submit_event (cl_submit env) (of_nat (length data)) (full_chan ch data)
               (put_chan i (full_chan ch data) st)) (\<lambda>(_, st). close_chan (cl_epoll env) fd i st)"
proof (induction cs arbitrary: k)
  case Nil
  then show ?case by simp
next
  case (Cons c cs)
  have c: "c \<noteq> []" "k + length c \<le> length pkt" "take (length c) (drop k pkt) = c"
  proof -
    have "length c \<le> length (drop k pkt)" by (simp flip: Cons.prems(1))
    with Cons.prems(2) show "k + length c \<le> length pkt" by simp
  qed (use Cons.prems in \<open>auto simp flip: Cons.prems(1)\<close>)
  have rest: "concat cs = drop (k + length c) pkt"
    using Cons.prems(1) by (metis add.commute append_eq_conv_conj concat.simps(2) drop_drop)
  note piece = client_event_piece [OF n pkt i raw online fd c env]
  show ?case
  proof (cases "k + length c < length pkt")
    case True
    then have "cs \<noteq> []" using rest by auto
    with True Cons.IH [OF rest True] Cons.prems(3) show ?thesis by (simp add: piece)
  next
    case False
    then have "concat cs = []" using rest by simp
    then have "cs = []" using Cons.prems(3) by (cases cs) auto
    with False show ?thesis by (simp add: piece ebind_assoc case_prod_unfold ebind_Inr_id)
  qed
qed

end
