(* ===== verification/Server_Inv.thy ===== *)
theory Server_Inv
  imports Server_Event
begin

text \<open>
  The invariants of the running server: which channel slots are free, which descriptor
  belongs to which channel, and what the workers and the submission queue look like.  Every
  handler of \<open>Server_Event\<close> keeps them, and under them no handler runs into the \<open>abort()\<close>
  of \<open>handle_client_event\<close> or leaves an array.
\<close>

section \<open>Invariants\<close>

definition chan_ok :: "gwbot_state \<Rightarrow> nat \<Rightarrow> gwbot_chan \<Rightarrow> bool" where
  "chan_ok st i ch \<longleftrightarrow>
     unat (ch_idx ch) = i \<and> length (ch_raw ch) = 24578 \<and> length (ch_src_ip ch) = 17 \<and>
     ch_recv_s ch \<le> 24578 \<and>
     (if ch_is_online ch
      then ch_fd ch \<noteq> -1 \<and> epl_map_at st (ch_fd ch) = Inr (of_nat (i + 1)) \<and> i + 1 < 65535
      else ch_fd ch = -1)"

definition chans_inv :: "gwbot_state \<Rightarrow> bool" where
  "chans_inv st \<longleftrightarrow>
     length (st_epl_map st) = 65535 \<and> length (st_chans st) \<le> 65535 \<and>
     tss_wf (st_chan_stk st) \<and> tss_cap (st_chan_stk st) = length (st_chans st) \<and>
     distinct (tss_list (st_chan_stk st)) \<and>
     (\<forall>w \<in> set (tss_list (st_chan_stk st)). unat w < length (st_chans st) \<and>
        \<not> ch_is_online (st_chans st ! unat w)) \<and>
     (\<forall>i < length (st_chans st). chan_ok st i (st_chans st ! i)) \<and>
     (\<forall>f < 65535. st_epl_map st ! f \<noteq> 0 \<longrightarrow>
        (\<exists>i < length (st_chans st). st_epl_map st ! f = of_nat (i + 1) \<and> i + 1 < 65535 \<and>
           ch_is_online (st_chans st ! i) \<and> ch_fd (st_chans st ! i) = int f))"

definition threads_inv :: "gwbot_state \<Rightarrow> bool" where
  "threads_inv st \<longleftrightarrow>
     need_destroy (st_thread_stk_lock st) \<and> tss_wf (st_thread_stk st) \<and>
     (\<forall>w \<in> set (tss_list (st_thread_stk st)). unat w < length (st_threads st)) \<and>
     (\<forall>th \<in> set (st_threads st). need_destroy (th_ev_lock th) \<and> need_destroy (th_ev_cond th) \<and>
        length (th_raw th) = 24578)"

text \<open>The packets in the submission queue; each has its two bytes of length.\<close>

definition queue_has :: "gwbot_state \<Rightarrow> bytes list \<Rightarrow> bool" where
  "queue_has st vs \<longleftrightarrow> que_rep (st_heap st, st_sqes st) vs \<and> (\<forall>v \<in> set vs. 2 \<le> length v)"

definition srv_inv :: "gwbot_state \<Rightarrow> bool" where
  "srv_inv st \<longleftrightarrow> chans_inv st \<and> threads_inv st \<and> (\<exists>vs. queue_has st vs)"

section \<open>Words that hold indexes\<close>

lemma unat_idx [simp]: "i < 65536 \<Longrightarrow> unat (of_nat i :: u16) = i"
  by (simp add: unsigned_of_nat take_bit_nat_eq_self)

lemma unat_idx32 [simp]: "i < 65536 \<Longrightarrow> unat (of_nat i :: u32) = i"
  by (simp add: unsigned_of_nat take_bit_nat_eq_self)

lemma unat_ucast32 [simp]: "unat (ucast (w :: u16) :: u32) = unat w"
  using unat_u16_less [of w] by (simp add: unsigned_ucast_eq take_bit_nat_eq_self)

lemma ucast_idx [simp]: "i < 65536 \<Longrightarrow> (ucast (of_nat i :: u16) :: u32) = of_nat i"
  by (simp add: word_unat_eq_iff)

lemma unat_ucast16: "unat (w :: u32) < 65536 \<Longrightarrow> unat (ucast w :: u16) = unat w"
  by (simp add: unsigned_ucast_eq take_bit_nat_eq_self)

lemma ucast_ucast_idx [simp]: "(ucast (ucast (w :: u16) :: u32) :: u16) = w"
  using unat_u16_less [of w] by (simp add: word_unat_eq_iff unat_ucast16)

lemma idx_plus_one:
  assumes "i + 1 < 65535"
  shows "(of_nat (i + 1) :: u16) \<noteq> 0" "unat (of_nat (i + 1) - of_nat 1 :: u16) = i"
proof -
  have "unat (of_nat (i + 1) :: u16) = i + 1" using assms by (intro unat_idx) simp
  then show "(of_nat (i + 1) :: u16) \<noteq> 0" by (metis add_is_0 one_neq_zero unat_0)
  show "unat (of_nat (i + 1) - of_nat 1 :: u16) = i" using assms by simp
qed

lemma idx_inj:
  assumes "i + 1 < 65535" and "j + 1 < 65535" and "(of_nat (i + 1) :: u16) = of_nat (j + 1)"
  shows "i = j"
proof -
  have "unat (of_nat (i + 1) :: u16) = i + 1" "unat (of_nat (j + 1) :: u16) = j + 1"
    using assms(1,2) by (intro unat_idx; simp)+
  with assms(3) show ?thesis by simp
qed

section \<open>Reading the invariant\<close>

lemma chans_invD:
  assumes "chans_inv st" and "i < length (st_chans st)"
  shows "chan_ok st i (st_chans st ! i)"
  using assms by (simp add: chans_inv_def)

text \<open>A registered descriptor leads to the channel it was registered for.\<close>

lemma epl_map_chan:
  assumes "chans_inv st" and "epl_map_at st fd = Inr m" and "m \<noteq> 0"
  obtains i where "i < length (st_chans st)" "m = of_nat (i + 1)" "i + 1 < 65535"
    "ch_is_online (st_chans st ! i)" "ch_fd (st_chans st ! i) = fd"
proof -
  have "0 \<le> fd" "nat fd < 65535" "m = st_epl_map st ! nat fd"
    using assms(1,2) by (auto simp: epl_map_at_def chans_inv_def split: if_splits)
  with assms(1,3) that show thesis unfolding chans_inv_def by (metis int_nat_eq)
qed

lemma online_not_free:
  assumes "chans_inv st" and "i < length (st_chans st)" and "ch_is_online (st_chans st ! i)"
  shows "(of_nat i :: u32) \<notin> set (tss_list (st_chan_stk st))"
    "length (tss_list (st_chan_stk st)) < tss_cap (st_chan_stk st)"
proof -
  let ?s = "tss_list (st_chan_stk st)"
  have i: "i < 65536" using assms(1,2) by (simp add: chans_inv_def)
  show 1: "(of_nat i :: u32) \<notin> set ?s"
    using assms i unfolding chans_inv_def by (metis unat_idx32)
  have "w = of_nat i" if "unat w = i" for w :: u32 using that i by (simp add: word_unat_eq_iff)
  then have "unat ` set ?s \<subseteq> {..<length (st_chans st)} - {i}"
    using 1 assms(1) by (auto simp: chans_inv_def)
  then have "card (unat ` set ?s) \<le> length (st_chans st) - 1"
    using card_mono [of "{..<length (st_chans st)} - {i}" "unat ` set ?s"] assms(2) by simp
  moreover have "card (unat ` set ?s) = length ?s"
    using assms(1) by (simp add: chans_inv_def card_image inj_on_def distinct_card word_unat_eq_iff)
  ultimately show "length ?s < tss_cap (st_chan_stk st)"
    using assms(1,2) by (simp add: chans_inv_def)
qed

text \<open>An invariant that only reads some fields survives changes of the others.\<close>

lemma chans_inv_cong:
  "st_epl_map st' = st_epl_map st \<Longrightarrow> st_chans st' = st_chans st \<Longrightarrow> st_chan_stk st' = st_chan_stk st \<Longrightarrow>
     chans_inv st' = chans_inv st"
  by (simp add: chans_inv_def chan_ok_def epl_map_at_def)

lemma threads_inv_cong:
  "st_threads st' = st_threads st \<Longrightarrow> st_thread_stk st' = st_thread_stk st \<Longrightarrow>
     st_thread_stk_lock st' = st_thread_stk_lock st \<Longrightarrow> threads_inv st' = threads_inv st"
  by (simp add: threads_inv_def)

lemma queue_has_cong:
  "st_heap st' = st_heap st \<Longrightarrow> st_sqes st' = st_sqes st \<Longrightarrow> queue_has st' vs = queue_has st vs"
  by (simp add: queue_has_def)

lemma inv_emit [simp]:
  "chans_inv (emit c st) = chans_inv st" "threads_inv (emit c st) = threads_inv st"
  "queue_has (emit c st) vs = queue_has st vs"
  by (simp_all add: chans_inv_cong [of "emit c st" st] threads_inv_cong [of "emit c st" st]
      queue_has_cong [of "emit c st" st])

lemma srv_inv_emit [simp]: "srv_inv (emit c st) = srv_inv st"
  by (simp add: srv_inv_def)

text \<open>The fields of workers and queue, which the channel operations leave alone.\<close>

definition same_work :: "gwbot_state \<Rightarrow> gwbot_state \<Rightarrow> bool" where
  "same_work st st' \<longleftrightarrow> st_threads st' = st_threads st \<and> st_thread_stk st' = st_thread_stk st \<and>
     st_thread_stk_lock st' = st_thread_stk_lock st \<and> st_heap st' = st_heap st \<and> st_sqes st' = st_sqes st"

lemma same_work_inv:
  "same_work st st' \<Longrightarrow> threads_inv st' = threads_inv st \<and> queue_has st' vs = queue_has st vs"
  using threads_inv_cong [of st' st] queue_has_cong [of st' st] by (simp add: same_work_def)

section \<open>Closing a channel\<close>

definition closed_state :: "int \<Rightarrow> int \<Rightarrow> nat \<Rightarrow> tstack \<Rightarrow> gwbot_state \<Rightarrow> gwbot_state" where
  "closed_state err fd i stk st =
     emit (CloseFd fd) (put_chan i (reset_chan (st_chans st ! i) (of_nat i))
       (snd (epoll_delete err fd (st\<lparr> st_chan_stk := stk, st_epl_map := (st_epl_map st)[nat fd := 0] \<rparr>))))"

lemma closed_state_simps [simp]:
  "st_epl_map (closed_state err fd i stk st) = (st_epl_map st)[nat fd := 0]"
  "st_chans (closed_state err fd i stk st) = (st_chans st)[i := reset_chan (st_chans st ! i) (of_nat i)]"
  "st_chan_stk (closed_state err fd i stk st) = stk"
  "same_work st (closed_state err fd i stk st)"
  "CloseFd fd \<in> set (st_sys (closed_state err fd i stk st))"
  by (simp_all add: closed_state_def epoll_delete_def same_work_def)

lemma close_chan_eq:
  assumes inv: "chans_inv st" and i: "i < length (st_chans st)" and on: "ch_is_online (st_chans st ! i)"
    and fd: "ch_fd (st_chans st ! i) = fd"
  obtains stk where "close_chan err fd i st = Inr (0, closed_state err fd i stk st)"
    "tss_wf stk" "tss_list stk = of_nat i # tss_list (st_chan_stk st)" "tss_cap stk = tss_cap (st_chan_stk st)"
proof -
  have ok: "unat (ch_idx (st_chans st ! i)) = i" "0 \<le> fd" "nat fd < length (st_epl_map st)"
    using chans_invD [OF inv i] on fd by (auto simp: chan_ok_def epl_map_at_def split: if_splits)
  have i16: "i < 65536" using inv i by (simp add: chans_inv_def)
  have idx: "ucast (ch_idx (st_chans st ! i)) = (of_nat i :: u32)"
    using ok(1) i16 by (simp add: word_unat_eq_iff)
  obtain stk where stk: "tss_push (st_chan_stk st) (of_nat i) = Inr (uint (of_nat i :: u32), stk)" "tss_wf stk"
      "tss_list stk = of_nat i # tss_list (st_chan_stk st)" "tss_cap stk = tss_cap (st_chan_stk st)"
    using tss.push_room online_not_free(2) [OF inv i on] inv unfolding chans_inv_def by blast
  have "close_chan err fd i st = Inr (0, closed_state err fd i stk st)"
    using i idx stk(1) ok by (simp add: close_chan_def epl_map_put_def closed_state_def)
  with stk that show thesis by blast
qed

lemma closed_state_inv:
  assumes inv: "chans_inv st" and i: "i < length (st_chans st)" and on: "ch_is_online (st_chans st ! i)"
    and fd: "ch_fd (st_chans st ! i) = fd"
    and stk: "tss_wf stk" "tss_list stk = of_nat i # tss_list (st_chan_stk st)" "tss_cap stk = tss_cap (st_chan_stk st)"
  shows "chans_inv (closed_state err fd i stk st)"
proof -
  let ?st = "closed_state err fd i stk st" and ?r = "reset_chan (st_chans st ! i) (of_nat i)"
  have i16: "i < 65536" using inv i by (simp add: chans_inv_def)
  have ok: "chan_ok st i (st_chans st ! i)" using chans_invD [OF inv i] .
  then have fd_ok: "0 \<le> fd" "nat fd < length (st_epl_map st)" "i + 1 < 65535"
      "st_epl_map st ! nat fd = of_nat (i + 1)"
    using on fd by (auto simp: chan_ok_def epl_map_at_def split: if_splits)
  have at: "epl_map_at ?st g = (if g = fd then Inr 0 else epl_map_at st g)" for g
    using fd_ok by (auto simp: epl_map_at_def nth_list_update)
  have r: "chan_ok ?st i ?r" using ok i16 by (simp add: chan_ok_def reset_chan_def unat_ucast16)
  have others: "chan_ok ?st j (st_chans st ! j)" if "j < length (st_chans st)" "j \<noteq> i" for j
  proof -
    have "chan_ok st j (st_chans st ! j)" using chans_invD [OF inv that(1)] .
    moreover have "ch_fd (st_chans st ! j) \<noteq> fd" if "ch_is_online (st_chans st ! j)"
      using calculation that \<open>j \<noteq> i\<close> fd_ok idx_inj [of i j]
      by (auto simp: chan_ok_def epl_map_at_def split: if_splits)
    ultimately show ?thesis using at by (auto simp: chan_ok_def)
  qed
  have free: "(of_nat i :: u32) \<notin> set (tss_list (st_chan_stk st))"
    using online_not_free [OF inv i on] by simp
  have "\<forall>f < 65535. st_epl_map ?st ! f \<noteq> 0 \<longrightarrow>
        (\<exists>j < length (st_chans ?st). st_epl_map ?st ! f = of_nat (j + 1) \<and> j + 1 < 65535 \<and>
           ch_is_online (st_chans ?st ! j) \<and> ch_fd (st_chans ?st ! j) = int f)"
  proof (intro allI impI)
    fix f assume f: "f < 65535" "st_epl_map ?st ! f \<noteq> 0"
    then have ne: "f \<noteq> nat fd" using fd_ok by auto
    then obtain j where j: "j < length (st_chans st)" "st_epl_map st ! f = of_nat (j + 1)" "j + 1 < 65535"
        "ch_is_online (st_chans st ! j)" "ch_fd (st_chans st ! j) = int f"
      using f inv by (auto simp: chans_inv_def)
    then have "j \<noteq> i" using fd ne by auto
    with j ne show "\<exists>j < length (st_chans ?st). st_epl_map ?st ! f = of_nat (j + 1) \<and> j + 1 < 65535 \<and>
           ch_is_online (st_chans ?st ! j) \<and> ch_fd (st_chans ?st ! j) = int f"
      by (intro exI [of _ j]) simp
  qed
  moreover have "\<forall>j < length (st_chans ?st). chan_ok ?st j (st_chans ?st ! j)"
    using r others i by (simp add: nth_list_update)
  moreover have "\<forall>w \<in> set (tss_list stk). unat w < length (st_chans ?st) \<and> \<not> ch_is_online (st_chans ?st ! unat w)"
    using inv stk(2) i i16 by (auto simp: chans_inv_def nth_list_update reset_chan_def)
  moreover have "distinct (tss_list stk)" using inv stk(2) free by (simp add: chans_inv_def)
  ultimately show ?thesis
    using inv stk(1,3) unfolding chans_inv_def by simp
qed

section \<open>Accepting\<close>

lemma resolve_src_info_total: "\<exists>ip port. resolve_src_info addr = Inr (ip, port)"
proof -
  have len: "length (show_nat (byte c)) \<le> 3" for c :: char
  proof (rule length_show_nat)
    show "byte c < 10 ^ 3" by (rule less_trans [OF nat_of_char_less_256]) simp
  qed simp
  obtain a b c d where "sin_addr addr = (a, b, c, d)" by (metis prod_cases4)
  with len [of a] len [of b] len [of c] len [of d] show ?thesis
    by (simp add: resolve_src_info_def convert_addr_ntop_def inet_ntop_def Let_def)
qed

text \<open>What \<open>accept\<close> promises: a descriptor that no open connection has.\<close>

definition accept_ok :: "gwbot_state \<Rightarrow> accept_env \<Rightarrow> bool" where
  "accept_ok st env \<longleftrightarrow>
     (case ac_accept env of
        Inl _ \<Rightarrow> True
      | Inr fd \<Rightarrow> 0 \<le> fd \<and> (\<forall>ch \<in> set (st_chans st). ch_is_online ch \<longrightarrow> ch_fd ch \<noteq> fd))"

text \<open>
  The acceptor gets to the write into \<open>epl_map\<close> with a descriptor that the map has no place for;
  the index is not checked.
\<close>

definition accept_overruns :: "gwbot_state \<Rightarrow> accept_env \<Rightarrow> bool" where
  "accept_overruns st env \<longleftrightarrow>
     (case (ac_accept env, ac_time env, tss_list (st_chan_stk st)) of
        (Inr fd, Inr now, w # ws) \<Rightarrow> 65535 \<le> fd \<and> ac_addr_len env \<le> 16 \<and> unat w + 1 < 65535 \<and> ac_epoll env = 0
      | _ \<Rightarrow> False)"

lemma accept_free:
  assumes "chans_inv st" and "accept_ok st env" and "ac_accept env = Inr fd" and "fd < 65535"
  shows "0 \<le> fd" "nat fd < 65535" "st_epl_map st ! nat fd = 0"
proof -
  show fd: "0 \<le> fd" "nat fd < 65535" using assms(2-4) by (auto simp: accept_ok_def)
  show "st_epl_map st ! nat fd = 0"
  proof (rule ccontr)
    assume "st_epl_map st ! nat fd \<noteq> 0"
    then obtain i where "i < length (st_chans st)" "ch_is_online (st_chans st ! i)" "ch_fd (st_chans st ! i) = int (nat fd)"
      using assms(1) fd by (auto simp: chans_inv_def)
    then show False using assms(2,3) fd(1) nth_mem [of i "st_chans st"] by (auto simp: accept_ok_def)
  qed
qed

definition accepted_state :: "int \<Rightarrow> nat \<Rightarrow> gwbot_chan \<Rightarrow> tstack \<Rightarrow> gwbot_state \<Rightarrow> gwbot_state" where
  "accepted_state fd i ch stk st =
     (put_chan i ch (emit (EpollAdd fd) (st\<lparr> st_chan_stk := stk \<rparr>)))
       \<lparr> st_epl_map := (st_epl_map st)[nat fd := of_nat (i + 1)], st_active_chan := st_active_chan st + 1 \<rparr>"

lemma accepted_state_simps [simp]:
  "st_epl_map (accepted_state fd i ch stk st) = (st_epl_map st)[nat fd := of_nat (i + 1)]"
  "st_chans (accepted_state fd i ch stk st) = (st_chans st)[i := ch]"
  "st_chan_stk (accepted_state fd i ch stk st) = stk"
  "same_work st (accepted_state fd i ch stk st)"
  by (simp_all add: accepted_state_def same_work_def)

lemma accepted_state_inv:
  assumes inv: "chans_inv st" and i: "i < length (st_chans st)" "i + 1 < 65535"
    and fd: "0 \<le> fd" "fd < 65535" "st_epl_map st ! nat fd = 0"
    and top: "tss_list (st_chan_stk st) = of_nat i # ws"
    and stk: "tss_wf stk" "tss_list stk = ws" "tss_cap stk = tss_cap (st_chan_stk st)"
    and ch: "ch_is_online ch" "ch_fd ch = fd" "unat (ch_idx ch) = i" "length (ch_raw ch) = 24578"
      "length (ch_src_ip ch) = 17" "ch_recv_s ch \<le> 24578"
  shows "chans_inv (accepted_state fd i ch stk st)"
proof -
  let ?st = "accepted_state fd i ch stk st"
  have len: "length (st_epl_map st) = 65535" "nat fd < 65535" using inv fd by (auto simp: chans_inv_def)
  have i16: "i < 65536" using i by simp
  have at: "epl_map_at ?st g = (if g = fd then Inr (of_nat (i + 1)) else epl_map_at st g)" for g
    using fd len by (auto simp: epl_map_at_def nth_list_update)
  have off: "\<not> ch_is_online (st_chans st ! i)"
    using inv top i16 by (auto simp: chans_inv_def)
  have new: "chan_ok ?st i ch" using ch i at fd by (simp add: chan_ok_def)
  have others: "chan_ok ?st j (st_chans st ! j)" if "j < length (st_chans st)" for j
  proof -
    have ok: "chan_ok st j (st_chans st ! j)" using chans_invD [OF inv that] .
    have "ch_fd (st_chans st ! j) \<noteq> fd" if "ch_is_online (st_chans st ! j)"
      using ok that fd idx_plus_one(1) [of j] by (auto simp: chan_ok_def epl_map_at_def split: if_splits)
    with ok show ?thesis using at by (auto simp: chan_ok_def)
  qed
  have "\<forall>f < 65535. st_epl_map ?st ! f \<noteq> 0 \<longrightarrow>
        (\<exists>j < length (st_chans ?st). st_epl_map ?st ! f = of_nat (j + 1) \<and> j + 1 < 65535 \<and>
           ch_is_online (st_chans ?st ! j) \<and> ch_fd (st_chans ?st ! j) = int f)"
  proof (intro allI impI)
    fix f assume f: "f < 65535" "st_epl_map ?st ! f \<noteq> 0"
    show "\<exists>j < length (st_chans ?st). st_epl_map ?st ! f = of_nat (j + 1) \<and> j + 1 < 65535 \<and>
           ch_is_online (st_chans ?st ! j) \<and> ch_fd (st_chans ?st ! j) = int f"
    proof (cases "f = nat fd")
      case True
      with i ch fd len show ?thesis by (intro exI [of _ i]) simp
    next
      case False
      then obtain j where j: "j < length (st_chans st)" "st_epl_map st ! f = of_nat (j + 1)" "j + 1 < 65535"
          "ch_is_online (st_chans st ! j)" "ch_fd (st_chans st ! j) = int f"
        using f inv by (auto simp: chans_inv_def)
      moreover from j(4) off have "j \<noteq> i" by auto
      ultimately show ?thesis using False by (intro exI [of _ j]) simp
    qed
  qed
  moreover have "\<forall>j < length (st_chans ?st). chan_ok ?st j (st_chans ?st ! j)"
    using new others i by (simp add: nth_list_update)
  moreover have "\<forall>w \<in> set ws. unat w < length (st_chans ?st) \<and> \<not> ch_is_online (st_chans ?st ! unat w)"
  proof
    fix w assume w: "w \<in> set ws"
    then have "w \<noteq> of_nat i" using inv top by (auto simp: chans_inv_def)
    then have "unat w \<noteq> i" using i16 by (auto simp: word_unat_eq_iff)
    with w inv top show "unat w < length (st_chans ?st) \<and> \<not> ch_is_online (st_chans ?st ! unat w)"
      by (simp add: chans_inv_def)
  qed
  ultimately show ?thesis
    using inv stk top unfolding chans_inv_def by simp
qed

lemma chans_inv_pop:
  assumes "chans_inv st" and "tss_wf stk" and "tss_list stk = tl (tss_list (st_chan_stk st))"
    and "tss_cap stk = tss_cap (st_chan_stk st)"
  shows "chans_inv (st\<lparr> st_chan_stk := stk \<rparr>)"
proof -
  have "distinct (tss_list stk)" "set (tss_list stk) \<subseteq> set (tss_list (st_chan_stk st))"
    using assms by (auto simp: chans_inv_def distinct_tl dest: list.set_sel(2) in_set_dropD
        simp flip: drop_Suc_Cons) (metis list.set_sel(2) list.sel(2))+
  moreover have "chan_ok (st\<lparr> st_chan_stk := stk \<rparr>) i ch = chan_ok st i ch" for i ch
    by (simp add: chan_ok_def epl_map_at_def)
  ultimately show ?thesis using assms unfolding chans_inv_def by (simp add: subset_iff)
qed

text \<open>The whole acceptor: the success case, and that every case keeps the invariant.\<close>

lemma run_acceptor_success:
  assumes inv: "chans_inv st" and env: "accept_ok st env" "ac_accept env = Inr fd" "ac_addr_len env \<le> 16"
      "ac_time env = Inr now" "ac_epoll env = 0"
    and top: "tss_list (st_chan_stk st) = w # ws" and small: "unat w + 1 < 65535" "fd < 65535"
  obtains ch stk where "run_acceptor env st = Inr (0, accepted_state fd (unat w) ch stk st)"
    "chans_inv (accepted_state fd (unat w) ch stk st)" "tss_list stk = ws"
    "ch_is_online ch" "ch_fd ch = fd" "ch_accepted_at ch = now" "ch_recv_s ch = 0"
proof -
  let ?i = "unat w"
  have i: "?i < length (st_chans st)" "w = of_nat ?i" "?i < 65536"
    using inv top small by (auto simp: chans_inv_def word_unat_eq_iff)
  have old: "length (ch_src_ip (st_chans st ! ?i)) = 17" "length (ch_raw (st_chans st ! ?i)) = 24578"
    using chans_invD [OF inv i(1)] by (auto simp: chan_ok_def)
  obtain ip port where src: "resolve_src_info (ac_addr env) = Inr (ip, port)"
    using resolve_src_info_total by blast
  obtain stk where stk: "tss_pop (st_chan_stk st) = Inr (uint w, stk)" "tss_wf stk" "tss_list stk = ws"
      "tss_cap stk = tss_cap (st_chan_stk st)"
    using tss.pop_some [OF _ top] inv unfolding chans_inv_def by blast
  obtain r where r: "sane_strncpy (ch_src_ip (st_chans st ! ?i)) ip 17 = Inr r" "length r = 17"
    using sane_strncpy_fits [OF old(1)] by auto
  define ch where "ch = (st_chans st ! ?i)\<lparr> ch_fd := fd, ch_idx := of_nat ?i, ch_accepted_at := now,
    ch_recv_s := 0, ch_src_port := port, ch_is_online := True, ch_src_ip := r \<rparr>"
  have fd: "0 \<le> fd" "fd < 65535" "st_epl_map st ! nat fd = 0" "nat fd < length (st_epl_map st)"
    using accept_free [OF inv env(1,2) small(2)] small(2) inv by (auto simp: chans_inv_def)
  have nat_uint: "nat (uint w) = ?i" by simp
  have run: "run_acceptor env st = Inr (0, accepted_state fd ?i ch stk st)"
    using env(2-5) src stk(1) i(1) r(1) small(1) fd tss.enc_not_error [of w]
    by (simp add: run_acceptor_def nat_uint epoll_add_def epl_map_put_def accepted_state_def ch_def Let_def)
  moreover have "chans_inv (accepted_state fd ?i ch stk st)"
    using i small fd top stk r(2) old
    by (intro accepted_state_inv [OF inv]) (simp_all add: ch_def unat_ucast16)
  ultimately show thesis using that stk(3) by (simp add: ch_def)
qed

lemma run_acceptor_overrun:
  assumes inv: "chans_inv st" and over: "accept_overruns st env"
  shows "run_acceptor env st = Inl OutOfBounds"
proof -
  obtain fd now w ws where env: "ac_accept env = Inr fd" "ac_time env = Inr now" "tss_list (st_chan_stk st) = w # ws"
      "65535 \<le> fd" "ac_addr_len env \<le> 16" "unat w + 1 < 65535" "ac_epoll env = 0"
    using over by (auto simp: accept_overruns_def split: sum.splits list.splits)
  have i: "unat w < length (st_chans st)" using inv env(3) by (simp add: chans_inv_def)
  have "length (ch_src_ip (st_chans st ! unat w)) = 17" using chans_invD [OF inv i] by (simp add: chan_ok_def)
  note copy = sane_strncpy_fits [OF this]
  obtain ip port where src: "resolve_src_info (ac_addr env) = Inr (ip, port)"
    using resolve_src_info_total by blast
  obtain stk where stk: "tss_pop (st_chan_stk st) = Inr (uint w, stk)"
    using tss.pop_some [OF _ env(3)] inv unfolding chans_inv_def by blast
  obtain r where "sane_strncpy (ch_src_ip (st_chans st ! unat w)) ip 17 = Inr r" using copy [of ip] by auto
  moreover have "length (st_epl_map st) = 65535" using inv by (simp add: chans_inv_def)
  ultimately show ?thesis
    using env src stk i tss.enc_not_error [of w]
    by (simp add: run_acceptor_def epoll_add_def epl_map_put_def Let_def)
qed

lemma run_acceptor_inv:
  assumes inv: "chans_inv st" and env: "accept_ok st env" and fits: "\<not> accept_overruns st env"
  shows "\<exists>ret st'. run_acceptor env st = Inr (ret, st') \<and> chans_inv st' \<and> same_work st st'"
proof (cases "ac_accept env")
  case (Inl err)
  with inv show ?thesis by (simp add: run_acceptor_def same_work_def)
next
  case (Inr fd)
  obtain ip port where src: "resolve_src_info (ac_addr env) = Inr (ip, port)"
    using resolve_src_info_total by blast
  obtain r stk where stk: "tss_pop (st_chan_stk st) = Inr (r, stk)" "tss_wf stk"
      "tss_list stk = tl (tss_list (st_chan_stk st))" "tss_cap stk = tss_cap (st_chan_stk st)"
    using tss.pop_wf inv unfolding chans_inv_def by blast
  let ?popped = "emit (CloseFd fd) (st\<lparr> st_chan_stk := stk \<rparr>)" and ?closed = "emit (CloseFd fd) st"
  have keep: "chans_inv ?closed" "same_work st ?closed" "chans_inv ?popped" "same_work st ?popped"
    using inv chans_inv_pop [OF inv stk(2-4)]
    by (simp_all add: same_work_def)
  show ?thesis
  proof (cases "16 < ac_addr_len env \<or> r = -1 \<or> 65535 \<le> nat r + 1 \<or> (\<exists>e. ac_time env = Inl e) \<or> ac_epoll env \<noteq> 0")
    case True
    then have "\<exists>ret. run_acceptor env st = Inr (ret, ?closed) \<or> run_acceptor env st = Inr (ret, ?popped)"
      using Inr src stk(1) by (auto simp: run_acceptor_def epoll_add_def Let_def split: sum.splits)
    with keep show ?thesis by blast
  next
    case False
    obtain w ws where top: "tss_list (st_chan_stk st) = w # ws"
      using False tss.pop_none inv stk(1) unfolding chans_inv_def by (cases "tss_list (st_chan_stk st)") auto
    then have "r = uint w" using tss.pop_some [OF _ top] inv stk(1) unfolding chans_inv_def by fastforce
    then obtain now where now: "ac_addr_len env \<le> 16" "ac_time env = Inr now" "ac_epoll env = 0" "unat w + 1 < 65535"
      using False by (cases "ac_time env") auto
    have small: "fd < 65535" using fits Inr now top by (simp add: accept_overruns_def)
    obtain ch stk' where "run_acceptor env st = Inr (0, accepted_state fd (unat w) ch stk' st)"
        "chans_inv (accepted_state fd (unat w) ch stk' st)"
      by (rule run_acceptor_success [OF inv env Inr now(1,2,3) top now(4) small])
    then show ?thesis by (metis accepted_state_simps(4))
  qed
qed

section \<open>Handing out work\<close>

text \<open>A worker with a packet of its own, and what the wake-up adds to the trace.\<close>

definition loaded :: "gwbot_thread \<Rightarrow> bytes \<Rightarrow> gwbot_thread" where
  "loaded th pkt = th\<lparr> th_from_sqe := False, th_has_event := True, th_pkt_len := length pkt,
     th_raw := pkt @ NUL # drop (length pkt + 1) (th_raw th) \<rparr>"

definition woken :: "int \<Rightarrow> nat \<Rightarrow> gwbot_thread \<Rightarrow> gwbot_state \<Rightarrow> int \<times> gwbot_state" where
  "woken err i th st =
     (if th_is_online th then (0, emit (SignalThread i) st)
      else if err \<noteq> 0 then (neg_err err, st) else (0, emit (SpawnThread i) st))"

lemma wake_thread_eq:
  "need_destroy (th_ev_lock th) \<Longrightarrow> need_destroy (th_ev_cond th) \<Longrightarrow>
     wake_thread err i th st = Inr (woken err i th st)"
  by (simp add: wake_thread_def woken_def gw_cond_signal_def gw_mutex_unlock_def spawn_thread_def)

lemma woken_simps [simp]:
  "st_threads (snd (woken err i th st)) = st_threads st"
  "st_chans (snd (woken err i th st)) = st_chans st"
  "st_epl_map (snd (woken err i th st)) = st_epl_map st"
  "st_chan_stk (snd (woken err i th st)) = st_chan_stk st"
  "st_thread_stk (snd (woken err i th st)) = st_thread_stk st"
  "st_thread_stk_lock (snd (woken err i th st)) = st_thread_stk_lock st"
  "st_heap (snd (woken err i th st)) = st_heap st"
  "st_sqes (snd (woken err i th st)) = st_sqes st"
  by (simp_all add: woken_def)

lemma submit_to_thread_eq:
  assumes th: "i < length (st_threads st)" "th = st_threads st ! i" and inv: "threads_inv st"
    and raw: "length (ch_raw ch) = 24578" and l: "l < 24578"
  shows "submit_to_thread env i ch l st =
    (let th' = loaded th (take l (ch_raw ch)) in Inr (woken (sm_spawn env) i th' (put_thread i th' st)))"
proof -
  have ok: "need_destroy (th_ev_lock th)" "need_destroy (th_ev_cond th)" "length (th_raw th) = 24578"
    using th inv by (auto simp: threads_inv_def)
  have "drop l (th_raw th) = th_raw th ! l # drop (l + 1) (th_raw th)"
    using ok(3) l by (simp add: Cons_nth_drop_Suc)
  then have "ebind (buf_put (th_raw th) 0 (take l (ch_raw ch))) (\<lambda>raw. buf_set raw l NUL) =
      Inr (th_raw (loaded th (take l (ch_raw ch))))"
    using ok(3) raw l by (simp add: loaded_def list_update_append)
  then obtain r where r: "buf_put (th_raw th) 0 (take l (ch_raw ch)) = Inr r"
      "buf_set r l NUL = Inr (th_raw (loaded th (take l (ch_raw ch))))"
    by (auto simp: run_simps)
  have "th\<lparr> th_from_sqe := False, th_has_event := True, th_pkt_len := l,
      th_raw := th_raw (loaded th (take l (ch_raw ch))) \<rparr> = loaded th (take l (ch_raw ch))"
    using raw l by (simp add: loaded_def)
  with th ok r raw l show ?thesis
    by (simp add: submit_to_thread_def gw_mutex_lock_def wake_thread_eq Let_def)
qed

lemma submit_event_idle:
  assumes inv: "threads_inv st" and top: "tss_list (st_thread_stk st) = w # ws"
    and raw: "length (ch_raw ch) = 24578" and l: "unat n < 24576"
  obtains stk where
    "submit_event env n ch st = Inr (let th = loaded (st_threads st ! unat w) (take (2 + unat n) (ch_raw ch)) in
       woken (sm_spawn env) (unat w) th (put_thread (unat w) th (st\<lparr> st_thread_stk := stk \<rparr>)))"
    "tss_wf stk" "tss_list stk = ws"
proof -
  obtain stk where stk: "tss_pop (st_thread_stk st) = Inr (uint w, stk)" "tss_wf stk" "tss_list stk = ws"
    using tss.pop_some [OF _ top] inv unfolding threads_inv_def by blast
  have w: "unat w < length (st_threads st)" using inv top by (simp add: threads_inv_def)
  have inv': "threads_inv (st\<lparr> st_thread_stk := stk \<rparr>)"
    using inv stk top by (simp add: threads_inv_def)
  have "submit_event env n ch st = submit_to_thread env (unat w) ch (2 + unat n) (st\<lparr> st_thread_stk := stk \<rparr>)"
    using inv stk(1) tss.enc_not_error [of w]
    by (simp add: submit_event_def threads_inv_def gw_mutex_lock_def gw_mutex_unlock_def)
  also have "\<dots> = Inr (let th = loaded (st_threads st ! unat w) (take (2 + unat n) (ch_raw ch)) in
       woken (sm_spawn env) (unat w) th (put_thread (unat w) th (st\<lparr> st_thread_stk := stk \<rparr>)))"
    using w l raw by (subst submit_to_thread_eq [OF _ refl inv']) (simp_all add: Let_def)
  finally show thesis using that stk by blast
qed

lemma submit_event_busy:
  assumes inv: "threads_inv st" and empty: "tss_list (st_thread_stk st) = []"
    and raw: "length (ch_raw ch) = 24578" and l: "unat n < 24576"
  shows "submit_event env n ch st =
    ebind (que_enqueue (st_heap st, st_sqes st) (sm_alloc env) (take (2 + unat n) (ch_raw ch))) (\<lambda>(node, (h, q)).
      Inr (case node of Inl err \<Rightarrow> (- err, st\<lparr> st_heap := h, st_sqes := q \<rparr>)
           | Inr _ \<Rightarrow> (0, st\<lparr> st_heap := h, st_sqes := q \<rparr>)))"
proof -
  have "tss_pop (st_thread_stk st) = Inr (-1, st_thread_stk st)"
    using tss.pop_none empty inv by (simp add: threads_inv_def)
  moreover have "st\<lparr> st_thread_stk := st_thread_stk st \<rparr> = st" by simp
  ultimately have "submit_event env n ch st = enqueue_to_sqe env ch (2 + unat n) st"
    using inv by (simp add: submit_event_def threads_inv_def gw_mutex_lock_def gw_mutex_unlock_def Let_def)
  with l raw show ?thesis by (simp add: enqueue_to_sqe_def Let_def)
qed

text \<open>What the allocator promises: an address that is not in use.\<close>

definition submit_ok :: "gwbot_state \<Rightarrow> submit_env \<Rightarrow> bool" where
  "submit_ok st env \<longleftrightarrow> errno_env env \<and> (case sm_alloc env of Inl _ \<Rightarrow> True | Inr a \<Rightarrow> a |\<notin>| fmdom (st_heap st))"

definition same_chans :: "gwbot_state \<Rightarrow> gwbot_state \<Rightarrow> bool" where
  "same_chans st st' \<longleftrightarrow> st_epl_map st' = st_epl_map st \<and> st_chans st' = st_chans st \<and>
     st_chan_stk st' = st_chan_stk st"

lemma threads_inv_loaded:
  assumes "threads_inv st" and "i < length (st_threads st)" and "tss_wf stk"
    and "set (tss_list stk) \<subseteq> set (tss_list (st_thread_stk st))"
    and "th_ev_lock th = th_ev_lock (st_threads st ! i)" "th_ev_cond th = th_ev_cond (st_threads st ! i)"
      "length (th_raw th) = 24578"
    and "st_threads st' = (st_threads st)[i := th]" "st_thread_stk st' = stk"
      "st_thread_stk_lock st' = st_thread_stk_lock st"
  shows "threads_inv st'"
proof -
  have "\<forall>t \<in> set ((st_threads st)[i := th]). need_destroy (th_ev_lock t) \<and> need_destroy (th_ev_cond t) \<and>
      length (th_raw t) = 24578"
    using assms(1,2,5-7) set_update_subset_insert [of "st_threads st" i th] unfolding threads_inv_def by auto
  with assms show ?thesis unfolding threads_inv_def by auto
qed

lemma submit_event_inv:
  assumes inv: "threads_inv st" and q: "queue_has st vs" and env: "submit_ok st env"
    and raw: "length (ch_raw ch) = 24578" and l: "unat n < 24576"
  shows "\<exists>ret st' vs'. submit_event env n ch st = Inr (ret, st') \<and> threads_inv st' \<and> queue_has st' vs' \<and> same_chans st st'"
proof (cases "tss_list (st_thread_stk st)")
  case (Cons w ws)
  let ?th = "loaded (st_threads st ! unat w) (take (2 + unat n) (ch_raw ch))"
  obtain stk where stk: "submit_event env n ch st =
      Inr (woken (sm_spawn env) (unat w) ?th (put_thread (unat w) ?th (st\<lparr> st_thread_stk := stk \<rparr>)))"
      "tss_wf stk" "tss_list stk = ws"
    using submit_event_idle [OF inv Cons raw l, of env] by (auto simp: Let_def)
  have w: "unat w < length (st_threads st)" using inv Cons by (simp add: threads_inv_def)
  then have "length (th_raw (st_threads st ! unat w)) = 24578" using inv by (simp add: threads_inv_def)
  then have "length (th_raw ?th) = 24578" using raw l by (simp add: loaded_def)
  with stk w Cons have "threads_inv (snd (woken (sm_spawn env) (unat w) ?th (put_thread (unat w) ?th (st\<lparr> st_thread_stk := stk \<rparr>))))"
    by (intro threads_inv_loaded [OF inv w stk(2), of ?th]) (auto simp: loaded_def)
  with stk(1) q show ?thesis
    by (intro exI [of _ "fst (woken (sm_spawn env) (unat w) ?th (put_thread (unat w) ?th (st\<lparr> st_thread_stk := stk \<rparr>)))"]
        exI [of _ "snd (woken (sm_spawn env) (unat w) ?th (put_thread (unat w) ?th (st\<lparr> st_thread_stk := stk \<rparr>)))"]
        exI [of _ vs])
      (simp add: queue_has_def same_chans_def)
next
  case Nil
  let ?pkt = "take (2 + unat n) (ch_raw ch)" and ?s = "(st_heap st, st_sqes st)"
  have rep: "que_rep ?s vs" using q by (simp add: queue_has_def)
  have len: "2 \<le> length ?pkt" using raw l by simp
  show ?thesis
  proof (cases "length vs < que_cap ?s \<and> (\<exists>a. sm_alloc env = Inr a)")
    case True
    then have "que_fresh ?s (sm_alloc env)" using env by (auto simp: submit_ok_def que_fresh_def)
    with True rep obtain node s' where "que_enqueue ?s (sm_alloc env) ?pkt = Inr (Inr node, s')" "que_rep s' (vs @ [?pkt])"
      using quem.enq_room by blast
    moreover obtain h q' where "s' = (h, q')" by (cases s')
    ultimately have "submit_event env n ch st = Inr (0, st\<lparr> st_heap := h, st_sqes := q' \<rparr>)"
        "queue_has (st\<lparr> st_heap := h, st_sqes := q' \<rparr>) (vs @ [?pkt])"
      using submit_event_busy [OF inv Nil raw l, of env] q len by (simp_all add: queue_has_def)
    with inv show ?thesis by (auto simp: threads_inv_def same_chans_def)
  next
    case False
    have "\<exists>e. que_enqueue ?s (sm_alloc env) ?pkt = Inr (Inl e, ?s)"
    proof (cases "length vs < que_cap ?s")
      case True
      then have "que_cnt (st_sqes st) < que_capacity (st_sqes st)"
        using que_inv_cnt [OF rep] by (simp add: que_cap_def word_less_nat_alt)
      with False True que_enqueue_nomem [of ?s] show ?thesis by (cases "sm_alloc env") auto
    qed (use que_enqueue_full [OF rep] in auto)
    then obtain e where "que_enqueue ?s (sm_alloc env) ?pkt = Inr (Inl e, ?s)" ..
    moreover have "st\<lparr> st_heap := st_heap st, st_sqes := st_sqes st \<rparr> = st" by simp
    ultimately have "submit_event env n ch st = Inr (- e, st)"
      using submit_event_busy [OF inv Nil raw l, of env] by simp
    with inv q show ?thesis by (auto simp: same_chans_def)
  qed
qed

section \<open>Client events\<close>

lemma chans_inv_put:
  assumes inv: "chans_inv st" and i: "i < length (st_chans st)"
    and ch: "ch_is_online ch = ch_is_online (st_chans st ! i)" "ch_fd ch = ch_fd (st_chans st ! i)"
      "ch_idx ch = ch_idx (st_chans st ! i)" "ch_src_ip ch = ch_src_ip (st_chans st ! i)"
      "length (ch_raw ch) = 24578" "ch_recv_s ch \<le> 24578"
  shows "chans_inv (put_chan i ch st)"
proof -
  have ok: "chan_ok (put_chan i ch st) j (st_chans (put_chan i ch st) ! j)" if "j < length (st_chans st)" for j
    using chans_invD [OF inv that] ch i by (cases "j = i") (auto simp: chan_ok_def)
  have on: "ch_is_online ((st_chans st)[i := ch] ! j) = ch_is_online (st_chans st ! j)"
      "ch_fd ((st_chans st)[i := ch] ! j) = ch_fd (st_chans st ! j)" for j
    using ch(1,2) i by (cases "j = i"; simp)+
  from inv ok show ?thesis unfolding chans_inv_def by (simp add: on)
qed

definition hdr_len :: "gwbot_chan \<Rightarrow> nat" where
  "hdr_len ch = unat (ntohs (load16 (ch_raw ch ! 0) (ch_raw ch ! 1)))"

lemma client_event3_inv:
  assumes inv: "chans_inv st" "threads_inv st" "queue_has st vs" and env: "submit_ok st env"
    and i: "i < length (st_chans st)" and r: "recv_s \<le> 24578"
    and hdr: "recv_s < 24578 \<or> hdr_len (st_chans st ! i) \<noteq> 24576"
  shows "\<exists>ret st' vs'. handle_client_event3 env recv_s i st = Inr (ret, st') \<and> chans_inv st' \<and> threads_inv st' \<and>
     queue_has st' vs' \<and> length (st_chans st') = length (st_chans st) \<and>
     ch_is_online (st_chans st' ! i) = ch_is_online (st_chans st ! i) \<and>
     ch_fd (st_chans st' ! i) = ch_fd (st_chans st ! i)"
proof -
  define ch where "ch = (st_chans st ! i)\<lparr> ch_recv_s := recv_s \<rparr>"
  define st1 where "st1 = put_chan i ch st"
  have raw: "length (ch_raw ch) = 24578" using chans_invD [OF inv(1) i] by (simp add: ch_def chan_ok_def)
  have inv1: "chans_inv st1" unfolding st1_def using raw r by (intro chans_inv_put [OF inv(1) i]) (simp_all add: ch_def)
  have work1: "threads_inv st1" "queue_has st1 vs" using inv(2,3) by (simp_all add: st1_def threads_inv_def queue_has_def)
  have st1: "length (st_chans st1) = length (st_chans st)" "st_chans st1 ! i = ch" using i by (simp_all add: st1_def)
  let ?n = "ntohs (load16 (ch_raw ch ! 0) (ch_raw ch ! 1))" and ?c = "of_nat (recv_s - 2) :: u16"
  have eq: "handle_client_event3 env recv_s i st =
      (if recv_s < 2 then Inr (0, st1) else if 24576 < unat ?n then Inr (- E2BIG, st1)
       else if ?c < ?n then Inr (0, st1) else if ?n < ?c then Inr (- EINVAL, st1)
       else ebind (buf_put (ch_raw ch) 0 (store16 ?n)) (\<lambda>raw.
            ebind (buf_set raw (2 + unat ?n) NUL) (\<lambda>raw.
            ebind (submit_event env ?n (ch\<lparr> ch_raw := raw \<rparr>) (put_chan i (ch\<lparr> ch_raw := raw \<rparr>) st1)) (\<lambda>(ret, st).
                  Inr (if ret \<noteq> 0 then ret else - EINPROGRESS, st)))))"
    using i by (simp add: handle_client_event3_def Let_def ch_def st1_def)
  show ?thesis
  proof (cases "recv_s < 2 \<or> 24576 < unat ?n \<or> ?c < ?n \<or> ?n < ?c")
    case True
    with inv1 work1 st1 show ?thesis unfolding eq by (auto simp: ch_def)
  next
    case False
    have "?c = ?n" using False by (metis linorder_less_linear)
    moreover have "unat ?c = recv_s - 2" using r by (intro unat_idx) simp
    ultimately have "unat ?n = recv_s - 2" by metis
    then have n: "unat ?n < 24576" using hdr False by (auto simp: hdr_len_def ch_def)
    then obtain raw where r: "ebind (buf_put (ch_raw ch) 0 (store16 ?n)) (\<lambda>raw. buf_set raw (2 + unat ?n) NUL) = Inr raw"
        "length raw = 24578"
      using raw by (simp add: buf_set_def)
    define st2 where "st2 = put_chan i (ch\<lparr> ch_raw := raw \<rparr>) st1"
    have inv2: "chans_inv st2" unfolding st2_def using st1 i r(2) \<open>recv_s \<le> 24578\<close>
      by (intro chans_inv_put [OF inv1]) (simp_all add: ch_def)
    have work2: "threads_inv st2" "queue_has st2 vs" "submit_ok st2 env"
      using work1 env
      by (simp_all add: st2_def st1_def threads_inv_def queue_has_def submit_ok_def split: sum.splits)
    obtain ret st' vs' where sub: "submit_event env ?n (ch\<lparr> ch_raw := raw \<rparr>) st2 = Inr (ret, st')"
        "threads_inv st'" "queue_has st' vs'" "same_chans st2 st'"
      using submit_event_inv [OF work2, of "ch\<lparr> ch_raw := raw \<rparr>" ?n] r(2) n by auto
    have "chans_inv st'" using inv2 sub(4) chans_inv_cong [of st' st2] by (simp add: same_chans_def)
    moreover have "st_chans st' = (st_chans st1)[i := ch\<lparr> ch_raw := raw \<rparr>]"
      using sub(4) by (simp add: same_chans_def st2_def)
    moreover have "handle_client_event3 env recv_s i st = Inr (if ret \<noteq> 0 then ret else - EINPROGRESS, st')"
      using False r(1) sub(1) unfolding eq by (auto simp: run_simps st2_def)
    ultimately show ?thesis using sub(2,3) st1 i by (auto simp: ch_def)
  qed
qed

text \<open>The bytes a channel has after a read, and the one packet that does not fit: it is complete and of maximal size.\<close>

definition received :: "gwbot_chan \<Rightarrow> bytes \<Rightarrow> bytes" where
  "received ch avail = take (ch_recv_s ch) (ch_raw ch) @ take (24578 - ch_recv_s ch) avail"

definition max_packet :: "gwbot_chan \<Rightarrow> bytes \<Rightarrow> bool" where
  "max_packet ch avail \<longleftrightarrow> take 2 (received ch avail) = net16 24576 \<and> length (received ch avail) = 24578"

lemma hdr_len_eq: "hdr_len ch = 256 * byte (ch_raw ch ! 0) + byte (ch_raw ch ! 1)"
proof -
  define a b where "a = ch_raw ch ! 0" and "b = ch_raw ch ! 1"
  let ?n = "256 * byte a + byte b :: nat"
  have n: "?n div 256 = byte a" "?n mod 256 = byte b" by simp_all
  have "byte a < 256" "byte b < 256" by (rule nat_of_char_less_256)+
  then have n0: "?n < 65536" by linarith
  have "ntohs (load16 a b) = of_nat ?n" using ntohs_load16 [OF n0] unfolding n by simp
  then have "unat (ntohs (load16 a b)) = ?n" using n0 unat_idx by metis
  then show ?thesis by (simp add: hdr_len_def a_def b_def)
qed

lemma max_packet_hdr:
  assumes "length (received ch avail) = 24578" and "ch_raw ch' = received ch avail @ rest" and "hdr_len ch' = 24576"
  shows "max_packet ch avail"
proof -
  have "2 \<le> length (received ch avail)" using assms(1) by simp
  then obtain a b bs where r: "received ch avail = a # b # bs"
    by (metis Suc_le_length_iff numeral_2_eq_2)
  have "256 * byte a + byte b = (24576 :: nat)" using assms(2,3) by (simp add: hdr_len_eq r)
  then have "byte a = (96 :: nat)" "byte b = (0 :: nat)"
    using nat_of_char_less_256 [of a] nat_of_char_less_256 [of b] by arith+
  then have "a = char_of (96 :: nat)" "b = char_of (0 :: nat)" by (metis char_of_char)+
  then show ?thesis using assms(1) by (simp add: max_packet_def r net16_def)
qed

text \<open>The read that completes such a packet.\<close>

definition client_overruns :: "gwbot_state \<Rightarrow> client_env \<Rightarrow> nat \<Rightarrow> u32 \<Rightarrow> bool" where
  "client_overruns st env i revents \<longleftrightarrow>
     revents AND err_mask = 0 \<and> ch_recv_s (st_chans st ! i) < 24578 \<and>
     (case cl_recv env of Inl _ \<Rightarrow> False | Inr avail \<Rightarrow> avail \<noteq> [] \<and> max_packet (st_chans st ! i) avail)"

lemma close_chan_inv:
  assumes "chans_inv st" and "threads_inv st" and "queue_has st vs" and "i < length (st_chans st)"
    and "ch_is_online (st_chans st ! i)" and "ch_fd (st_chans st ! i) = fd"
  shows "\<exists>st'. close_chan err fd i st = Inr (0, st') \<and> srv_inv st'"
proof -
  obtain stk where stk: "close_chan err fd i st = Inr (0, closed_state err fd i stk st)" "tss_wf stk"
      "tss_list stk = of_nat i # tss_list (st_chan_stk st)" "tss_cap stk = tss_cap (st_chan_stk st)"
    by (rule close_chan_eq [OF assms(1,4-6)])
  have "srv_inv (closed_state err fd i stk st)"
    using closed_state_inv [OF assms(1,4-6) stk(2-4)] same_work_inv [OF closed_state_simps(4)] assms(2,3)
    by (auto simp: srv_inv_def)
  with stk(1) show ?thesis by blast
qed

lemma client_event2_inv:
  assumes inv: "chans_inv st" "threads_inv st" "queue_has st vs" and env: "submit_ok st (cl_submit env)"
    and fits: "\<not> client_overruns st env i revents"
    and i: "i < length (st_chans st)" "ch_is_online (st_chans st ! i)" "ch_fd (st_chans st ! i) = fd"
  shows "\<exists>st'. handle_client_event2 env fd i revents st = Inr (0, st') \<and> srv_inv st'"
proof -
  define ch where "ch = st_chans st ! i"
  have ok: "length (ch_raw ch) = 24578" "ch_recv_s ch \<le> 24578" "ch_fd ch \<noteq> -1"
    using chans_invD [OF inv(1) i(1)] i(2) by (auto simp: chan_ok_def ch_def)
  note close = close_chan_inv [OF inv i, of "cl_epoll env"]
  show ?thesis
  proof (cases "cl_recv env")
    case (Inl err)
    with close inv i(1) show ?thesis
      by (auto simp: handle_client_event2_def Let_def srv_inv_def)
  next
    case (Inr avail)
    let ?got = "take (24578 - ch_recv_s ch) avail"
    show ?thesis
    proof (cases "revents AND 24 \<noteq> 0 \<or> ?got = []")
      case True
      with close Inr i(1) ok show ?thesis by (auto simp: handle_client_event2_def Let_def ch_def)
    next
      case False
      define raw where "raw = received ch avail @ drop (length (received ch avail)) (ch_raw ch)"
      have len: "length (received ch avail) = ch_recv_s ch + length ?got" "length (received ch avail) \<le> 24578"
        using ok by (auto simp: received_def)
      have put: "buf_put (ch_raw ch) (ch_recv_s ch) ?got = Inr raw"
        using ok len by (simp add: raw_def received_def)
      define st1 where "st1 = put_chan i (ch\<lparr> ch_raw := raw \<rparr>) st"
      have raw: "length raw = 24578" using ok len by (simp add: raw_def)
      have inv1: "chans_inv st1" unfolding st1_def
        using raw ok by (intro chans_inv_put [OF inv(1) i(1)]) (simp_all add: ch_def)
      have work1: "threads_inv st1" "queue_has st1 vs" "submit_ok st1 (cl_submit env)"
        using inv env by (simp_all add: st1_def threads_inv_def queue_has_def submit_ok_def split: sum.splits)
      have st1: "i < length (st_chans st1)" "st_chans st1 ! i = ch\<lparr> ch_raw := raw \<rparr>" using i by (simp_all add: st1_def)
      have hdr: "ch_recv_s ch + length ?got < 24578 \<or> hdr_len (st_chans st1 ! i) \<noteq> 24576"
        using max_packet_hdr [of ch avail "st_chans st1 ! i"] len fits False Inr st1 ok
        by (auto simp: client_overruns_def raw_def ch_def)
      have le: "ch_recv_s ch + length ?got \<le> 24578" using len by simp
      obtain ret st2 vs2 where st2: "handle_client_event3 (cl_submit env) (ch_recv_s ch + length ?got) i st1 = Inr (ret, st2)"
          "chans_inv st2" "threads_inv st2" "queue_has st2 vs2" "length (st_chans st2) = length (st_chans st1)"
          "ch_is_online (st_chans st2 ! i) = ch_is_online (st_chans st1 ! i)"
          "ch_fd (st_chans st2 ! i) = ch_fd (st_chans st1 ! i)"
        using client_event3_inv [OF inv1 work1 st1(1) le hdr] by blast
      have "handle_client_event2 env fd i revents st =
          (if ret < 0 then close_chan (cl_epoll env) fd i st2 else Inr (0, st2))"
        using False Inr put ok i(1) st2(1) by (simp add: handle_client_event2_def ch_def [symmetric] st1_def Let_def)
      moreover have "\<exists>st'. close_chan (cl_epoll env) fd i st2 = Inr (0, st') \<and> srv_inv st'"
        using st1 st2 i by (intro close_chan_inv [OF st2(2-4)]) (simp_all add: ch_def)
      ultimately show ?thesis using st2(2-4) by (auto simp: srv_inv_def)
    qed
  qed
qed

end
