(* ===== verification/Server_Loop.thy ===== *)
theory Server_Loop
  imports Server_Inv
begin

text \<open>
  The event loop, start and end of the server in \<open>core/server.c\<close>.  The loop is driven by a
  list of the answers that one round needs; it returns whether it has ended.
\<close>

section \<open>Sockets\<close>

definition handle_interrupt :: "int \<Rightarrow> gwbot_state \<Rightarrow> gwbot_state" where
  "handle_interrupt sig st = st\<lparr> st_intr_sig := sig, st_stop_el := True \<rparr>"

text \<open>The logger thread counts itself as online before the main thread goes on.\<close>

definition init_logger_thread :: "int \<Rightarrow> gwbot_state \<Rightarrow> int \<times> gwbot_state" where
  "init_logger_thread err st =
     (if err \<noteq> 0 then (neg_err err, st) else (0, st\<lparr> st_online_thread := st_online_thread st + 1 \<rparr>))"

definition init_epoll :: "int + int \<Rightarrow> gwbot_state \<Rightarrow> int \<times> gwbot_state" where
  "init_epoll ans st = (case ans of Inl err \<Rightarrow> (- err, st) | Inr fd \<Rightarrow> (0, st\<lparr> st_epl_fd := fd \<rparr>))"

text \<open>The answers are error numbers, 0 for success.\<close>

record sock_env =
  so_socket :: "int + int"
  so_reuseaddr :: int
  so_nodelay :: int
  so_bind :: int
  so_listen :: int
  so_epoll :: int

definition setup_socket :: "sock_env \<Rightarrow> int" where
  "setup_socket env =
     (if so_reuseaddr env \<noteq> 0 then - so_reuseaddr env
      else if so_nodelay env \<noteq> 0 then - so_nodelay env else 0)"

definition init_socket :: "sock_env \<Rightarrow> gwbot_state \<Rightarrow> int \<times> gwbot_state" where
  "init_socket env st =
     (case so_socket env of
        Inl err \<Rightarrow> (- err, st)
      | Inr tcp_fd \<Rightarrow>
          let (ret, st) =
            (if setup_socket env \<noteq> 0 then (setup_socket env, st)
             else if so_bind env \<noteq> 0 then (- so_bind env, st)
             else if so_listen env \<noteq> 0 then (- so_listen env, st)
             else let (ret, st) = epoll_add (so_epoll env) tcp_fd st
                  in if ret \<noteq> 0 then (ret, st) else (0, st\<lparr> st_tcp_fd := tcp_fd \<rparr>))
          in (ret, if ret \<noteq> 0 then emit (CloseFd tcp_fd) st else st))"

section \<open>The loop\<close>

record loop_env =
  le_signal :: "int option"
  le_spawn :: int
  le_time :: "int + int"
  le_epoll :: "int + epoll_event list"

fun run_event_loop :: "int \<Rightarrow> loop_env list \<Rightarrow> gwbot_state \<Rightarrow> (int \<times> bool \<times> gwbot_state) res" where
  "run_event_loop ret [] st = Inr (ret, False, st)"
| "run_event_loop ret (e # es) st0 =
     (let st = (case le_signal e of None \<Rightarrow> st0 | Some sig \<Rightarrow> handle_interrupt sig st0)
      in if st_stop_el st then Inr (ret, True, st)
         else
           ebind (if 0 < que_count (st_sqes st) then dispatch_sqe (le_spawn e) st else Inr st) (\<lambda>st.
           ebind (tss_count (st_chan_stk st)) (\<lambda>cnt.
           ebind (if cnt \<noteq> ts_capacity (st_chan_stk st)
                  then ebind (monitor_client_time (le_time e) st) (\<lambda>(_, st). Inr st) else Inr st) (\<lambda>st.
             case le_epoll e of
               Inl err \<Rightarrow> if err = EINTR then run_event_loop ret es st else Inr (ret, True, st)
             | Inr evs \<Rightarrow>
                 if evs = [] then run_event_loop ret es st
                 else ebind (handle_events evs st) (\<lambda>(ret, st).
                        if ret \<noteq> 0 \<and> ret \<noteq> - EAGAIN then run_event_loop ret es (st\<lparr> st_stop_el := True \<rparr>)
                        else run_event_loop ret es st)))))"

section \<open>The end\<close>

fun close_chans :: "nat list \<Rightarrow> gwbot_state \<Rightarrow> gwbot_state res" where
  "close_chans [] st = Inr st"
| "close_chans (i # is) st =
     ebind (chan_at st i) (\<lambda>ch.
       if \<not> ch_is_online ch then close_chans is st
       else close_chans is
              (put_chan i (reset_chan ch (ucast (ch_idx ch)))
                (emit (CloseFd (ch_fd ch)) (emit (ShutdownFd (ch_fd ch)) st))))"

definition close_fds :: "gwbot_state \<Rightarrow> gwbot_state res" where
  "close_fds st =
     (let st = (if st_tcp_fd st \<noteq> -1 then (emit (CloseFd (st_tcp_fd st)) st)\<lparr> st_tcp_fd := -1 \<rparr> else st);
          st = (if st_epl_fd st \<noteq> -1 then (emit (CloseFd (st_epl_fd st)) st)\<lparr> st_epl_fd := -1 \<rparr> else st)
      in close_chans [0..<thread_c st] st)"

text \<open>
  \<open>loads n\<close> is what the \<open>n\<close>-th load of \<open>online_thread\<close> sees.  The result is the number of
  rounds of the waiting loop.
\<close>

function wait_loop :: "(nat \<Rightarrow> u32) \<Rightarrow> nat \<Rightarrow> u32 \<Rightarrow> nat" where
  "wait_loop loads counter i =
     (if i = 0 then 0
      else if 300000 < counter then 1
      else 1 + wait_loop loads (counter + 1) (loads counter))"
  by auto
termination by (relation "measure (\<lambda>(loads, counter, i). 300001 - counter)") auto

declare wait_loop.simps [simp del]

definition wait_for_threads :: "(nat \<Rightarrow> u32) \<Rightarrow> nat" where
  "wait_for_threads loads = (if loads 0 = 0 then 0 else wait_loop loads 1 (loads 0))"

text \<open>The locks of the workers; the pointer to the array may be null.\<close>

fun destroy_threads :: "nat list \<Rightarrow> gwbot_state \<Rightarrow> gwbot_state res" where
  "destroy_threads [] st = Inr st"
| "destroy_threads (i # is) st =
     ebind (thread_at st i) (\<lambda>th.
       destroy_threads is (put_thread i
         (th\<lparr> th_ev_lock := snd (gw_mutex_destroy 0 (th_ev_lock th)),
              th_ev_cond := snd (gw_cond_destroy 0 (th_ev_cond th)) \<rparr>) st))"

definition destroy_state :: "gwbot_state \<Rightarrow> gwbot_state res" where
  "destroy_state st =
     ebind (close_fds (st\<lparr> st_stop_el := True \<rparr>)) (\<lambda>st.
       let st = emit ModShutdown st;
           st = st\<lparr> st_chan_stk := tss_destroy (st_chan_stk st), st_thread_stk := tss_destroy (st_thread_stk st) \<rparr>
       in ebind (que_destroy (st_heap st, st_sqes st)) (\<lambda>(h, q).
          ebind (que_destroy (h, st_cqes st)) (\<lambda>(h, q').
            let st = st\<lparr> st_heap := h, st_sqes := q, st_cqes := q',
                         st_log_lock := snd (gw_mutex_destroy 0 (st_log_lock st)),
                         st_sqe_lock := snd (gw_mutex_destroy 0 (st_sqe_lock st)),
                         st_cqe_lock := snd (gw_mutex_destroy 0 (st_cqe_lock st)),
                         st_thread_stk_lock := snd (gw_mutex_destroy 0 (st_thread_stk_lock st)),
                         st_log_cond := snd (gw_cond_destroy 0 (st_log_cond st)) \<rparr>
            in ebind (destroy_threads [0..<thread_c st] st) (\<lambda>st.
                 let st = emit GlobalDestroy (st\<lparr> st_epl_map := [], st_threads := [], st_chans := [] \<rparr>)
                 in Inr (if cfg_use_db (st_cfg st) then emit MysqlEnd st else st)))))"

text \<open>
  \<open>gwbot_run\<close> for a run whose loop ends within the given rounds; \<open>None\<close> stands for a loop
  that is still running.  \<open>startup\<close> is what \<open>gwbot_module_startup\<close> returns.
\<close>

record run_env =
  re_malloc :: bool
  re_init :: init_env
  re_logger :: int
  re_epoll :: "int + int"
  re_startup :: int
  re_sock :: sock_env
  re_loop :: "loop_env list"

definition gwbot_run :: "run_env \<Rightarrow> arena \<Rightarrow> gwbot_cfg \<Rightarrow> (int \<times> gwbot_state) option res" where
  "gwbot_run env a cfg =
     (let st0 = state_zero cfg in
      if \<not> re_malloc env then Inr (Some (- ENOMEM, st0))
      else if validate_cfg a cfg \<noteq> 0 then Inr (Some (validate_cfg a cfg, st0))
      else
        ebind (init_state (re_init env) st0) (\<lambda>r.
          let (ret, st) = and_then r (\<lambda>st.
                          and_then (init_logger_thread (re_logger env) st) (\<lambda>st.
                          and_then (init_epoll (re_epoll env) st) (\<lambda>st.
                          and_then (re_startup env, st) (\<lambda>st. init_socket (re_sock env) st))))
          in if ret \<noteq> 0 then ebind (destroy_state st) (\<lambda>st. Inr (Some (ret, st)))
             else ebind (run_event_loop 0 (re_loop env) st) (\<lambda>(ret, ended, st).
                    if \<not> ended then Inr None
                    else ebind (destroy_state st) (\<lambda>st. Inr (Some (ret, st))))))"

end
