(* ===== verification/Server.thy ===== *)
theory Server
  imports Server_Loop
begin

text \<open>
  The properties of the server: a client's packet reaches a worker or the queue whatever
  the pieces it arrives in, every event keeps the invariants, malformed packets close the
  connection and touch nothing else, queued packets are dispatched oldest first, and the
  places where the code leaves its arrays or loses a channel slot.
\<close>

section \<open>From pieces to an event\<close>

lemma partial_chan_0: "ch_recv_s ch = 0 \<Longrightarrow> partial_chan ch pkt 0 = ch"
  by (simp add: partial_chan_def)

lemma put_same_chan: "i < length (st_chans st) \<Longrightarrow> put_chan i (st_chans st ! i) st = st"
  by (simp add: put_chan_def)

lemma full_chan_raw:
  assumes "length data < 24576" and "length (ch_raw ch) = 24578"
  shows "length (ch_raw (full_chan ch data)) = 24578"
    "take (2 + length data) (ch_raw (full_chan ch data)) = store16 (of_nat (length data)) @ data"
  using assms by (simp_all add: full_chan_def)

lemma readable: "(1 :: u32) AND 24 = 0"
  by simp

text \<open>
  The whole exchange with a client: the pieces are put together, the packet is submitted
  once and the channel is closed, in a state that satisfies the invariants.
\<close>

lemma registered_chan:
  assumes inv: "srv_inv st" and fd: "epl_map_at st fd = Inr m" "m \<noteq> 0" and i: "i = unat m - 1"
  shows "i < length (st_chans st)" "ch_fd (st_chans st ! i) = fd" "ch_is_online (st_chans st ! i)"
    "m = of_nat (i + 1)" "i + 1 < 65535" "length (ch_raw (st_chans st ! i)) = 24578" "fd \<noteq> -1"
proof -
  have ci: "chans_inv st" using inv by (simp add: srv_inv_def)
  obtain k where k: "k < length (st_chans st)" "m = of_nat (k + 1)" "k + 1 < 65535"
      "ch_is_online (st_chans st ! k)" "ch_fd (st_chans st ! k) = fd"
    by (rule epl_map_chan [OF ci fd])
  have "unat m = k + 1" unfolding k(2) using k(3) by (intro unat_idx) simp
  then have "i = k" using i by simp
  with k show "i < length (st_chans st)" "ch_fd (st_chans st ! i) = fd" "ch_is_online (st_chans st ! i)"
      "m = of_nat (i + 1)" "i + 1 < 65535" by simp_all
  then show "length (ch_raw (st_chans st ! i)) = 24578" "fd \<noteq> -1"
    using chans_invD [OF ci, of i] by (auto simp: chan_ok_def)
qed

lemma exchange:
  assumes inv: "srv_inv st" and fd: "epl_map_at st fd = Inr m" "m \<noteq> 0" and i: "i = unat m - 1"
    and new: "ch_recv_s (st_chans st ! i) = 0" and env: "errno_env (cl_submit env)"
    and data: "length data < 24576" "concat cs = net16 (length data) @ data" "[] \<notin> set cs"
    and full: "ch = full_chan (st_chans st ! i) data"
  shows "recv_chunks env fd st cs =
       ebind (submit_event (cl_submit env) (of_nat (length data)) ch (put_chan i ch st))
         (\<lambda>(_, st). close_chan (cl_epoll env) fd i st)"
    "chans_inv (put_chan i ch st)" "threads_inv (put_chan i ch st)"
proof -
  have ci: "chans_inv st" and ti: "threads_inv st" using inv by (auto simp: srv_inv_def)
  note reg = registered_chan [OF inv fd i]
  have on: "ch_fd (st_chans st ! i) \<noteq> -1" using reg by simp
  have at: "epl_map_at st fd = Inr (of_nat (i + 1))" using fd(1) reg(4) by (simp only:)
  have "put_chan i (partial_chan (st_chans st ! i) (net16 (length data) @ data) 0) st = st"
    using new reg(1) by (simp add: partial_chan_0 put_same_chan)
  with recv_chunks_partial [OF data(1) refl reg(1,6) on at reg(5) env, of cs 0] data(2,3)
  show "recv_chunks env fd st cs =
       ebind (submit_event (cl_submit env) (of_nat (length data)) ch (put_chan i ch st))
         (\<lambda>(_, st). close_chan (cl_epoll env) fd i st)"
    unfolding full by simp
  show "chans_inv (put_chan i ch st)"
    unfolding full using data(1) full_chan_raw(1) [OF data(1) reg(6)]
    by (intro chans_inv_put [OF ci reg(1)]) (simp_all add: full_chan_def)
  show "threads_inv (put_chan i ch st)" using ti by (simp add: threads_inv_def)
qed

lemma client_event_route:
  assumes inv: "srv_inv st" and fd: "epl_map_at st fd = Inr m" "m \<noteq> 0" and i: "i = unat m - 1"
  shows "handle_client_event env fd revents st = handle_client_event2 env fd i revents st"
proof -
  note reg = registered_chan [OF inv fd i]
  have "unat (m - of_nat 1) = i" unfolding reg(4) by (rule idx_plus_one(2) [OF reg(5)])
  with fd show ?thesis by (simp add: handle_client_event_def)
qed

text \<open>One read that does not end the stream, up to the decision of \<open>handle_client_event3\<close>.\<close>

lemma client_event_read:
  assumes inv: "srv_inv st" and fd: "epl_map_at st fd = Inr m" "m \<noteq> 0" and i: "i = unat m - 1"
    and recv: "cl_recv env = Inr avail" "avail \<noteq> []" "ch_recv_s (st_chans st ! i) < 24578" and noerr: "revents AND 24 = 0"
    and ch: "ch = (st_chans st ! i)\<lparr> ch_raw := received (st_chans st ! i) avail @
               drop (length (received (st_chans st ! i) avail)) (ch_raw (st_chans st ! i)) \<rparr>"
  shows "handle_client_event env fd revents st =
    ebind (handle_client_event3 (cl_submit env) (length (received (st_chans st ! i) avail)) i (put_chan i ch st))
      (\<lambda>(ret, st). if ret < 0 then close_chan (cl_epoll env) fd i st else Inr (0, st))"
proof -
  note reg = registered_chan [OF inv fd i]
  let ?c = "st_chans st ! i"
  let ?got = "take (24578 - ch_recv_s ?c) avail"
  have len: "length (received ?c avail) = ch_recv_s ?c + length ?got"
    using reg(6) recv(3) by (simp add: received_def)
  have put: "buf_put (ch_raw ?c) (ch_recv_s ?c) ?got = Inr (ch_raw ch)"
    using reg(6) recv(3) unfolding ch by (simp add: received_def)
  have ch': "ch = ?c\<lparr> ch_raw := ch_raw ch \<rparr>" by (simp add: ch)
  have "?got \<noteq> []" using recv by simp
  with put reg recv(1,3) noerr len show ?thesis
    unfolding client_event_route [OF inv fd i] by (subst ch') (simp add: handle_client_event2_def Let_def)
qed

text \<open>A state with one connection, on descriptor 5, and one idle worker.\<close>

definition demo_state :: gwbot_state where
  "demo_state = (state_zero cfg_zero)\<lparr> st_tcp_fd := 3, st_epl_fd := 4,
     st_epl_map := (replicate 65535 0)[5 := 1],
     st_chans := [chan_zero\<lparr> ch_is_online := True, ch_fd := 5 \<rparr>],
     st_threads := [thread_zero\<lparr> th_ev_lock := \<lparr> need_destroy = True \<rparr>, th_ev_cond := \<lparr> need_destroy = True \<rparr> \<rparr>],
     st_chan_stk := \<lparr> ts_sp = 1, ts_capacity = 1, ts_arr = [0] \<rparr>,
     st_thread_stk := \<lparr> ts_sp = 0, ts_capacity = 1, ts_arr = [0] \<rparr>,
     st_thread_stk_lock := \<lparr> need_destroy = True \<rparr>,
     st_sqes := que_init (st_sqes (state_zero cfg_zero)) 100000 \<rparr>"

definition demo_client :: client_env where
  "demo_client = \<lparr> cl_recv = Inl 11, cl_epoll = 0, cl_submit = \<lparr> sm_alloc = Inr 7, sm_spawn = 0 \<rparr> \<rparr>"

lemma demo_simps:
  "length (st_chans demo_state) = 1" "length (st_threads demo_state) = 1"
  "st_chans demo_state ! 0 = chan_zero\<lparr> ch_is_online := True, ch_fd := 5 \<rparr>"
  "tss_list (st_chan_stk demo_state) = []" "tss_list (st_thread_stk demo_state) = [0]"
  "epl_map_at demo_state 5 = Inr 1" "errno_env (cl_submit demo_client)"
  by (simp_all add: demo_state_def tss_list_def epl_map_at_def errno_env_def demo_client_def)

lemma demo_bytes: "net16 (length ''{}'') = [CHR 0x00, CHR 0x02]"
    "store16 (of_nat (length ''{}'')) = [CHR 0x02, CHR 0x00]"
  by code_simp+

lemma demo_map:
  "length (st_epl_map demo_state) = 65535" "st_epl_map demo_state ! 5 = 1"
  "f < 65535 \<Longrightarrow> st_epl_map demo_state ! f \<noteq> 0 \<Longrightarrow> f = 5"
  "tss_wf (st_chan_stk demo_state)" "tss_cap (st_chan_stk demo_state) = 1"
  by (auto simp: demo_state_def tss_wf_def tss_cap_def nth_list_update split: if_splits)

lemma demo_inv: "srv_inv demo_state"
proof -
  have "chan_ok demo_state 0 (st_chans demo_state ! 0)"
    by (simp add: chan_ok_def demo_simps) (simp add: chan_zero_def)
  then have "\<forall>i < length (st_chans demo_state). chan_ok demo_state i (st_chans demo_state ! i)"
    by (simp add: demo_simps)
  moreover have "\<forall>f < 65535. st_epl_map demo_state ! f \<noteq> 0 \<longrightarrow>
      (\<exists>i < length (st_chans demo_state). st_epl_map demo_state ! f = of_nat (i + 1) \<and> i + 1 < 65535 \<and>
         ch_is_online (st_chans demo_state ! i) \<and> ch_fd (st_chans demo_state ! i) = int f)"
  proof (intro allI impI)
    fix f assume "f < 65535" "st_epl_map demo_state ! f \<noteq> 0"
    then have "f = 5" by (rule demo_map(3))
    then show "\<exists>i < length (st_chans demo_state). st_epl_map demo_state ! f = of_nat (i + 1) \<and> i + 1 < 65535 \<and>
         ch_is_online (st_chans demo_state ! i) \<and> ch_fd (st_chans demo_state ! i) = int f"
      by (intro exI [of _ 0]) (simp add: demo_map demo_simps)
  qed
  ultimately have "chans_inv demo_state"
    unfolding chans_inv_def using demo_map(1,4,5) demo_simps(1,4) by simp
  moreover have "threads_inv demo_state"
    by (simp add: threads_inv_def demo_state_def tss_list_def tss_wf_def thread_zero_def)
  moreover have "queue_has demo_state []"
    using que_rep_init by (simp add: queue_has_def demo_state_def)
  ultimately show ?thesis by (auto simp: srv_inv_def)
qed

lemma packet_delivered:
  assumes inv: "srv_inv st" and fd: "epl_map_at st fd = Inr m" "m \<noteq> 0"
    and new: "ch_recv_s (st_chans st ! (unat m - 1)) = 0"
    and env: "errno_env (cl_submit env)"
    and data: "length data < 24576" "concat cs = net16 (length data) @ data" "[] \<notin> set cs"
    and idle: "tss_list (st_thread_stk st) = w # ws"
  shows "\<exists>st'. recv_chunks env fd st cs = Inr (0, st') \<and> chans_inv st' \<and>
     th_has_event (st_threads st' ! unat w) \<and> \<not> th_from_sqe (st_threads st' ! unat w) \<and>
     take (3 + length data) (th_raw (st_threads st' ! unat w)) = store16 (of_nat (length data)) @ data @ [NUL] \<and>
     tss_list (st_thread_stk st') = ws \<and> epl_map_at st' fd = Inr 0 \<and> CloseFd fd \<in> set (st_sys st') \<and>
     tss_list (st_chan_stk st') = of_nat (unat m - 1) # tss_list (st_chan_stk st)"
proof -
  define i ch where "i = unat m - 1" and "ch = full_chan (st_chans st ! i) data"
  note reg = registered_chan [OF inv fd i_def]
  note ex = exchange [OF inv fd i_def new [folded i_def] env data ch_def]
  let ?n = "of_nat (length data) :: u16" and ?st = "put_chan i ch st"
  let ?pkt = "store16 (of_nat (length data)) @ data"
  have n: "unat ?n = length data" using data(1) by (intro unat_idx) simp
  have top: "tss_list (st_thread_stk ?st) = w # ws" using idle by simp
  note raw = full_chan_raw [OF data(1) reg(6), folded ch_def]
  let ?th = "loaded (st_threads st ! unat w) ?pkt"
  obtain stk where stk: "submit_event (cl_submit env) ?n ch ?st =
      Inr (woken (sm_spawn (cl_submit env)) (unat w) ?th (put_thread (unat w) ?th (?st\<lparr> st_thread_stk := stk \<rparr>)))"
      "tss_wf stk" "tss_list stk = ws"
    using submit_event_idle [OF ex(3) top raw(1), of ?n "cl_submit env"] n data(1) raw(2)
    by (auto simp: Let_def)
  define st2 where "st2 = snd (woken (sm_spawn (cl_submit env)) (unat w) ?th (put_thread (unat w) ?th (?st\<lparr> st_thread_stk := stk \<rparr>)))"
  have st2: "st_chans st2 = (st_chans st)[i := ch]" "st_epl_map st2 = st_epl_map st"
      "st_chan_stk st2 = st_chan_stk st" "st_thread_stk st2 = stk" "st_threads st2 = (st_threads st)[unat w := ?th]"
    by (simp_all add: st2_def)
  have inv2: "chans_inv st2" using ex(2) chans_inv_cong [of st2 ?st] st2 by simp
  have on2: "i < length (st_chans st2)" "ch_is_online (st_chans st2 ! i)" "ch_fd (st_chans st2 ! i) = fd"
    using reg st2(1) by (simp_all add: ch_def full_chan_def)
  obtain cs' where cl: "close_chan (cl_epoll env) fd i st2 = Inr (0, closed_state (cl_epoll env) fd i cs' st2)"
      "tss_wf cs'" "tss_list cs' = of_nat i # tss_list (st_chan_stk st2)" "tss_cap cs' = tss_cap (st_chan_stk st2)"
    by (rule close_chan_eq [OF inv2 on2])
  let ?fin = "closed_state (cl_epoll env) fd i cs' st2"
  have run: "recv_chunks env fd st cs = Inr (0, ?fin)"
    using ex(1) stk(1) cl(1) by (simp add: st2_def split_def)
  have w: "unat w < length (st_threads st)" "length (th_raw (st_threads st ! unat w)) = 24578"
    using inv idle by (auto simp: srv_inv_def threads_inv_def)
  have work: "st_threads ?fin = st_threads st2" "st_thread_stk ?fin = st_thread_stk st2"
    using closed_state_simps(4) [of st2] by (simp_all add: same_work_def)
  have "epl_map_at ?fin fd = Inr 0"
    using fd(1) st2(2) by (auto simp: epl_map_at_def split: if_splits)
  moreover have "chans_inv ?fin" by (rule closed_state_inv [OF inv2 on2 cl(2-4)])
  ultimately show ?thesis
    using run work st2 stk(3) cl(3) w data(1) by (simp add: loaded_def i_def)
qed

section \<open>Properties\<close>

text \<open>
  C2. A packet reaches a worker: a client on a registered, fresh connection sends a packet
  of less than the maximal size in any pieces while a worker is idle.  Then no fault occurs,
  the worker on top of the stack gets exactly the packet, with its length in host order and
  a null byte behind the data, and leaves the stack; the connection is closed and its slot
  is free again.
\<close>

theorem packet_to_worker:
  assumes inv: "srv_inv st" and fd: "epl_map_at st fd = Inr m" "m \<noteq> 0"
    and new: "ch_recv_s (st_chans st ! (unat m - 1)) = 0"
    and env: "errno_env (cl_submit env)"
    and data: "length data < 24576" "concat cs = net16 (length data) @ data" "[] \<notin> set cs"
    and idle: "tss_list (st_thread_stk st) = w # ws"
  shows "\<exists>st'. recv_chunks env fd st cs = Inr (0, st') \<and> chans_inv st' \<and>
     th_has_event (st_threads st' ! unat w) \<and> \<not> th_from_sqe (st_threads st' ! unat w) \<and>
     take (3 + length data) (th_raw (st_threads st' ! unat w)) = store16 (of_nat (length data)) @ data @ [NUL] \<and>
     tss_list (st_thread_stk st') = ws \<and> epl_map_at st' fd = Inr 0 \<and> CloseFd fd \<in> set (st_sys st') \<and>
     tss_list (st_chan_stk st') = of_nat (unat m - 1) # tss_list (st_chan_stk st)"
  by (rule packet_delivered [OF assms])

theorem packet_to_worker_witness:
  "\<exists>st'. recv_chunks demo_client 5 demo_state [[CHR 0x00], [CHR 0x02, CHR ''{''], ''}''] = Inr (0, st') \<and>
     th_has_event (st_threads st' ! 0) \<and>
     take 5 (th_raw (st_threads st' ! 0)) = [CHR 0x02, CHR 0x00, CHR ''{'', CHR ''}'', NUL] \<and>
     tss_list (st_thread_stk st') = [] \<and> epl_map_at st' 5 = Inr 0"
  using packet_to_worker [OF demo_inv demo_simps(6) _ _ demo_simps(7), where data = "''{}''"
      and cs = "[[CHR 0x00], [CHR 0x02, CHR ''{''], ''}'']" and w = 0 and ws = "[]"]
  unfolding demo_bytes by (simp add: demo_simps chan_zero_def) blast

text \<open>
  C21. A packet that finds no idle worker is queued: in the situation of the previous
  property but with every worker busy, room in the submission queue and memory for a node,
  the packet is appended to the queue, and the connection is closed all the same.
\<close>

theorem packet_to_queue:
  assumes inv: "srv_inv st" and fd: "epl_map_at st fd = Inr m" "m \<noteq> 0"
    and new: "ch_recv_s (st_chans st ! (unat m - 1)) = 0"
    and env: "sm_alloc (cl_submit env) = Inr a" "a |\<notin>| fmdom (st_heap st)"
    and data: "length data < 24576" "concat cs = net16 (length data) @ data" "[] \<notin> set cs"
    and busy: "tss_list (st_thread_stk st) = []"
    and room: "queue_has st vs" "length vs < que_cap (st_heap st, st_sqes st)"
  shows "\<exists>st'. recv_chunks env fd st cs = Inr (0, st') \<and> srv_inv st' \<and>
     queue_has st' (vs @ [store16 (of_nat (length data)) @ data]) \<and>
     st_threads st' = st_threads st \<and> epl_map_at st' fd = Inr 0 \<and> CloseFd fd \<in> set (st_sys st')"
proof -
  define i ch where "i = unat m - 1" and "ch = full_chan (st_chans st ! i) data"
  have errno: "errno_env (cl_submit env)" using env(1) by (simp add: errno_env_def)
  note reg = registered_chan [OF inv fd i_def]
  note ex = exchange [OF inv fd i_def new [folded i_def] errno data ch_def]
  note raw = full_chan_raw [OF data(1) reg(6), folded ch_def]
  let ?n = "of_nat (length data) :: u16" and ?st = "put_chan i ch st"
  let ?pkt = "store16 (of_nat (length data)) @ data" and ?q = "(st_heap st, st_sqes st)"
  have n: "unat ?n = length data" using data(1) by (intro unat_idx) simp
  have rep: "que_rep ?q vs" and fresh: "que_fresh ?q (Inr a)"
    using room(1) env(2) by (auto simp: queue_has_def que_fresh_def)
  obtain node h q where enq: "que_enqueue ?q (Inr a) ?pkt = Inr (Inr node, (h, q))" "que_rep (h, q) (vs @ [?pkt])"
    using quem.enq_room [OF rep room(2) fresh, of ?pkt] by auto
  define st2 where "st2 = ?st\<lparr> st_heap := h, st_sqes := q \<rparr>"
  have empty: "tss_list (st_thread_stk ?st) = []" using busy by simp
  have sub: "submit_event (cl_submit env) ?n ch ?st = Inr (0, st2)"
    using submit_event_busy [OF ex(3) empty raw(1), of ?n "cl_submit env"] n data(1) raw(2) enq(1) env(1)
    by (simp add: st2_def)
  have inv2: "chans_inv st2" "threads_inv st2"
    using ex(2,3) chans_inv_cong [of st2 ?st] threads_inv_cong [of st2 ?st] by (simp_all add: st2_def)
  have q2: "queue_has st2 (vs @ [?pkt])" using enq(2) room(1) by (simp add: queue_has_def st2_def)
  have on2: "i < length (st_chans st2)" "ch_is_online (st_chans st2 ! i)" "ch_fd (st_chans st2 ! i) = fd"
    using reg by (simp_all add: st2_def ch_def full_chan_def)
  obtain stk where cl: "close_chan (cl_epoll env) fd i st2 = Inr (0, closed_state (cl_epoll env) fd i stk st2)"
      "tss_wf stk" "tss_list stk = of_nat i # tss_list (st_chan_stk st2)" "tss_cap stk = tss_cap (st_chan_stk st2)"
    by (rule close_chan_eq [OF inv2(1) on2])
  let ?fin = "closed_state (cl_epoll env) fd i stk st2"
  have "recv_chunks env fd st cs = Inr (0, ?fin)" using ex(1) sub cl(1) by simp
  moreover have "epl_map_at ?fin fd = Inr 0"
    using fd(1) by (auto simp: epl_map_at_def st2_def split: if_splits)
  moreover have work: "queue_has ?fin (vs @ [?pkt])" "threads_inv ?fin" "st_threads ?fin = st_threads st"
    using same_work_inv [OF closed_state_simps(4)] q2 inv2(2) closed_state_simps(4) [of st2]
    by (auto simp: same_work_def st2_def)
  moreover have "srv_inv ?fin"
    using closed_state_inv [OF inv2(1) on2 cl(2-4)] work(1,2) by (auto simp: srv_inv_def)
  ultimately show ?thesis by auto
qed

text \<open>The state with its one worker busy.\<close>

definition busy_state :: gwbot_state where
  "busy_state = demo_state\<lparr> st_thread_stk := \<lparr> ts_sp = 1, ts_capacity = 1, ts_arr = [0] \<rparr> \<rparr>"

lemma busy_simps:
  "st_chans busy_state = st_chans demo_state" "epl_map_at busy_state 5 = Inr 1" "tss_list (st_thread_stk busy_state) = []"
  "st_heap busy_state = fmempty" "que_cap (fmempty, st_sqes busy_state) = 100000"
  using demo_simps(6)
  by (simp_all add: busy_state_def epl_map_at_def tss_list_def demo_state_def state_zero_def que_cap_def que_init_def)

lemma busy_queue: "queue_has busy_state []"
  using que_rep_init by (simp add: queue_has_def busy_state_def demo_state_def)

lemma busy_inv: "srv_inv busy_state"
proof -
  have "chans_inv busy_state" "threads_inv busy_state"
    using demo_inv chans_inv_cong [of busy_state demo_state]
    by (simp_all add: busy_state_def srv_inv_def threads_inv_def tss_list_def tss_wf_def)
  with busy_queue show ?thesis by (auto simp: srv_inv_def)
qed

theorem packet_to_queue_witness:
  "\<exists>st'. recv_chunks demo_client 5 busy_state [[CHR 0x00, CHR 0x02], ''{}''] = Inr (0, st') \<and>
     queue_has st' [[CHR 0x02, CHR 0x00, CHR ''{'', CHR ''}'']]"
  using packet_to_queue [OF busy_inv busy_simps(2), where data = "''{}''" and a = 7 and vs = "[]" and env = demo_client
      and cs = "[[CHR 0x00, CHR 0x02], ''{}'']"]
  unfolding demo_bytes by (auto simp: busy_simps busy_queue demo_simps chan_zero_def demo_client_def)

text \<open>The two events at which an array is left.\<close>

definition event_overruns :: "epoll_event \<Rightarrow> gwbot_state \<Rightarrow> bool" where
  "event_overruns ev st \<longleftrightarrow>
     (if ee_fd ev = st_tcp_fd st then ee_events ev AND err_mask = 0 \<and> accept_overruns st (ee_accept ev)
      else case epl_map_at st (ee_fd ev) of
             Inl _ \<Rightarrow> False
           | Inr m \<Rightarrow> client_overruns st (ee_client ev) (unat m - 1) (ee_events ev))"

lemma max_packet_written:
  assumes inv: "srv_inv st" and fd: "epl_map_at st fd = Inr m" "m \<noteq> 0" and i: "i = unat m - 1"
    and over: "client_overruns st env i revents"
  shows "handle_client_event env fd revents st = Inl OutOfBounds"
proof -
  obtain avail where recv: "cl_recv env = Inr avail" "avail \<noteq> []" "ch_recv_s (st_chans st ! i) < 24578" "revents AND 24 = 0"
      and pkt: "take 2 (received (st_chans st ! i) avail) = net16 24576" "length (received (st_chans st ! i) avail) = 24578"
    using over by (auto simp: client_overruns_def max_packet_def split: sum.splits)
  note reg = registered_chan [OF inv fd i]
  define ch where "ch = (st_chans st ! i)\<lparr> ch_raw := received (st_chans st ! i) avail @
    drop (length (received (st_chans st ! i) avail)) (ch_raw (st_chans st ! i)) \<rparr>"
  have raw: "ch_raw ch = net16 24576 @ drop 2 (received (st_chans st ! i) avail)"
    using pkt reg(6) append_take_drop_id [of 2 "received (st_chans st ! i) avail"] by (simp add: ch_def)
  have n: "ntohs (load16 (ch_raw ch ! 0) (ch_raw ch ! 1)) = of_nat 24576"
    using ntohs_load16 [of 24576] by (simp add: raw net16_def)
  have "handle_client_event3 (cl_submit env) 24578 i (put_chan i ch st) = Inl OutOfBounds"
    using reg(1) n raw pkt(2) by (simp add: handle_client_event3_def Let_def buf_set_def)
  then show ?thesis
    unfolding client_event_read [OF inv fd i recv ch_def] pkt(2) by simp
qed

text \<open>
  C3. Which events are safe, exactly.  The hypotheses are the invariants, that \<open>accept\<close> does not
  return the descriptor of an open connection, and that the allocator returns free memory.  Then
  an event of the listening socket or of a registered descriptor is handled without a fault, the
  invariants hold afterwards and a client's event does not stop the loop, with two exceptions, in
  each of which an array is overrun: a connection is accepted on a descriptor of 65535 or more,
  for which \<open>epl_map\<close> has no place, and a read completes a packet of exactly the maximal size
  0x6000.
\<close>

theorem handle_event_safe:
  assumes inv: "srv_inv st"
    and ev: "if ee_fd ev = st_tcp_fd st then accept_ok st (ee_accept ev)
             else (\<exists>m. epl_map_at st (ee_fd ev) = Inr m \<and> m \<noteq> 0) \<and> submit_ok st (cl_submit (ee_client ev))"
  shows "if event_overruns ev st then handle_event ev st = Inl OutOfBounds
         else \<exists>ret st'. handle_event ev st = Inr (ret, st') \<and> srv_inv st' \<and> (ee_fd ev \<noteq> st_tcp_fd st \<longrightarrow> ret = 0)"
proof -
  obtain vs where parts: "chans_inv st" "threads_inv st" "queue_has st vs" using inv by (auto simp: srv_inv_def)
  show ?thesis
  proof (cases "ee_fd ev = st_tcp_fd st")
    case True
    then have ok: "accept_ok st (ee_accept ev)" using ev by simp
    show ?thesis
    proof (cases "accept_overruns st (ee_accept ev)")
      case over: True
      then show ?thesis using True run_acceptor_overrun [OF parts(1) over] inv
        by (simp add: handle_event_def handle_tcp_event_def event_overruns_def)
    next
      case False
      obtain ret st' where "run_acceptor (ee_accept ev) st = Inr (ret, st')" "chans_inv st'" "same_work st st'"
        using run_acceptor_inv [OF parts(1) ok False] by auto
      moreover from this have "srv_inv st'" using parts same_work_inv by (auto simp: srv_inv_def)
      ultimately show ?thesis using True False inv by (auto simp: handle_event_def handle_tcp_event_def event_overruns_def)
    qed
  next
    case False
    then obtain m where m: "epl_map_at st (ee_fd ev) = Inr m" "m \<noteq> 0" and sub: "submit_ok st (cl_submit (ee_client ev))"
      using ev by auto
    note reg = registered_chan [OF inv m refl]
    have "\<exists>st'. handle_client_event2 (ee_client ev) (ee_fd ev) (unat m - 1) (ee_events ev) st = Inr (0, st') \<and> srv_inv st'"
      if "\<not> client_overruns st (ee_client ev) (unat m - 1) (ee_events ev)"
      using client_event2_inv [OF parts sub that reg(1,3,2)] by simp
    with False m max_packet_written [OF inv m refl] client_event_route [OF inv m refl]
    show ?thesis by (auto simp: handle_event_def event_overruns_def)
  qed
qed

text \<open>An event on the connection of the example state: one byte of a packet.\<close>

definition demo_event :: epoll_event where
  "demo_event = \<lparr> ee_fd = 5, ee_events = 1,
     ee_accept = \<lparr> ac_accept = Inl 11, ac_addr = \<lparr> sin_port = 0, sin_addr = (NUL, NUL, NUL, NUL) \<rparr>, ac_addr_len = 16,
       ac_time = Inr 0, ac_epoll = 0 \<rparr>, ee_client = demo_client\<lparr> cl_recv := Inr [CHR 0x00] \<rparr> \<rparr>"

text \<open>The same connection when the last byte of a maximal packet arrives.\<close>

definition last_byte_event :: epoll_event where
  "last_byte_event = demo_event\<lparr> ee_client := demo_client\<lparr> cl_recv := Inr (net16 24576 @ replicate 24576 CHR ''x'') \<rparr> \<rparr>"

theorem handle_event_safe_witness:
  "(\<exists>ret st'. handle_event demo_event demo_state = Inr (ret, st') \<and> srv_inv st') \<and>
   handle_event last_byte_event demo_state = Inl OutOfBounds"
proof -
  have fd: "ee_fd demo_event = 5" "ee_fd last_byte_event = 5" "st_tcp_fd demo_state = 3"
    by (simp_all add: demo_event_def last_byte_event_def) (simp add: demo_state_def)
  have sub: "submit_ok demo_state (cl_submit (ee_client demo_event))" "submit_ok demo_state (cl_submit (ee_client last_byte_event))"
    by (simp_all add: submit_ok_def demo_event_def last_byte_event_def demo_client_def errno_env_def)
      (simp_all add: demo_state_def state_zero_def)
  have "\<not> event_overruns demo_event demo_state"
    using fd by (simp add: event_overruns_def demo_simps(6))
      (simp add: client_overruns_def demo_simps demo_event_def max_packet_def received_def chan_zero_def)
  moreover have "event_overruns last_byte_event demo_state"
    using fd by (simp add: event_overruns_def demo_simps(6))
      (simp add: client_overruns_def demo_simps demo_event_def last_byte_event_def max_packet_def received_def chan_zero_def)
  ultimately show ?thesis
    using handle_event_safe [OF demo_inv, of demo_event] handle_event_safe [OF demo_inv, of last_byte_event] fd sub
    by (simp add: demo_simps(6)) blast
qed

text \<open>
  C40. The length check lets one size through that does not fit: when a client has sent a
  packet whose length field is 0x6000, the server's maximum, and all of its data, the server
  writes the terminating null byte one place after the buffer of the channel.
\<close>

theorem max_packet_overrun:
  assumes inv: "srv_inv st" and fd: "epl_map_at st fd = Inr m" "m \<noteq> 0" and i: "i = unat m - 1"
    and recv: "cl_recv env = Inr avail" "avail \<noteq> []" "ch_recv_s (st_chans st ! i) < 24578"
    and pkt: "received (st_chans st ! i) avail = net16 24576 @ data" "length data = 24576"
  shows "handle_client_event env fd 1 st = Inl OutOfBounds"
proof (rule max_packet_written [OF inv fd i])
  show "client_overruns st env i 1" using recv pkt by (simp add: client_overruns_def max_packet_def)
qed

theorem max_packet_overrun_witness:
  "handle_client_event (demo_client\<lparr> cl_recv := Inr (net16 24576 @ replicate 24576 CHR ''x'') \<rparr>) 5 1 demo_state = Inl OutOfBounds"
  by (rule max_packet_overrun [OF demo_inv demo_simps(6) _ refl, where avail = "net16 24576 @ replicate 24576 CHR ''x''"
        and data = "replicate 24576 CHR ''x''"])
    (simp_all add: demo_simps received_def chan_zero_def)

text \<open>
  C35. Malformed packets: when the bytes received so far have a length field above the
  maximum, or more data than the length field says, the connection is closed, its slot is
  free again, and neither a worker nor the queue sees anything.
\<close>

theorem malformed_packet_closes:
  assumes inv: "srv_inv st" and fd: "epl_map_at st fd = Inr m" "m \<noteq> 0" and i: "i = unat m - 1"
    and recv: "cl_recv env = Inr avail" "avail \<noteq> []" "ch_recv_s (st_chans st ! i) < 24578"
    and pkt: "received (st_chans st ! i) avail = net16 n @ data" "n < 65536"
    and bad: "24576 < n \<or> n < length data"
  shows "\<exists>st'. handle_client_event env fd 1 st = Inr (0, st') \<and> srv_inv st' \<and> same_work st st' \<and>
     epl_map_at st' fd = Inr 0 \<and> CloseFd fd \<in> set (st_sys st') \<and>
     tss_list (st_chan_stk st') = of_nat i # tss_list (st_chan_stk st)"
proof -
  note reg = registered_chan [OF inv fd i]
  obtain vs where parts: "chans_inv st" "threads_inv st" "queue_has st vs" using inv by (auto simp: srv_inv_def)
  define ch where "ch = (st_chans st ! i)\<lparr> ch_raw := received (st_chans st ! i) avail @
    drop (length (received (st_chans st ! i) avail)) (ch_raw (st_chans st ! i)) \<rparr>"
  let ?l = "2 + length data"
  have len: "length (received (st_chans st ! i) avail) = ?l" using pkt by simp
  have le: "?l \<le> 24578" using len reg(6) recv(3) by (simp add: received_def)
  have hdr: "ntohs (load16 (ch_raw ch ! 0) (ch_raw ch ! 1)) = of_nat n"
    using ntohs_load16 [OF pkt(2)] by (simp add: ch_def pkt(1) net16_def)
  have u: "unat (of_nat n :: u16) = n" "unat (of_nat (length data) :: u16) = length data"
    using pkt(2) le by (intro unat_idx; simp)+
  define st1 where "st1 = put_chan i (ch\<lparr> ch_recv_s := ?l \<rparr>) st"
  have neg: "\<exists>ret < 0. handle_client_event3 (cl_submit env) ?l i (put_chan i ch st) = Inr (ret, st1)"
    using bad reg(1) hdr u by (auto simp: handle_client_event3_def Let_def st1_def word_less_nat_alt)
  have inv1: "chans_inv st1" unfolding st1_def
    using le len reg(6) by (intro chans_inv_put [OF parts(1) reg(1)]) (auto simp: ch_def)
  have on: "i < length (st_chans st1)" "ch_is_online (st_chans st1 ! i)" "ch_fd (st_chans st1 ! i) = fd"
    using reg by (simp_all add: st1_def ch_def)
  obtain stk where cl: "close_chan (cl_epoll env) fd i st1 = Inr (0, closed_state (cl_epoll env) fd i stk st1)"
      "tss_wf stk" "tss_list stk = of_nat i # tss_list (st_chan_stk st1)" "tss_cap stk = tss_cap (st_chan_stk st1)"
    by (rule close_chan_eq [OF inv1 on])
  let ?fin = "closed_state (cl_epoll env) fd i stk st1"
  have work: "same_work st ?fin" using closed_state_simps(4) [of st1] by (simp add: same_work_def st1_def)
  have "handle_client_event env fd 1 st = Inr (0, ?fin)"
    unfolding client_event_read [OF inv fd i recv readable ch_def] len using neg cl(1) by auto
  moreover have "srv_inv ?fin"
    using closed_state_inv [OF inv1 on cl(2-4)] same_work_inv [OF work] parts by (auto simp: srv_inv_def)
  moreover have "epl_map_at ?fin fd = Inr 0"
    using fd(1) by (auto simp: epl_map_at_def st1_def split: if_splits)
  ultimately show ?thesis using work cl(3) by (auto simp: st1_def)
qed

theorem malformed_packet_closes_witness:
  "\<exists>st'. handle_client_event (demo_client\<lparr> cl_recv := Inr (net16 0 @ ''x'') \<rparr>) 5 1 demo_state = Inr (0, st') \<and>
     same_work demo_state st' \<and> epl_map_at st' 5 = Inr 0 \<and> tss_list (st_chan_stk st') = [0]"
  using malformed_packet_closes [OF demo_inv demo_simps(6) _ refl, where n = 0 and data = "''x''"
      and env = "demo_client\<lparr> cl_recv := Inr (net16 0 @ ''x'') \<rparr>" and avail = "net16 0 @ ''x''"]
  by (auto simp: demo_simps received_def chan_zero_def)

text \<open>
  Accepting: with a free slot, successful system calls and a descriptor below 65535 the acceptor takes the slot
  on top of the stack and registers the new descriptor for it, so that the connection is
  ready to receive a packet.
\<close>

theorem accept_registers:
  assumes inv: "srv_inv st" and env: "accept_ok st env" "ac_accept env = Inr fd" "ac_addr_len env \<le> 16"
      "ac_time env = Inr now" "ac_epoll env = 0"
    and top: "tss_list (st_chan_stk st) = w # ws" and small: "unat w + 1 < 65535" "fd < 65535"
  shows "\<exists>st'. run_acceptor env st = Inr (0, st') \<and> srv_inv st' \<and> same_work st st' \<and>
     epl_map_at st' fd = Inr (of_nat (unat w + 1)) \<and> tss_list (st_chan_stk st') = ws \<and>
     ch_is_online (st_chans st' ! unat w) \<and> ch_fd (st_chans st' ! unat w) = fd \<and>
     ch_recv_s (st_chans st' ! unat w) = 0 \<and> ch_accepted_at (st_chans st' ! unat w) = now"
proof -
  obtain vs where parts: "chans_inv st" "threads_inv st" "queue_has st vs" using inv by (auto simp: srv_inv_def)
  obtain ch stk where run: "run_acceptor env st = Inr (0, accepted_state fd (unat w) ch stk st)"
      and acc: "chans_inv (accepted_state fd (unat w) ch stk st)" "tss_list stk = ws"
        "ch_is_online ch" "ch_fd ch = fd" "ch_accepted_at ch = now" "ch_recv_s ch = 0"
    by (rule run_acceptor_success [OF parts(1) env top small])
  have w: "unat w < length (st_chans st)" using parts(1) top by (simp add: chans_inv_def)
  have "0 \<le> fd" "nat fd < length (st_epl_map st)"
    using accept_free [OF parts(1) env(1,2) small(2)] parts(1) by (auto simp: chans_inv_def)
  then have "epl_map_at (accepted_state fd (unat w) ch stk st) fd = Inr (of_nat (unat w + 1))"
    by (simp add: epl_map_at_def del: of_nat_add)
  moreover have "srv_inv (accepted_state fd (unat w) ch stk st)"
    using acc(1) parts same_work_inv [OF accepted_state_simps(4)] by (auto simp: srv_inv_def)
  ultimately show ?thesis using run acc w by simp
qed

text \<open>The example state after its connection has been closed, and an incoming connection.\<close>

definition free_state :: gwbot_state where
  "free_state = demo_state\<lparr> st_epl_map := replicate 65535 0, st_chans := [reset_chan chan_zero 0],
     st_chan_stk := \<lparr> ts_sp = 0, ts_capacity = 1, ts_arr = [0] \<rparr> \<rparr>"

definition demo_accept :: accept_env where
  "demo_accept = \<lparr> ac_accept = Inr 6, ac_addr = \<lparr> sin_port = 0, sin_addr = (NUL, NUL, NUL, NUL) \<rparr>,
     ac_addr_len = 16, ac_time = Inr 100, ac_epoll = 0 \<rparr>"

lemma free_simps:
  "tss_list (st_chan_stk free_state) = [0]" "accept_ok free_state demo_accept"
  by (simp_all add: free_state_def tss_list_def accept_ok_def demo_accept_def reset_chan_def)

lemma free_inv: "srv_inv free_state"
proof -
  have "chan_ok free_state 0 (st_chans free_state ! 0)"
    by (simp add: chan_ok_def free_state_def reset_chan_def chan_zero_def)
  then have "\<forall>i < length (st_chans free_state). chan_ok free_state i (st_chans free_state ! i)"
    by (simp add: free_state_def)
  then have "chans_inv free_state"
    unfolding chans_inv_def by (simp add: free_state_def tss_list_def tss_wf_def tss_cap_def reset_chan_def)
  moreover have "threads_inv free_state" "\<exists>vs. queue_has free_state vs"
    using demo_inv by (simp_all add: srv_inv_def free_state_def threads_inv_def queue_has_def)
  ultimately show ?thesis by (simp add: srv_inv_def)
qed

theorem accept_registers_witness:
  "\<exists>st'. run_acceptor demo_accept free_state = Inr (0, st') \<and> srv_inv st' \<and> epl_map_at st' 6 = Inr 1 \<and>
     tss_list (st_chan_stk st') = []"
  using accept_registers [OF free_inv free_simps(2) _ _ _ _ free_simps(1), of 6 100] by (auto simp: demo_accept_def)

text \<open>
  A failure after the slot has been taken loses the slot: when \<open>gettimeofday\<close> or
  \<open>epoll_ctl\<close> fails, the acceptor closes the descriptor, but the index it popped is neither
  pushed back nor used by a channel, so that no later connection can get it.
\<close>

theorem accept_leaks_slot:
  assumes inv: "srv_inv st" and env: "ac_accept env = Inr fd" "ac_addr_len env \<le> 16"
    and fail: "(\<exists>err. ac_time env = Inl err) \<or> ac_epoll env \<noteq> 0"
    and top: "tss_list (st_chan_stk st) = w # ws"
  shows "\<exists>ret st'. run_acceptor env st = Inr (ret, st') \<and> CloseFd fd \<in> set (st_sys st') \<and>
     tss_list (st_chan_stk st') = ws \<and> w \<notin> set ws \<and> \<not> ch_is_online (st_chans st' ! unat w) \<and>
     st_epl_map st' = st_epl_map st"
proof -
  have ci: "chans_inv st" using inv by (simp add: srv_inv_def)
  obtain ip port where src: "resolve_src_info (ac_addr env) = Inr (ip, port)"
    using resolve_src_info_total by blast
  obtain stk where stk: "tss_pop (st_chan_stk st) = Inr (uint w, stk)" "tss_list stk = ws"
    using tss.pop_some [OF _ top] ci unfolding chans_inv_def by blast
  have "\<exists>ret. run_acceptor env st = Inr (ret, emit (CloseFd fd) (st\<lparr> st_chan_stk := stk \<rparr>))"
    using env fail src stk(1) tss.enc_not_error [of w]
    by (auto simp: run_acceptor_def epoll_add_def Let_def split: sum.splits)
  moreover have "w \<notin> set ws" "\<not> ch_is_online (st_chans st ! unat w)"
    using ci top by (auto simp: chans_inv_def)
  ultimately show ?thesis using stk(2) by auto
qed

theorem accept_leaks_slot_witness:
  "\<exists>ret st'. run_acceptor (demo_accept\<lparr> ac_epoll := 12 \<rparr>) free_state = Inr (ret, st') \<and>
     tss_list (st_chan_stk st') = [] \<and> \<not> ch_is_online (st_chans st' ! 0)"
  using accept_leaks_slot [OF free_inv, of "demo_accept\<lparr> ac_epoll := 12 \<rparr>" 6 0 "[]"] free_simps(1)
  by (auto simp: demo_accept_def)

text \<open>
  C22. Queued packets are dispatched oldest first: when a worker is idle, \<open>dispatch_sqe\<close>
  takes the oldest packet out of the queue and gives its node to the worker on top of the
  stack, flagged as coming from the queue; when all workers are busy it changes nothing.
\<close>

theorem dispatch_oldest:
  assumes inv: "threads_inv st" and q: "queue_has st (v # vs)"
  shows "(case tss_list (st_thread_stk st) of
     [] \<Rightarrow> dispatch_sqe spawn st = Inr st
   | w # ws \<Rightarrow> \<exists>st' a. dispatch_sqe spawn st = Inr st' \<and> threads_inv st' \<and> queue_has st' vs \<and>
       tss_list (st_thread_stk st') = ws \<and> same_chans st st' \<and>
       (let th = st_threads st' ! unat w in th_has_event th \<and> th_from_sqe th \<and> th_sqe_node th = Some a) \<and>
       que_payload (st_heap st', st_sqes st') a = Some v)"
proof (cases "tss_list (st_thread_stk st)")
  case Nil
  then have "tss_pop (st_thread_stk st) = Inr (-1, st_thread_stk st)"
    using tss.pop_none inv by (simp add: threads_inv_def)
  moreover have "st\<lparr> st_thread_stk := st_thread_stk st \<rparr> = st" by simp
  ultimately show ?thesis
    using inv Nil by (simp add: dispatch_sqe_def threads_inv_def gw_mutex_lock_def gw_mutex_unlock_def Let_def)
next
  case (Cons w ws)
  let ?th = "st_threads st ! unat w" and ?q = "(st_heap st, st_sqes st)"
  have w: "unat w < length (st_threads st)" using inv Cons by (simp add: threads_inv_def)
  then have th: "need_destroy (th_ev_lock ?th)" "need_destroy (th_ev_cond ?th)" "length (th_raw ?th) = 24578"
    using inv by (auto simp: threads_inv_def)
  obtain stk where stk: "tss_pop (st_thread_stk st) = Inr (uint w, stk)" "tss_wf stk" "tss_list stk = ws"
    using tss.pop_some [OF _ Cons] inv unfolding threads_inv_def by blast
  have "que_rep ?q (v # vs)" using q by (simp add: queue_has_def)
  then obtain a h q' where deq: "que_dequeue ?q = Inr (Some a, (h, q'))" "que_rep (h, q') vs"
      "que_payload (h, q') a = Some v"
    using quem.deq_some [of ?q v vs] by (metis surj_pair)
  then obtain n where n: "fmlookup h a = Some n" "take (qn_len n) (qn_data n) = v"
    by (auto simp: que_payload_def)
  have "2 \<le> length v" using q by (simp add: queue_has_def)
  then have len: "2 \<le> length (qn_data n)" using n(2) by (metis length_take min.bounded_iff)
  define th' where "th' = ?th\<lparr> th_from_sqe := True, th_has_event := True,
    th_pkt_len := unat (load16 (qn_data n ! 0) (qn_data n ! 1)), th_sqe_node := Some a \<rparr>"
  define st' where "st' = snd (woken spawn (unat w) th'
    (put_thread (unat w) th' (st\<lparr> st_thread_stk := stk, st_heap := h, st_sqes := q' \<rparr>)))"
  have "dispatch_sqe spawn st = Inr st'"
    using inv stk(1) tss.enc_not_error [of w] w th deq(1) n(1) len
    by (simp add: dispatch_sqe_def threads_inv_def gw_mutex_lock_def gw_mutex_unlock_def Let_def node_at_def
        wake_thread_eq th'_def st'_def split_def)
  moreover have "threads_inv st'"
    using stk w th Cons by (intro threads_inv_loaded [OF inv w stk(2), of th']) (auto simp: st'_def th'_def)
  moreover have "queue_has st' vs" using deq(2) q by (simp add: queue_has_def st'_def)
  moreover have "th_has_event (st_threads st' ! unat w) \<and> th_from_sqe (st_threads st' ! unat w) \<and>
      th_sqe_node (st_threads st' ! unat w) = Some a"
    using w by (simp add: st'_def th'_def)
  moreover have "que_payload (st_heap st', st_sqes st') a = Some v" using deq(3) by (simp add: st'_def)
  moreover have "tss_list (st_thread_stk st') = ws" "same_chans st st'"
    using stk(3) by (simp_all add: st'_def same_chans_def)
  ultimately show ?thesis using Cons by auto
qed

text \<open>The example state with a packet in the queue.\<close>

definition queued_state :: gwbot_state where
  "queued_state = demo_state\<lparr>
     st_heap := fmupd 9 \<lparr> qn_next = None, qn_prev = None, qn_len = 2, qn_data = [NUL, NUL, NUL] \<rparr> fmempty,
     st_sqes := \<lparr> que_head = Some 9, que_tail = Some 9, que_cnt = 1, que_capacity = 100000 \<rparr> \<rparr>"

lemma queued_facts: "threads_inv queued_state" "queue_has queued_state [[NUL, NUL]]"
    "tss_list (st_thread_stk queued_state) = [0]"
proof -
  show "threads_inv queued_state" "tss_list (st_thread_stk queued_state) = [0]"
    using demo_inv demo_simps(5) by (simp_all add: queued_state_def srv_inv_def threads_inv_def)
  have "que_inv (st_heap queued_state, st_sqes queued_state) [9]" by (simp add: que_inv_def queued_state_def)
  then show "queue_has queued_state [[NUL, NUL]]"
    unfolding queue_has_def que_rep_def by (intro conjI exI [of _ "[9]"]) (simp_all add: que_payload_def queued_state_def)
qed

theorem dispatch_oldest_witness:
  "\<exists>st' a. dispatch_sqe 0 queued_state = Inr st' \<and> queue_has st' [] \<and>
     que_payload (st_heap st', st_sqes st') a = Some [NUL, NUL] \<and> th_sqe_node (st_threads st' ! 0) = Some a"
  using dispatch_oldest [OF queued_facts(1,2), of 0] queued_facts(3) by (auto simp: Let_def)

section \<open>Start and end\<close>

lemma push_indexes_eq:
  "k \<le> 65535 \<Longrightarrow> need_destroy (st_thread_stk_lock st) \<Longrightarrow>
   tss_wf (st_chan_stk st) \<Longrightarrow> length (tss_list (st_chan_stk st)) + k \<le> tss_cap (st_chan_stk st) \<Longrightarrow>
   tss_wf (st_thread_stk st) \<Longrightarrow> length (tss_list (st_thread_stk st)) + k \<le> tss_cap (st_thread_stk st) \<Longrightarrow>
   \<exists>cs ts. push_indexes k st = Inr (st\<lparr> st_chan_stk := cs, st_thread_stk := ts \<rparr>) \<and>
     tss_wf cs \<and> tss_list cs = map of_nat [0..<k] @ tss_list (st_chan_stk st) \<and> tss_cap cs = tss_cap (st_chan_stk st) \<and>
     tss_wf ts \<and> tss_list ts = map of_nat [0..<k] @ tss_list (st_thread_stk st) \<and> tss_cap ts = tss_cap (st_thread_stk st)"
proof (induction k arbitrary: st)
  case 0
  then show ?case by - (rule exI [of _ "st_chan_stk st"], rule exI [of _ "st_thread_stk st"], simp)
next
  case (Suc k)
  have k: "k < 65536" using Suc.prems(1) by linarith
  have u: "uint (of_nat k :: u32) = int k"
    using k by (simp add: unsigned_of_nat take_bit_nat_eq_self)
  obtain c where c: "tss_push (st_chan_stk st) (of_nat k) = Inr (int k, c)" "tss_wf c"
      "tss_list c = of_nat k # tss_list (st_chan_stk st)" "tss_cap c = tss_cap (st_chan_stk st)"
    using tss.push_room [of "st_chan_stk st" "of_nat k"] Suc.prems u by auto
  obtain s where s: "tss_push (st_thread_stk st) (of_nat k) = Inr (int k, s)" "tss_wf s"
      "tss_list s = of_nat k # tss_list (st_thread_stk st)" "tss_cap s = tss_cap (st_thread_stk st)"
    using tss.push_room [of "st_thread_stk st" "of_nat k"] Suc.prems u by auto
  show ?case
    using Suc.IH [of "st\<lparr> st_chan_stk := c, st_thread_stk := s \<rparr>"] Suc.prems c s
    by (auto simp: gw_mutex_lock_def gw_mutex_unlock_def)
qed

text \<open>An environment in which every allocation and initialisation succeeds.\<close>

definition init_ok :: "init_env \<Rightarrow> bool" where
  "init_ok env \<longleftrightarrow> ie_chans env \<and> ie_threads env \<and> ie_epl_map env \<and> ie_chan_stk env \<and> ie_thread_stk env \<and>
     ie_ev_mutex env = (\<lambda>_. 0) \<and> ie_ev_cond env = (\<lambda>_. 0) \<and> ie_sqe_lock env = 0 \<and> ie_cqe_lock env = 0 \<and>
     ie_log_lock env = 0 \<and> ie_log_cond env = 0 \<and> ie_stk_lock env = 0"

lemma reset_threads_ok:
  assumes "init_ok env"
  shows "\<exists>ths. reset_threads env is = Inr ths \<and> length ths = length is \<and>
    (\<forall>th \<in> set ths. need_destroy (th_ev_lock th) \<and> need_destroy (th_ev_cond th) \<and> length (th_raw th) = 24578)"
proof (induction "is")
  case (Cons i "is")
  with assms show ?case
    by (auto simp: reset_thread_def init_ok_def gw_mutex_init_def gw_cond_init_def thread_zero_def Let_def)
qed simp

lemma reset_chan_ok:
  "i < 65536 \<Longrightarrow> chan_ok st i (reset_chan chan_zero (of_nat i)) \<and> \<not> ch_is_online (reset_chan chan_zero (of_nat i))"
  by (simp add: chan_ok_def reset_chan_def chan_zero_def unat_ucast16)

text \<open>
  C30. Initialisation establishes the invariants: when allocations and \<open>pthread\<close> calls
  succeed, \<open>init_state\<close> returns 0 without a failed assertion, every channel slot and every
  worker is free, index 0 on top, and the queue is empty.
\<close>

theorem init_state_ready:
  assumes env: "init_ok env" and n: "n = unat (wk_thread_c (cfg_worker cfg))" "0 < n"
  shows "\<exists>st. init_state env (state_zero cfg) = Inr (0, st) \<and> srv_inv st \<and> queue_has st [] \<and>
     length (st_chans st) = n \<and> length (st_threads st) = n \<and>
     tss_list (st_chan_stk st) = map of_nat [0..<n] \<and> tss_list (st_thread_stk st) = map of_nat [0..<n] \<and>
     \<not> st_stop_el st \<and> st_tcp_fd st = -1"
proof -
  obtain ths where ths: "reset_threads env [0..<n] = Inr ths" "length ths = n"
      "\<forall>th \<in> set ths. need_destroy (th_ev_lock th) \<and> need_destroy (th_ev_cond th) \<and> length (th_raw th) = 24578"
    using reset_threads_ok [OF env, of "[0..<n]"] by auto
  let ?c = "ucast (wk_thread_c (cfg_worker cfg)) :: u32"
  let ?stk = "\<lparr> ts_sp = ?c, ts_capacity = ?c, ts_arr = replicate (unat ?c) 0 \<rparr>"
  let ?chans = "map (\<lambda>i. reset_chan chan_zero (of_nat i)) [0..<n]"
  define st1 where "st1 = (state_zero cfg)\<lparr> st_intr_sig := -1, st_tcp_fd := -1, st_epl_fd := -1, st_chans := ?chans,
    st_threads := ths, st_epl_map := replicate 65535 0, st_chan_stk := ?stk, st_thread_stk := ?stk,
    st_sqes := que_init (st_sqes (state_zero cfg)) 100000, st_cqes := que_init (st_cqes (state_zero cfg)) 100000,
    st_sqe_lock := \<lparr> need_destroy = True \<rparr>, st_cqe_lock := \<lparr> need_destroy = True \<rparr>,
    st_log_lock := \<lparr> need_destroy = True \<rparr>, st_log_cond := \<lparr> need_destroy = True \<rparr>,
    st_thread_stk_lock := \<lparr> need_destroy = True \<rparr> \<rparr>"
  have n16: "n < 65536" using n unat_u16_less by simp
  have stk: "tss_wf ?stk" "tss_list ?stk = []" "tss_cap ?stk = n"
    using n(1) by (simp_all add: tss_wf_def tss_list_def tss_cap_def)
  obtain cs ts where push: "push_indexes n st1 = Inr (st1\<lparr> st_chan_stk := cs, st_thread_stk := ts \<rparr>)"
      "tss_wf cs" "tss_list cs = map of_nat [0..<n]" "tss_cap cs = n"
      "tss_wf ts" "tss_list ts = map of_nat [0..<n]"
    using push_indexes_eq [of n st1] stk n16 by (auto simp: st1_def)
  define st2 where "st2 = st1\<lparr> st_chan_stk := cs, st_thread_stk := ts \<rparr>"
  have run: "\<exists>st. init_state env (state_zero cfg) = Inr (0, st) \<and> (st = emit GlobalInit st2 \<or>
      st = emit GlobalInit (emit MysqlInit st2))"
    using env ths(1) push(1) n
    by (auto simp: init_state_def init_state_chans_def init_state_threads_def init_epl_map_def init_stacks_def
        init_locks_def and_then_def init_ok_def state_zero_def tss_init_def gw_mutex_init_def gw_cond_init_def
        neg_err_def st1_def st2_def Let_def)
  have "chans_inv st2"
    unfolding chans_inv_def using push n16 reset_chan_ok
    by (auto simp: st2_def st1_def distinct_map inj_on_def word_unat_eq_iff)
  moreover have "threads_inv st2"
    unfolding threads_inv_def using push ths n16 by (auto simp: st2_def st1_def)
  moreover have "queue_has st2 []"
    using que_rep_init by (simp add: queue_has_def st2_def st1_def)
  moreover have "st_stop_el st2 = False" "st_tcp_fd st2 = -1" "st_threads st2 = ths" "st_chans st2 = ?chans"
      "st_chan_stk st2 = cs" "st_thread_stk st2 = ts"
    by (simp_all add: st2_def st1_def state_zero_def)
  moreover from calculation have "srv_inv st2" by (auto simp: srv_inv_def)
  ultimately show ?thesis using run push ths(2) by auto
qed

theorem init_state_ready_witness:
  "\<exists>st. init_state \<lparr> ie_chans = True, ie_threads = True, ie_epl_map = True, ie_chan_stk = True, ie_thread_stk = True,
        ie_ev_mutex = (\<lambda>_. 0), ie_ev_cond = (\<lambda>_. 0), ie_sqe_lock = 0, ie_cqe_lock = 0, ie_log_lock = 0,
        ie_log_cond = 0, ie_stk_lock = 0 \<rparr> (state_zero (cfg_zero\<lparr> cfg_worker := \<lparr> wk_thread_c = 2 \<rparr> \<rparr>)) = Inr (0, st) \<and>
     srv_inv st \<and> tss_list (st_chan_stk st) = [0, 1]"
  using init_state_ready [of "\<lparr> ie_chans = True, ie_threads = True, ie_epl_map = True, ie_chan_stk = True, ie_thread_stk = True,
        ie_ev_mutex = (\<lambda>_. 0), ie_ev_cond = (\<lambda>_. 0), ie_sqe_lock = 0, ie_cqe_lock = 0, ie_log_lock = 0,
        ie_log_cond = 0, ie_stk_lock = 0 \<rparr>" "Suc (Suc 0)" "cfg_zero\<lparr> cfg_worker := \<lparr> wk_thread_c = 2 \<rparr> \<rparr>"]
  by (auto simp: init_ok_def)

text \<open>
  A failed allocation at the start ends in a crash instead of an error code: when
  \<open>calloc\<close> for the channels fails, \<open>gwbot_run\<close> goes on to \<open>destroy_state\<close>, whose
  \<open>close_fds\<close> reads the channels through the pointer that is still null.
\<close>

theorem init_failure_crashes:
  assumes "validate_cfg a cfg = 0" and "re_malloc env" and "\<not> ie_chans (re_init env)"
  shows "gwbot_run env a cfg = Inl NullDeref"
proof -
  let ?st = "(state_zero cfg)\<lparr> st_stop_el := False, st_intr_sig := -1, st_tcp_fd := -1, st_epl_fd := -1,
    st_epl_map := [], st_chans := [], st_threads := [], st_active_chan := 0, st_online_thread := 0 \<rparr>"
  have "wk_thread_c (cfg_worker cfg) \<noteq> 0"
    using assms(1) by (auto simp: validate_cfg_def Let_def split: if_splits)
  then have c: "[0..<thread_c ?st] = 0 # [1..<thread_c ?st]"
    by (simp add: state_zero_def upt_conv_Cons word_unat_eq_iff)
  have "init_state (re_init env) (state_zero cfg) = Inr (-1, ?st)"
    using assms(3) by (simp add: init_state_def init_state_chans_def and_then_def)
  moreover have "destroy_state ?st = Inl NullDeref"
    using c by (simp add: destroy_state_def close_fds_def chan_at_def Let_def)
  ultimately show ?thesis
    using assms(1,2) by (simp add: gwbot_run_def and_then_def)
qed

text \<open>A complete configuration, given on the command line, and a start without memory for the channels.\<close>

definition demo_cfg :: gwbot_cfg where
  "demo_cfg = cfg_zero\<lparr> cfg_cred := \<lparr> cr_token = Some (InArgv ''123:abc'') \<rparr>,
     cfg_sock := \<lparr> sk_bind_addr = Some (InArgv ''0.0.0.0''), sk_backlog = 20, sk_bind_port = 55555 \<rparr>,
     cfg_worker := \<lparr> wk_thread_c = 30 \<rparr> \<rparr>"

definition demo_run :: run_env where
  "demo_run = \<lparr> re_malloc = True,
     re_init = \<lparr> ie_chans = False, ie_threads = True, ie_epl_map = True, ie_chan_stk = True, ie_thread_stk = True,
        ie_ev_mutex = (\<lambda>_. 0), ie_ev_cond = (\<lambda>_. 0), ie_sqe_lock = 0, ie_cqe_lock = 0, ie_log_lock = 0,
        ie_log_cond = 0, ie_stk_lock = 0 \<rparr>,
     re_logger = 0, re_epoll = Inr 3, re_startup = 0,
     re_sock = \<lparr> so_socket = Inr 4, so_reuseaddr = 0, so_nodelay = 0, so_bind = 0, so_listen = 0, so_epoll = 0 \<rparr>,
     re_loop = [] \<rparr>"

theorem init_failure_crashes_witness: "gwbot_run demo_run (ar_init [] 0) demo_cfg = Inl NullDeref"
  by (rule init_failure_crashes)
    (simp_all add: validate_cfg_def empty_str_def demo_cfg_def demo_run_def cfg_zero_def NUL_def)

end
