(* ===== verification/Worker.thy ===== *)
theory Worker
  imports Server_State
begin

text \<open>
  The life of one worker (\<open>handle_thread\<close> of \<open>core/server.c\<close>) beside the main thread's
  \<open>submit_to_thread\<close> and \<open>spawn_thread\<close>, as interleaved steps.  A step is what one thread
  does between two points at which another thread can interfere: acquiring or releasing the
  worker's \<open>ev_lock\<close>, waiting on its condition variable, taking its index from the stack
  of idle workers, destroying the lock, resetting the record.  When \<open>gettimeofday\<close> fails, the timed
  wait returns at once with an error, which counts as a wait that times out.  The queue node that the
  worker destroys after a queued packet is its own and not part of the shared state here.
\<close>

section \<open>State\<close>

text \<open>Where the worker is: not running, or at a point of \<open>handle_thread\<close>.\<close>

datatype worker_pc =
    WOff
  | WLock                (* at again, before the lock *)
  | WTest nat            (* holding the lock, at the loop test, with counter *)
  | WSleep nat           (* in pthread_cond_timedwait, lock released *)
  | WWoken nat bool      (* woken or timed out, before it has the lock again *)
  | WHandle              (* holding the lock, event to process *)
  | WRestore             (* holding the lock, event processed *)
  | WRelease             (* index pushed back, still holding the lock *)
  | WOut                 (* at out, holding the lock *)
  | WDestroy             (* lock released, not yet destroyed *)
  | WReset               (* lock destroyed, before reset_thread *)

text \<open>Where the main thread is with respect to this worker.\<close>

datatype main_pc =
    MIdle
  | MPopped bytes        (* has the index, before gw_mutex_lock *)
  | MLocked bytes        (* holding the lock, before writing the event *)
  | MWritten bool        (* event written; whether the worker was online *)
  | MSpawn               (* lock released, before pthread_create *)
  | MAbort               (* assertion on a destroyed lock failed *)

datatype owner = Main | Worker

record wsys =
  ws_pc :: worker_pc
  ws_main :: main_pc
  ws_owner :: "owner option"
  ws_lock_ok :: bool
  ws_online :: bool
  ws_event :: bool
  ws_pkt :: bytes
  ws_idle :: bool              (* the index is on thread_stk *)
  ws_stop :: bool              (* stop_el *)
  ws_sent :: "bytes list"
  ws_done :: "bytes list"

definition ws_init :: wsys where
  "ws_init = \<lparr> ws_pc = WOff, ws_main = MIdle, ws_owner = None, ws_lock_ok = True, ws_online = False,
     ws_event = False, ws_pkt = [], ws_idle = True, ws_stop = False, ws_sent = [], ws_done = [] \<rparr>"

section \<open>Steps of the worker\<close>

text \<open>
  \<open>ret && counter++ == 300\<close>: only a time-out counts, and the loop is left at the 301st.  A
  step function gives the successor, or \<open>None\<close> when the thread cannot move.
\<close>

definition give_up :: "nat \<Rightarrow> bool \<Rightarrow> bool \<Rightarrow> bool" where
  "give_up counter timed_out stop \<longleftrightarrow> (timed_out \<and> counter = 300) \<or> stop"

definition acquire :: "owner \<Rightarrow> wsys \<Rightarrow> wsys option" where
  "acquire who s = (if ws_owner s = None then Some (s\<lparr> ws_owner := Some who \<rparr>) else None)"

fun worker_move :: "wsys \<Rightarrow> wsys option" where
  "worker_move s =
     (case ws_pc s of
        WOff \<Rightarrow> None
      | WLock \<Rightarrow> map_option (\<lambda>s. s\<lparr> ws_pc := WTest 0, ws_online := True \<rparr>) (acquire Worker s)
      | WTest c \<Rightarrow>
          if ws_event s then Some (s\<lparr> ws_pc := WHandle \<rparr>)
          else Some (s\<lparr> ws_pc := WSleep c, ws_owner := None \<rparr>)
      | WSleep c \<Rightarrow> None
      | WWoken c timed_out \<Rightarrow>
          map_option (\<lambda>s.
            if give_up c timed_out (ws_stop s) then s\<lparr> ws_pc := WOut \<rparr>
            else s\<lparr> ws_pc := WTest (if timed_out then c + 1 else c) \<rparr>) (acquire Worker s)
      | WHandle \<Rightarrow> Some (s\<lparr> ws_pc := (if ws_stop s then WOut else WRestore), ws_done := ws_done s @ [ws_pkt s] \<rparr>)
      | WRestore \<Rightarrow> Some (s\<lparr> ws_pc := WRelease, ws_event := False, ws_idle := True \<rparr>)
      | WRelease \<Rightarrow> Some (s\<lparr> ws_pc := WLock, ws_owner := None \<rparr>)
      | WOut \<Rightarrow> Some (s\<lparr> ws_pc := WDestroy, ws_owner := None \<rparr>)
      | WDestroy \<Rightarrow> Some (s\<lparr> ws_pc := WReset, ws_lock_ok := False \<rparr>)
      | WReset \<Rightarrow> Some (s\<lparr> ws_pc := WOff, ws_online := False, ws_event := False, ws_lock_ok := True \<rparr>))"

text \<open>The condition variable: a signal wakes a sleeping worker, a time-out does, and so may nothing.\<close>

fun wait_returns :: "bool \<Rightarrow> wsys \<Rightarrow> wsys option" where
  "wait_returns timed_out s =
     (case ws_pc s of WSleep c \<Rightarrow> Some (s\<lparr> ws_pc := WWoken c timed_out \<rparr>) | _ \<Rightarrow> None)"

section \<open>Steps of the main thread\<close>

fun main_submit :: "bytes \<Rightarrow> wsys \<Rightarrow> wsys option" where
  "main_submit p s =
     (if ws_main s = MIdle \<and> ws_idle s
      then Some (s\<lparr> ws_main := MPopped p, ws_idle := False, ws_sent := ws_sent s @ [p] \<rparr>) else None)"

fun main_move :: "wsys \<Rightarrow> wsys option" where
  "main_move s =
     (case ws_main s of
        MIdle \<Rightarrow> None
      | MAbort \<Rightarrow> None
      | MPopped p \<Rightarrow>
          if \<not> ws_lock_ok s then Some (s\<lparr> ws_main := MAbort \<rparr>)
          else map_option (\<lambda>s. s\<lparr> ws_main := MLocked p \<rparr>) (acquire Main s)
      | MLocked p \<Rightarrow> Some (s\<lparr> ws_main := MWritten (ws_online s), ws_event := True, ws_pkt := p \<rparr>)
      | MWritten online \<Rightarrow>
          if online
          then Some (s\<lparr> ws_main := MIdle, ws_owner := None,
                        ws_pc := (case ws_pc s of WSleep c \<Rightarrow> WWoken c False | pc \<Rightarrow> pc) \<rparr>)
          else Some (s\<lparr> ws_main := MSpawn, ws_owner := None \<rparr>)
      | MSpawn \<Rightarrow> Some (s\<lparr> ws_main := MIdle, ws_pc := WLock \<rparr>))"

text \<open>\<open>pthread_create\<close> may fail; then the main thread goes on without a worker.\<close>

fun spawn_fails :: "wsys \<Rightarrow> wsys option" where
  "spawn_fails s = (if ws_main s = MSpawn then Some (s\<lparr> ws_main := MIdle \<rparr>) else None)"

section \<open>Interleaving\<close>

datatype wlabel = WorkerMove | WaitReturns bool | Submit bytes | MainMove | SpawnFails | Stop

fun wnext :: "wlabel \<Rightarrow> wsys \<Rightarrow> wsys option" where
  "wnext WorkerMove s = worker_move s"
| "wnext (WaitReturns t) s = wait_returns t s"
| "wnext (Submit p) s = main_submit p s"
| "wnext MainMove s = main_move s"
| "wnext SpawnFails s = spawn_fails s"
| "wnext Stop s = Some (s\<lparr> ws_stop := True \<rparr>)"

text \<open>
  Quiet runs are those in which no worker reaches its 301st time-out or sees the stop flag,
  and every thread can be created: every step but those that make a worker give up.
\<close>

inductive wquiet :: "wsys \<Rightarrow> bool" where
  qinit: "wquiet ws_init"
| qstep: "wquiet s \<Longrightarrow> wnext l s = Some s' \<Longrightarrow> l \<noteq> SpawnFails \<Longrightarrow> ws_pc s' \<noteq> WOut \<Longrightarrow> wquiet s'"

fun wrun :: "wlabel list \<Rightarrow> wsys \<Rightarrow> wsys option" where
  "wrun [] s = Some s"
| "wrun (l # ls) s = (case wnext l s of None \<Rightarrow> None | Some s' \<Rightarrow> wrun ls s')"

section \<open>The invariant of quiet runs\<close>

text \<open>
  The packet in flight, if any: in the main thread's hands, or written and not yet handled.
\<close>

definition in_flight :: "wsys \<Rightarrow> bytes list" where
  "in_flight s =
     (case ws_main s of
        MPopped p \<Rightarrow> [p]
      | MLocked p \<Rightarrow> [p]
      | _ \<Rightarrow> if ws_event s \<and> ws_pc s \<noteq> WRestore then [ws_pkt s] else [])"

fun worker_holds :: "worker_pc \<Rightarrow> bool" where
  "worker_holds (WTest c) = True"
| "worker_holds WHandle = True"
| "worker_holds WRestore = True"
| "worker_holds WRelease = True"
| "worker_holds _ = False"

fun main_holds :: "main_pc \<Rightarrow> bool" where
  "main_holds (MLocked p) = True"
| "main_holds (MWritten b) = True"
| "main_holds _ = False"

fun main_carries :: "main_pc \<Rightarrow> bool" where
  "main_carries (MPopped p) = True"
| "main_carries (MLocked p) = True"
| "main_carries _ = False"

definition winv :: "wsys \<Rightarrow> bool" where
  "winv s \<longleftrightarrow>
     ws_sent s = ws_done s @ in_flight s \<and> ws_lock_ok s \<and>
     ws_pc s \<notin> {WOut, WDestroy, WReset} \<and> ws_main s \<noteq> MAbort \<and>
     (ws_owner s = Some Worker \<longleftrightarrow> worker_holds (ws_pc s)) \<and>
     (ws_owner s = Some Main \<longleftrightarrow> main_holds (ws_main s)) \<and>
     (ws_idle s \<longrightarrow> ws_main s = MIdle \<and> \<not> ws_event s) \<and>
     (ws_event s \<longrightarrow> \<not> main_carries (ws_main s)) \<and>
     (ws_pc s = WHandle \<or> ws_pc s = WRestore \<longrightarrow> ws_event s \<and> ws_main s = MIdle) \<and>
     (ws_pc s = WOff \<longrightarrow> \<not> ws_online s \<and> ws_main s \<noteq> MWritten True) \<and>
     (ws_main s = MWritten False \<or> ws_main s = MSpawn \<longrightarrow> ws_pc s = WOff \<and> ws_event s) \<and>
     (ws_pc s \<noteq> WOff \<and> ws_pc s \<noteq> WLock \<longrightarrow> ws_online s) \<and>
     (ws_main s = MWritten True \<longrightarrow> ws_event s) \<and>
     (ws_pc s = WLock \<and> \<not> ws_online s \<longrightarrow> ws_main s = MIdle \<and> ws_event s)"

lemma winv_init: "winv ws_init"
  by (simp add: winv_def ws_init_def in_flight_def)

lemmas winv_simps = winv_def in_flight_def acquire_def give_up_def

lemma winv_worker: "winv s \<Longrightarrow> worker_move s = Some s' \<Longrightarrow> ws_pc s' \<noteq> WOut \<Longrightarrow> winv s'"
  by (cases "ws_pc s"; cases "ws_main s"; clarsimp simp: winv_simps split: if_splits)

lemma winv_wait: "winv s \<Longrightarrow> wait_returns t s = Some s' \<Longrightarrow> winv s'"
  by (cases "ws_pc s"; cases "ws_main s"; clarsimp simp: winv_simps split: if_splits)

lemma winv_submit: "winv s \<Longrightarrow> main_submit p s = Some s' \<Longrightarrow> winv s'"
  by (cases "ws_pc s"; clarsimp simp: winv_simps split: if_splits)

lemma winv_main:
  assumes "winv s" and "main_move s = Some s'"
  shows "winv s'"
proof (cases "ws_main s")
  case (MPopped p)
  with assms show ?thesis by (clarsimp simp: winv_simps split: if_splits)
next
  case (MLocked p)
  with assms show ?thesis by (clarsimp simp: winv_simps split: if_splits)
next
  case (MWritten b)
  with assms show ?thesis by (cases b; cases "ws_pc s"; clarsimp simp: winv_simps split: if_splits)
next
  case MSpawn
  with assms show ?thesis by (clarsimp simp: winv_simps split: if_splits)
qed (use assms in simp_all)

lemma in_flight_stop: "in_flight (s\<lparr> ws_stop := True \<rparr>) = in_flight s"
  by (cases "ws_main s") (simp_all add: in_flight_def)

lemma winv_stop: "winv (s\<lparr> ws_stop := True \<rparr>) = winv s"
  by (simp add: winv_def in_flight_stop)

lemma winv_quiet: "wquiet s \<Longrightarrow> winv s"
proof (induction rule: wquiet.induct)
  case qinit
  show ?case by (rule winv_init)
next
  case (qstep s l s')
  then show ?case
    by (cases l)
      (auto dest: winv_worker winv_wait winv_submit winv_main simp: winv_stop
        simp del: worker_move.simps main_move.simps wait_returns.simps main_submit.simps)
qed

section \<open>Properties\<close>

text \<open>
  C11. No event is lost, repeated or reordered in a quiet run: at every point the packets
  submitted to the worker are those it has handled, in order, followed by at most one packet
  in flight; the main thread never meets a destroyed lock, and when the worker's index is on
  the stack of idle workers, everything submitted has been handled.
\<close>

theorem worker_exactly_once:
  assumes "wquiet s"
  shows "ws_sent s = ws_done s @ in_flight s \<and> length (in_flight s) \<le> 1 \<and> ws_main s \<noteq> MAbort \<and>
         (ws_idle s \<longrightarrow> ws_sent s = ws_done s)"
  using winv_quiet [OF assms] by (cases "ws_main s") (simp_all add: winv_def in_flight_def)

text \<open>A run with two packets: spawn, handle, wait, signal, handle.\<close>

definition demo_wrun :: "wlabel list" where
  "demo_wrun = [Submit ''a'', MainMove, MainMove, MainMove, MainMove, WorkerMove, WorkerMove, WorkerMove, WorkerMove,
     WorkerMove, Submit ''b'', WorkerMove, WorkerMove, MainMove, MainMove, MainMove, WorkerMove, WorkerMove, WorkerMove,
     WorkerMove]"

fun quiet_run :: "wlabel list \<Rightarrow> wsys \<Rightarrow> wsys option" where
  "quiet_run [] s = Some s"
| "quiet_run (l # ls) s =
     (case wnext l s of
        None \<Rightarrow> None
      | Some s' \<Rightarrow> if l = SpawnFails \<or> ws_pc s' = WOut then None else quiet_run ls s')"

lemma quiet_run_quiet: "wquiet s \<Longrightarrow> quiet_run ls s = Some s' \<Longrightarrow> wquiet s'"
  by (induction ls arbitrary: s) (auto split: option.splits if_splits intro: wquiet.qstep)

theorem worker_exactly_once_witness:
  "\<exists>s. quiet_run demo_wrun ws_init = Some s \<and> ws_sent s = [''a'', ''b''] \<and> ws_done s = [''a'', ''b'']"
proof -
  obtain s where s: "quiet_run demo_wrun ws_init = Some s" "ws_sent s = [''a'', ''b'']" "ws_idle s"
    by (simp add: demo_wrun_def ws_init_def acquire_def give_up_def)
  with worker_exactly_once [OF quiet_run_quiet [OF wquiet.qinit s(1)]] show ?thesis by auto
qed

section \<open>The shutdown of an idle worker\<close>

text \<open>
  The schedules in question: nobody stops the server, every thread can be created, and a given
  number of waits has timed out in all.
\<close>

definition timeouts :: "nat \<Rightarrow> wlabel list \<Rightarrow> bool" where
  "timeouts n ls \<longleftrightarrow> Stop \<notin> set ls \<and> SpawnFails \<notin> set ls \<and> count_list ls (WaitReturns True) = n"

lemma timeouts_append: "timeouts m ls \<Longrightarrow> timeouts n ls' \<Longrightarrow> timeouts (m + n) (ls @ ls')"
  by (simp add: timeouts_def)

lemma wrun_append: "wrun (ls @ ls') s = (case wrun ls s of None \<Rightarrow> None | Some s' \<Rightarrow> wrun ls' s')"
  by (induction ls arbitrary: s) (auto split: option.splits)

text \<open>The counter of the worker never runs ahead of the time-outs there have been.\<close>

fun counted :: "worker_pc \<Rightarrow> nat" where
  "counted (WTest c) = c"
| "counted (WSleep c) = c"
| "counted (WWoken c timed_out) = (if timed_out then c + 1 else c)"
| "counted _ = 0"

lemma counted_step:
  assumes "wnext l s = Some s'" and "counted (ws_pc s) \<le> n" and "\<not> ws_stop s" "l \<noteq> Stop"
  shows "counted (ws_pc s') \<le> (if l = WaitReturns True then n + 1 else n) \<and> \<not> ws_stop s'"
proof (cases l)
  case WorkerMove
  with assms show ?thesis by (cases "ws_pc s") (auto simp: acquire_def split: if_splits)
next
  case MainMove
  with assms show ?thesis by (cases "ws_main s") (auto simp: acquire_def split: if_splits worker_pc.splits)
qed (use assms in \<open>auto split: if_splits worker_pc.splits\<close>)

lemma no_shutdown_step:
  assumes "wnext l s = Some s'" and "ws_pc s \<noteq> WOut" and "counted (ws_pc s) \<le> 300" and "\<not> ws_stop s"
  shows "ws_pc s' \<noteq> WOut"
proof (cases l)
  case WorkerMove
  with assms show ?thesis by (cases "ws_pc s") (auto simp: acquire_def give_up_def split: if_splits)
next
  case MainMove
  with assms show ?thesis by (cases "ws_main s") (auto simp: acquire_def split: if_splits worker_pc.splits)
qed (use assms in \<open>auto split: if_splits worker_pc.splits\<close>)

lemma few_timeouts_quiet:
  assumes "timeouts n ls" and "n \<le> 300" and "wrun ls ws_init = Some s"
  shows "wquiet s \<and> counted (ws_pc s) \<le> n \<and> \<not> ws_stop s"
  using assms
proof (induction ls arbitrary: n s rule: rev_induct)
  case Nil
  then have "s = ws_init" by simp
  then show ?case using wquiet.qinit by (simp add: ws_init_def)
next
  case (snoc l ls)
  define k where "k = count_list ls (WaitReturns True)"
  obtain s1 where s1: "wrun ls ws_init = Some s1" "wnext l s1 = Some s"
    using snoc.prems(3) by (auto simp: wrun_append split: option.splits)
  have n: "n = (if l = WaitReturns True then k + 1 else k)" "l \<noteq> Stop" "l \<noteq> SpawnFails" "timeouts k ls"
    using snoc.prems(1) by (auto simp: timeouts_def k_def split: if_splits)
  then have "k \<le> 300" using snoc.prems(2) by (auto split: if_splits)
  with snoc.IH [OF n(4) _ s1(1)] have ih: "wquiet s1" "counted (ws_pc s1) \<le> k" "\<not> ws_stop s1" by auto
  have "counted (ws_pc s1) \<le> 300" using ih(2) \<open>k \<le> 300\<close> by simp
  moreover have "ws_pc s1 \<noteq> WOut" using winv_quiet [OF ih(1)] unfolding winv_def by blast
  ultimately have "ws_pc s \<noteq> WOut" using no_shutdown_step [OF s1(2)] ih(3) by blast
  then have "wquiet s" by (rule wquiet.qstep [OF ih(1) s1(2) n(3)])
  then show ?case using counted_step [OF s1(2) ih(2,3) n(2)] unfolding n(1) by blast
qed

text \<open>The worker of an earlier packet, waiting with a given number of time-outs behind it.\<close>

definition waiting :: "nat \<Rightarrow> wsys" where
  "waiting c = \<lparr> ws_pc = WTest c, ws_main = MIdle, ws_owner = Some Worker, ws_lock_ok = True, ws_online = True,
     ws_event = False, ws_pkt = ''a'', ws_idle = True, ws_stop = False, ws_sent = [''a''], ws_done = [''a''] \<rparr>"

lemma waiting_run: "c \<le> 300 \<Longrightarrow> \<exists>ls. timeouts c ls \<and> wrun ls ws_init = Some (waiting c)"
proof (induction c)
  case 0
  let ?ls = "[Submit ''a'', MainMove, MainMove, MainMove, MainMove, WorkerMove, WorkerMove, WorkerMove, WorkerMove,
      WorkerMove, WorkerMove]"
  have "timeouts 0 ?ls" "wrun ?ls ws_init = Some (waiting 0)"
    by (simp_all add: timeouts_def ws_init_def acquire_def give_up_def waiting_def)
  then show ?case by blast
next
  case (Suc c)
  then obtain ls where ls: "timeouts c ls" "wrun ls ws_init = Some (waiting c)" by auto
  let ?more = "[WorkerMove, WaitReturns True, WorkerMove]"
  have "wrun ?more (waiting c) = Some (waiting (Suc c))" using Suc.prems by (simp add: acquire_def give_up_def waiting_def)
  moreover have "timeouts (c + 1) (ls @ ?more)" by (rule timeouts_append [OF ls(1)]) (simp add: timeouts_def)
  ultimately show ?case using ls(2) by (intro exI [of _ "ls @ ?more"]) (simp add: wrun_append)
qed

lemma after_waiting:
  assumes "timeouts 1 ls'" and "wrun ls' (waiting 300) = Some s"
  shows "\<exists>ls. timeouts 301 ls \<and> wrun ls ws_init = Some s"
proof -
  obtain ls where "timeouts 300 ls" "wrun ls ws_init = Some (waiting 300)" using waiting_run [of 300] by auto
  then show ?thesis using timeouts_append [of 300 ls 1 ls'] assms by (intro exI [of _ "ls @ ls'"]) (simp add: wrun_append)
qed

text \<open>
  C39. The shutdown of an idle worker races with a submission, from the 301st time-out on and not
  before.  In every schedule in which nobody stops the server, every thread can be created and at
  most 300 waits time out, no packet is lost and no destroyed lock is met.  With 301 time-outs there is a
  schedule in which the main thread hands a packet to the worker and the packet is never
  handled: the worker has ended, its event flag has been reset and its index is not on the stack,
  so that it will not be used again; and there is one in which the main thread locks the
  destroyed mutex and the assertion fails.
\<close>

theorem worker_timeout_race:
  "(\<forall>n ls s. timeouts n ls \<and> n \<le> 300 \<and> wrun ls ws_init = Some s \<longrightarrow>
      ws_sent s = ws_done s @ in_flight s \<and> ws_main s \<noteq> MAbort) \<and>
   (\<exists>ls s p. timeouts 301 ls \<and> wrun ls ws_init = Some s \<and> ws_sent s = ws_done s @ [p] \<and> ws_pc s = WOff \<and>
      ws_main s = MIdle \<and> \<not> ws_event s \<and> \<not> ws_idle s \<and> \<not> ws_stop s) \<and>
   (\<exists>ls s. timeouts 301 ls \<and> wrun ls ws_init = Some s \<and> ws_main s = MAbort \<and> \<not> ws_stop s)"
proof (intro conjI)
  show "\<forall>n ls s. timeouts n ls \<and> n \<le> 300 \<and> wrun ls ws_init = Some s \<longrightarrow>
      ws_sent s = ws_done s @ in_flight s \<and> ws_main s \<noteq> MAbort"
    using few_timeouts_quiet winv_quiet unfolding winv_def by blast
  let ?lose = "[WorkerMove, WaitReturns True, WorkerMove, WorkerMove, Submit ''b'', MainMove, MainMove, MainMove,
      WorkerMove, WorkerMove]"
  have "timeouts 1 ?lose" "\<exists>s. wrun ?lose (waiting 300) = Some s \<and> ws_sent s = ws_done s @ [''b''] \<and> ws_pc s = WOff \<and>
      ws_main s = MIdle \<and> \<not> ws_event s \<and> \<not> ws_idle s \<and> \<not> ws_stop s"
    by (simp_all add: timeouts_def acquire_def give_up_def waiting_def)
  then show "\<exists>ls s p. timeouts 301 ls \<and> wrun ls ws_init = Some s \<and> ws_sent s = ws_done s @ [p] \<and> ws_pc s = WOff \<and>
      ws_main s = MIdle \<and> \<not> ws_event s \<and> \<not> ws_idle s \<and> \<not> ws_stop s"
    using after_waiting by metis
  let ?abort = "[WorkerMove, WaitReturns True, WorkerMove, WorkerMove, WorkerMove, Submit ''b'', MainMove]"
  have "timeouts 1 ?abort" "\<exists>s. wrun ?abort (waiting 300) = Some s \<and> ws_main s = MAbort \<and> \<not> ws_stop s"
    by (simp_all add: timeouts_def acquire_def give_up_def waiting_def)
  then show "\<exists>ls s. timeouts 301 ls \<and> wrun ls ws_init = Some s \<and> ws_main s = MAbort \<and> \<not> ws_stop s"
    using after_waiting by metis
qed

theorem worker_timeout_race_witness:
  "\<exists>ls s. timeouts 300 ls \<and> wrun ls ws_init = Some s \<and> ws_pc s = WTest 300 \<and> ws_sent s = ws_done s @ in_flight s"
proof -
  obtain ls where "timeouts 300 ls" "wrun ls ws_init = Some (waiting 300)" using waiting_run [of 300] by auto
  moreover from this have "ws_sent (waiting 300) = ws_done (waiting 300) @ in_flight (waiting 300)"
    using conjunct1 [OF worker_timeout_race] by blast
  ultimately show ?thesis by (intro exI [of _ ls] exI [of _ "waiting 300"]) (simp add: waiting_def)
qed

end
