(* ===== verification/Event_Logger.thy ===== *)
theory Event_Logger
  imports Gw_Prelude
begin

text \<open>
  The logger thread (\<open>core/event_logger.c\<close>) beside the main thread that starts it (\<open>init_logger_thread\<close> of
  \<open>core/server.c\<close>), as interleaved steps.  Both use \<open>log_lock\<close> and \<open>log_cond\<close>, and \<open>online_thread\<close> without the
  lock.  The signal handler is installed before the logger is started, so that \<open>stop_el\<close> can become true at any time.
\<close>

section \<open>States and steps\<close>

datatype starter_pc =
    SCreate            (* before pthread_create *)
  | SLock              (* before the lock *)
  | STest              (* holding the lock, at the loop test *)
  | SWait              (* in pthread_cond_wait, lock released *)
  | SWoken             (* woken, before it has the lock again *)
  | SUnlock            (* holding the lock, loop left *)
  | SDone
  | SFailed

datatype logger_pc =
    LOff
  | LCount             (* before atomic_fetch_add *)
  | LLock              (* before the first lock *)
  | LSignal            (* holding the lock *)
  | LUnlock            (* holding the lock, signalled *)
  | LAgain             (* at again *)
  | LEnter             (* holding the lock, before the wait *)
  | LWait              (* waiting, lock released *)
  | LWoken             (* woken or timed out, before it has the lock again *)
  | LLeave             (* holding the lock, after the wait *)
  | LTest              (* at the test of stop_el *)
  | LCountDown         (* before atomic_fetch_sub *)
  | LExit

datatype log_owner = Starter | Logger

record lsys =
  ls_starter :: starter_pc
  ls_logger :: logger_pc
  ls_owner :: "log_owner option"
  ls_online :: u32
  ls_old :: u32
  ls_stop :: bool

definition ls_init :: "u32 \<Rightarrow> lsys" where
  "ls_init n = \<lparr> ls_starter = SCreate, ls_logger = LOff, ls_owner = None, ls_online = n, ls_old = 0, ls_stop = False \<rparr>"

definition take_lock :: "log_owner \<Rightarrow> lsys \<Rightarrow> lsys option" where
  "take_lock who s = (if ls_owner s = None then Some (s\<lparr> ls_owner := Some who \<rparr>) else None)"

text \<open>\<open>None\<close> when the thread cannot move.  \<open>err\<close> is what \<open>pthread_create\<close> returns.\<close>

definition starter_move :: "int \<Rightarrow> lsys \<Rightarrow> lsys option" where
  "starter_move err s =
     (case ls_starter s of
        SCreate \<Rightarrow>
          if err \<noteq> 0 then Some (s\<lparr> ls_old := ls_online s, ls_starter := SFailed \<rparr>)
          else Some (s\<lparr> ls_old := ls_online s, ls_starter := SLock, ls_logger := LCount \<rparr>)
      | SLock \<Rightarrow> map_option (\<lambda>s. s\<lparr> ls_starter := STest \<rparr>) (take_lock Starter s)
      | STest \<Rightarrow>
          if ls_online s = ls_old s then Some (s\<lparr> ls_starter := SWait, ls_owner := None \<rparr>)
          else Some (s\<lparr> ls_starter := SUnlock \<rparr>)
      | SWait \<Rightarrow> None
      | SWoken \<Rightarrow> map_option (\<lambda>s. s\<lparr> ls_starter := STest \<rparr>) (take_lock Starter s)
      | SUnlock \<Rightarrow> Some (s\<lparr> ls_starter := SDone, ls_owner := None \<rparr>)
      | SDone \<Rightarrow> None
      | SFailed \<Rightarrow> None)"

text \<open>\<open>time_ok\<close> says whether \<open>gettimeofday\<close> works; without it the logger does not wait.\<close>

definition gw_event_logger :: "bool \<Rightarrow> lsys \<Rightarrow> lsys option" where
  "gw_event_logger time_ok s =
     (case ls_logger s of
        LOff \<Rightarrow> None
      | LCount \<Rightarrow> Some (s\<lparr> ls_online := ls_online s + 1, ls_logger := LLock \<rparr>)
      | LLock \<Rightarrow> map_option (\<lambda>s. s\<lparr> ls_logger := LSignal \<rparr>) (take_lock Logger s)
      | LSignal \<Rightarrow> Some (s\<lparr> ls_starter := (if ls_starter s = SWait then SWoken else ls_starter s), ls_logger := LUnlock \<rparr>)
      | LUnlock \<Rightarrow> Some (s\<lparr> ls_owner := None, ls_logger := LAgain \<rparr>)
      | LAgain \<Rightarrow> map_option (\<lambda>s. s\<lparr> ls_logger := LEnter \<rparr>) (take_lock Logger s)
      | LEnter \<Rightarrow>
          if time_ok then Some (s\<lparr> ls_owner := None, ls_logger := LWait \<rparr>) else Some (s\<lparr> ls_logger := LLeave \<rparr>)
      | LWait \<Rightarrow> None
      | LWoken \<Rightarrow> map_option (\<lambda>s. s\<lparr> ls_logger := LLeave \<rparr>) (take_lock Logger s)
      | LLeave \<Rightarrow> Some (s\<lparr> ls_owner := None, ls_logger := LTest \<rparr>)
      | LTest \<Rightarrow> if ls_stop s then Some (s\<lparr> ls_logger := LCountDown \<rparr>) else Some (s\<lparr> ls_logger := LAgain \<rparr>)
      | LCountDown \<Rightarrow> Some (s\<lparr> ls_online := ls_online s - 1, ls_logger := LExit \<rparr>)
      | LExit \<Rightarrow> None)"

text \<open>A wait may return without a signal; that of the logger has a time limit of one second.\<close>

definition starter_wakes :: "lsys \<Rightarrow> lsys option" where
  "starter_wakes s = (if ls_starter s = SWait then Some (s\<lparr> ls_starter := SWoken \<rparr>) else None)"

definition logger_wakes :: "lsys \<Rightarrow> lsys option" where
  "logger_wakes s = (if ls_logger s = LWait then Some (s\<lparr> ls_logger := LWoken \<rparr>) else None)"

datatype llabel = StarterMove int | LoggerMove bool | StarterWakes | LoggerWakes | SignalStop

fun lnext :: "llabel \<Rightarrow> lsys \<Rightarrow> lsys option" where
  "lnext (StarterMove err) s = starter_move err s"
| "lnext (LoggerMove time_ok) s = gw_event_logger time_ok s"
| "lnext StarterWakes s = starter_wakes s"
| "lnext LoggerWakes s = logger_wakes s"
| "lnext SignalStop s = Some (s\<lparr> ls_stop := True \<rparr>)"

inductive lreach :: "lsys \<Rightarrow> bool" where
  init: "lreach (ls_init n)"
| step: "lreach s \<Longrightarrow> lnext l s = Some s' \<Longrightarrow> lreach s'"

fun lrun :: "llabel list \<Rightarrow> lsys \<Rightarrow> lsys option" where
  "lrun [] s = Some s"
| "lrun (l # ls) s = (case lnext l s of None \<Rightarrow> None | Some s' \<Rightarrow> lrun ls s')"

lemma lrun_reach: "lreach s \<Longrightarrow> lrun ls s = Some s' \<Longrightarrow> lreach s'"
  by (induction ls arbitrary: s) (auto split: option.splits intro: lreach.step)

section \<open>The invariant\<close>

definition s_holds :: "starter_pc \<Rightarrow> bool" where "s_holds pc \<longleftrightarrow> pc = STest \<or> pc = SUnlock"
definition l_holds :: "logger_pc \<Rightarrow> bool" where
  "l_holds pc \<longleftrightarrow> pc = LSignal \<or> pc = LUnlock \<or> pc = LEnter \<or> pc = LLeave"
definition not_started :: "starter_pc \<Rightarrow> bool" where "not_started pc \<longleftrightarrow> pc = SCreate \<or> pc = SFailed"
definition left_loop :: "starter_pc \<Rightarrow> bool" where "left_loop pc \<longleftrightarrow> pc = SUnlock \<or> pc = SDone"
definition counted :: "logger_pc \<Rightarrow> bool" where "counted pc \<longleftrightarrow> pc \<noteq> LOff \<and> pc \<noteq> LCount \<and> pc \<noteq> LExit"
definition will_signal :: "logger_pc \<Rightarrow> bool" where "will_signal pc \<longleftrightarrow> pc = LCount \<or> pc = LLock \<or> pc = LSignal"
definition leaving :: "logger_pc \<Rightarrow> bool" where "leaving pc \<longleftrightarrow> pc = LCountDown \<or> pc = LExit"

lemmas pc_defs = s_holds_def l_holds_def not_started_def left_loop_def counted_def will_signal_def leaving_def

text \<open>
  Who holds the lock is where he may hold it; the counter is one higher while the logger counts; a
  main thread that sleeps will be signalled, unless a stop was requested.
\<close>

definition lock_ok :: "lsys \<Rightarrow> bool" where
  "lock_ok s \<longleftrightarrow> \<not> (s_holds (ls_starter s) \<and> l_holds (ls_logger s)) \<and>
     ls_owner s = (if s_holds (ls_starter s) then Some Starter else if l_holds (ls_logger s) then Some Logger else None)"

definition count_ok :: "lsys \<Rightarrow> bool" where
  "count_ok s \<longleftrightarrow> (ls_logger s = LOff) = not_started (ls_starter s) \<and>
     (ls_starter s \<noteq> SCreate \<longrightarrow> ls_online s = ls_old s + (if counted (ls_logger s) then 1 else 0))"

definition wake_ok :: "lsys \<Rightarrow> bool" where
  "wake_ok s \<longleftrightarrow> (leaving (ls_logger s) \<longrightarrow> ls_stop s) \<and>
     (ls_starter s = SWait \<and> \<not> ls_stop s \<longrightarrow> will_signal (ls_logger s)) \<and>
     (left_loop (ls_starter s) \<longrightarrow> ls_logger s \<noteq> LCount)"

definition linv :: "lsys \<Rightarrow> bool" where
  "linv s \<longleftrightarrow> lock_ok s \<and> count_ok s \<and> wake_ok s"

lemmas inv_defs = linv_def lock_ok_def count_ok_def wake_ok_def

lemma starter_move_inv: "linv s \<Longrightarrow> starter_move err s = Some s' \<Longrightarrow> linv s'"
  by (cases "ls_starter s"; cases "ls_logger s")
    (simp_all add: inv_defs pc_defs starter_move_def take_lock_def split: if_splits, (clarify; simp)+)

lemma logger_move_inv: "linv s \<Longrightarrow> gw_event_logger time_ok s = Some s' \<Longrightarrow> linv s'"
  by (cases "ls_logger s"; cases "ls_starter s")
    (simp_all add: inv_defs pc_defs gw_event_logger_def take_lock_def split: if_splits, (clarify; simp)+)

lemma stop_inv: "linv s \<Longrightarrow> linv (s\<lparr> ls_stop := True \<rparr>)"
  by (simp add: inv_defs)

lemma lnext_inv: "linv s \<Longrightarrow> lnext l s = Some s' \<Longrightarrow> linv s'"
proof (cases l)
  case StarterWakes
  then show "linv s \<Longrightarrow> lnext l s = Some s' \<Longrightarrow> linv s'"
    by (cases "ls_logger s"; cases "ls_starter s") (simp_all add: inv_defs pc_defs starter_wakes_def, (clarify; simp)+)
next
  case LoggerWakes
  then show "linv s \<Longrightarrow> lnext l s = Some s' \<Longrightarrow> linv s'"
    by (cases "ls_logger s"; cases "ls_starter s") (simp_all add: inv_defs pc_defs logger_wakes_def, (clarify; simp)+)
next
  case SignalStop
  then show "linv s \<Longrightarrow> lnext l s = Some s' \<Longrightarrow> linv s'" using stop_inv [of s] by fastforce
qed (auto intro: starter_move_inv logger_move_inv)

lemma lreach_inv: "lreach s \<Longrightarrow> linv s"
proof (induction rule: lreach.induct)
  case (init n)
  show ?case by (simp add: inv_defs pc_defs ls_init_def)
next
  case (step s l s')
  then show ?case by (blast intro: lnext_inv)
qed

section \<open>The start\<close>

text \<open>
  A bound on the moves that are left until the main thread goes on: first those of the logger up to its signal, then those
  of the main thread, and the release of the lock.
\<close>

fun until_signal :: "logger_pc \<Rightarrow> nat" where
  "until_signal LOff = 4"
| "until_signal LCount = 3"
| "until_signal LLock = 2"
| "until_signal LSignal = 1"
| "until_signal _ = 0"

fun until_done :: "starter_pc \<Rightarrow> nat" where
  "until_done SCreate = 7"
| "until_done SLock = 6"
| "until_done SWoken = 6"
| "until_done STest = 5"
| "until_done SWait = 2"
| "until_done SUnlock = 1"
| "until_done _ = 0"

definition start_rank :: "lsys \<Rightarrow> nat" where
  "start_rank s = 20 * until_signal (ls_logger s) + 2 * until_done (ls_starter s) + (if l_holds (ls_logger s) then 1 else 0)"

definition moves :: "llabel set" where
  "moves = {StarterMove 0, LoggerMove True}"

lemma start_progress:
  assumes "linv s" "\<not> ls_stop s" "ls_starter s \<noteq> SDone" "ls_starter s \<noteq> SFailed"
  shows "\<exists>l \<in> moves. \<exists>s'. lnext l s = Some s' \<and> start_rank s' < start_rank s \<and> \<not> ls_stop s' \<and> ls_starter s' \<noteq> SFailed"
proof (cases "starter_move 0 s")
  case (Some s')
  then have "start_rank s' < start_rank s \<and> \<not> ls_stop s' \<and> ls_starter s' \<noteq> SFailed" using assms
    by (cases "ls_starter s"; cases "ls_logger s")
      (auto simp: inv_defs pc_defs starter_move_def take_lock_def start_rank_def split: if_splits)
  then show ?thesis using Some by (auto simp: moves_def)
next
  case None
  then have "\<exists>s'. gw_event_logger True s = Some s' \<and> start_rank s' < start_rank s \<and> \<not> ls_stop s' \<and> ls_starter s' \<noteq> SFailed" using assms
    by (cases "ls_starter s"; cases "ls_logger s")
      (auto simp: inv_defs pc_defs starter_move_def gw_event_logger_def take_lock_def start_rank_def split: if_splits)
  then show ?thesis by (auto simp: moves_def)
qed

lemma start_run:
  assumes "linv s" "\<not> ls_stop s" "ls_starter s \<noteq> SFailed"
  shows "\<exists>ls s'. set ls \<subseteq> moves \<and> length ls \<le> start_rank s \<and> lrun ls s = Some s' \<and> ls_starter s' = SDone \<and> \<not> ls_stop s'"
  using assms
proof (induction "start_rank s" arbitrary: s rule: less_induct)
  case less
  show ?case
  proof (cases "ls_starter s = SDone")
    case True
    then show ?thesis using less.prems(2) by (intro exI [of _ "[]"] exI [of _ s]) simp
  next
    case False
    then obtain l s1 where l: "l \<in> moves" "lnext l s = Some s1" "start_rank s1 < start_rank s" "\<not> ls_stop s1" "ls_starter s1 \<noteq> SFailed"
      using start_progress [OF less.prems(1,2) _ less.prems(3)] by blast
    from less.hyps [OF l(3) lnext_inv [OF less.prems(1) l(2)] l(4,5)] obtain ls s'
      where "set ls \<subseteq> moves" "length ls \<le> start_rank s1" "lrun ls s1 = Some s'" "ls_starter s' = SDone" "\<not> ls_stop s'" by blast
    then show ?thesis using l by (intro exI [of _ "l # ls"] exI [of _ s']) auto
  qed
qed

text \<open>
  C23. Starting the logger cannot hang: in every state that the two threads can reach, with whatever interleaving and whatever
  wake-ups of a waiting thread, as long as no stop is requested and the thread was created, at most 94 further moves of the
  two threads, none of which is a wake-up without a signal, bring the main thread to the end of
  \<open>init_logger_thread\<close>; and whenever it gets there, the logger has been counted exactly once.
\<close>

theorem logger_start_completes:
  assumes "lreach s" and "\<not> ls_stop s" and "ls_starter s \<noteq> SFailed"
  shows "(\<exists>ls s'. set ls \<subseteq> moves \<and> length ls \<le> 94 \<and> lrun ls s = Some s' \<and> ls_starter s' = SDone) \<and>
     (ls_starter s = SDone \<longrightarrow> ls_online s = ls_old s + 1)"
proof
  have inv: "linv s" by (rule lreach_inv [OF assms(1)])
  have "start_rank s \<le> 94"
    by (cases "ls_logger s"; cases "ls_starter s") (simp_all add: start_rank_def l_holds_def)
  then show "\<exists>ls s'. set ls \<subseteq> moves \<and> length ls \<le> 94 \<and> lrun ls s = Some s' \<and> ls_starter s' = SDone"
    using start_run [OF inv assms(2,3)] by (meson order_trans)
  show "ls_starter s = SDone \<longrightarrow> ls_online s = ls_old s + 1"
    using inv assms(2) by (cases "ls_logger s") (auto simp: inv_defs pc_defs)
qed

theorem logger_start_completes_witness:
  "\<exists>ls s'. set ls \<subseteq> moves \<and> length ls \<le> 94 \<and> lrun ls (ls_init 0) = Some s' \<and> ls_starter s' = SDone"
  using logger_start_completes [OF lreach.init [of 0]] by (simp add: ls_init_def)

text \<open>
  A stop that is requested too early can hang the start: the logger counts itself, signals before the main thread waits, sees the
  request and takes itself off the counter again; the main thread then finds the counter unchanged and waits for
  a signal that will not come.
\<close>

lemma early_stop_hangs:
  "\<exists>s. lreach s \<and> ls_starter s = SWait \<and> (\<forall>ls s'. StarterWakes \<notin> set ls \<longrightarrow> lrun ls s = Some s' \<longrightarrow> ls_starter s' = SWait)"
proof -
  let ?run = "[StarterMove 0] @ replicate 4 (LoggerMove True) @ [SignalStop] @ replicate 2 (LoggerMove True) @ [LoggerWakes] @
    replicate 4 (LoggerMove True) @ [StarterMove 0, StarterMove 0]"
  let ?s = "\<lparr> ls_starter = SWait, ls_logger = LExit, ls_owner = None, ls_online = 0, ls_old = 0, ls_stop = True \<rparr>"
  have "lrun ?run (ls_init 0) = Some ?s"
    by (simp add: ls_init_def starter_move_def gw_event_logger_def take_lock_def logger_wakes_def numeral_eq_Suc)
  then have "lreach ?s" by (rule lrun_reach [OF lreach.init])
  moreover have "ls_starter s' = SWait" if "StarterWakes \<notin> set ls" "lrun ls s = Some s'" "ls_starter s = SWait" "ls_logger s = LExit" for ls s s'
    using that
  proof (induction ls arbitrary: s)
    case (Cons l ls)
    then show ?case
      by (cases l) (auto simp: starter_move_def gw_event_logger_def logger_wakes_def split: option.splits)
  qed simp
  ultimately show ?thesis by (intro exI [of _ ?s]) auto
qed

section \<open>The end\<close>

fun until_exit :: "logger_pc \<Rightarrow> nat" where
  "until_exit LCount = 12"
| "until_exit LLock = 11"
| "until_exit LSignal = 10"
| "until_exit LUnlock = 9"
| "until_exit LAgain = 8"
| "until_exit LEnter = 7"
| "until_exit LWait = 6"
| "until_exit LWoken = 5"
| "until_exit LLeave = 4"
| "until_exit LTest = 3"
| "until_exit LCountDown = 2"
| "until_exit _ = 0"

lemma stop_progress:
  assumes "linv s" "ls_stop s" "ls_starter s = SDone" "ls_logger s \<noteq> LExit"
  shows "\<exists>l \<in> {LoggerMove True, LoggerWakes}. \<exists>s'. lnext l s = Some s' \<and> until_exit (ls_logger s') < until_exit (ls_logger s) \<and>
     ls_stop s' \<and> ls_starter s' = SDone"
  using assms
  by (cases "ls_logger s") (auto simp: inv_defs pc_defs gw_event_logger_def logger_wakes_def take_lock_def)

text \<open>A stop that is requested after the start ends the logger, which leaves the counter as it found it.\<close>

lemma logger_stops:
  assumes "linv s" "ls_stop s" "ls_starter s = SDone"
  shows "\<exists>ls s'. set ls \<subseteq> {LoggerMove True, LoggerWakes} \<and> lrun ls s = Some s' \<and> ls_logger s' = LExit \<and> ls_online s' = ls_old s'"
  using assms
proof (induction "until_exit (ls_logger s)" arbitrary: s rule: less_induct)
  case less
  show ?case
  proof (cases "ls_logger s = LExit")
    case True
    then show ?thesis using less.prems by (intro exI [of _ "[]"] exI [of _ s]) (auto simp: inv_defs pc_defs)
  next
    case False
    then obtain l s1 where l: "l \<in> {LoggerMove True, LoggerWakes}" "lnext l s = Some s1"
        "until_exit (ls_logger s1) < until_exit (ls_logger s)" "ls_stop s1" "ls_starter s1 = SDone"
      using stop_progress [OF less.prems] by blast
    from less.hyps [OF l(3) lnext_inv [OF less.prems(1) l(2)] l(4,5)] obtain ls s'
      where "set ls \<subseteq> {LoggerMove True, LoggerWakes}" "lrun ls s1 = Some s'" "ls_logger s' = LExit" "ls_online s' = ls_old s'" by blast
    then show ?thesis using l(1,2) by (intro exI [of _ "l # ls"] exI [of _ s']) auto
  qed
qed

end
