(* ===== verification/Shell.thy ===== *)
theory Shell
  imports Gw_Prelude
begin

text \<open>
  \<open>lib/shell.c\<close>: the output of a command in a buffer.  What \<open>popen\<close> and the pipe deliver is data of
  the environment: \<open>None\<close> when the command cannot be started, its output otherwise.
\<close>

record shell_env =
  sh_malloc :: bool
  sh_popen :: "bytes \<Rightarrow> bytes option"
  sh_junk :: "nat \<Rightarrow> char"

text \<open>
  \<open>buf\<close> is the caller's buffer, \<open>None\<close> for \<open>NULL\<close>.  The result is the buffer and \<open>*outlen\<close>, or \<open>None\<close>
  for \<open>NULL\<close>.
\<close>

definition shell_exec :: "shell_env \<Rightarrow> bytes \<Rightarrow> bytes option \<Rightarrow> nat \<Rightarrow> (bytes \<times> nat) option res" where
  "shell_exec env cmd buf buflen =
     (if buf = None \<and> \<not> sh_malloc env then Inr None
      else case sh_popen env (cstr cmd) of
        None \<Rightarrow> Inr None
      | Some out \<Rightarrow>
          let mem = (case buf of None \<Rightarrow> map (sh_junk env) [0..<buflen] | Some b \<Rightarrow> b)
          in ebind (buf_put mem 0 (replicate buflen NUL)) (\<lambda>mem.
             ebind (buf_put mem 0 (take buflen out)) (\<lambda>mem.
             Inr (Some (mem, length (take buflen out))))))"

text \<open>
  The buffer starts with the output, cut at its size, and is cleared after it; a buffer smaller than announced is
  overrun.  The result is a C string exactly when the output is shorter than the buffer.
\<close>

lemma shell_exec_output:
  assumes "sh_popen env (cstr cmd) = Some out" and "buf = Some b \<or> buf = None \<and> sh_malloc env"
    and "buf = Some b \<longrightarrow> buflen \<le> length b"
  shows "\<exists>mem. shell_exec env cmd buf buflen = Inr (Some (mem, min (length out) buflen)) \<and>
     take buflen mem = take buflen out @ replicate (buflen - length out) NUL \<and>
     (NUL \<notin> set out \<longrightarrow> (NUL \<in> set (take buflen mem) \<longleftrightarrow> length out < buflen))"
  using assms
  by (auto simp: shell_exec_def buf_put_def Let_def min_def not_le dest: in_set_takeD)

lemma shell_exec_overrun:
  "sh_popen env (cstr cmd) = Some out \<Longrightarrow> length b < buflen \<Longrightarrow> shell_exec env cmd (Some b) buflen = Inl OutOfBounds"
  by (simp add: shell_exec_def buf_put_def Let_def)

end
