(* ===== verification/Tg_Event.thy ===== *)
theory Tg_Event
  imports Json_Safe Gw_String
begin

text \<open>
  The Telegram events of \<open>lib/tg_event.c\<close>, \<open>lib/tg_event.h\<close> and the headers below
  \<open>lib/tg_event/\<close>: the structures, the parsers that fill them from a JSON document, the
  accessors and the release of an event.  The memory that the parsers allocate is explicit.
  A parser returns its code together with what it has written, because the callers go on
  with a partly filled event: \<open>parse_message_json_obj\<close> ignores the code of
  \<open>parse_event_unknown\<close>, and an event that failed is released.  The pointer to the event itself is
  never null: every caller passes the address of a variable of its own or of a block it has just cleared.
\<close>

section \<open>Memory\<close>

text \<open>
  The blocks that are allocated, by number; \<open>mm_ok n\<close> tells whether the \<open>n\<close>-th allocation
  succeeds.  \<open>mm_json\<close> counts the JSON documents that have not been put back.
\<close>

record mem =
  mm_next :: nat
  mm_live :: "nat set"
  mm_ok :: "nat \<Rightarrow> bool"
  mm_json :: nat

definition mem_alloc :: "mem \<Rightarrow> nat option \<times> mem" where
  "mem_alloc m =
     (if mm_ok m (mm_next m)
      then (Some (mm_next m), m\<lparr> mm_next := Suc (mm_next m), mm_live := insert (mm_next m) (mm_live m) \<rparr>)
      else (None, m\<lparr> mm_next := Suc (mm_next m) \<rparr>))"

definition mem_free :: "nat option \<Rightarrow> mem \<Rightarrow> mem res" where
  "mem_free p m =
     (case p of
        None \<Rightarrow> Inr m
      | Some a \<Rightarrow> if a \<in> mm_live m then Inr (m\<lparr> mm_live := mm_live m - {a} \<rparr>) else Inl UseAfterFree)"

section \<open>Structures\<close>

record tgevi_file =
  fi_file_name :: "bytes option"
  fi_file_id :: "bytes option"
  fi_file_unique_id :: "bytes option"
  fi_mime_type :: "bytes option"
  fi_file_size :: u64
  fi_width :: u16
  fi_height :: u16

record tgevi_media =
  md_file_id :: "bytes option"
  md_file_name :: "bytes option"
  md_mime_type :: "bytes option"
  md_title :: "bytes option"
  md_performer :: "bytes option"
  md_file_unique_id :: "bytes option"
  md_file_size :: u64
  md_duration :: u32
  md_width :: u16
  md_height :: u16
  md_thumb :: tgevi_file

record tgevi_from =
  fr_id :: u64
  fr_first_name :: "bytes option"
  fr_last_name :: "bytes option"
  fr_username :: "bytes option"
  fr_lang :: bytes
  fr_is_bot :: bool

text \<open>\<open>ChatZero\<close> is the value 0 of zeroed memory, which is none of the three types.\<close>

datatype tgev_chat_type = ChatZero | TGEV_CHAT_GROUP | TGEV_CHAT_SUPERGROUP | TGEV_CHAT_PRIVATE

record tgevi_chat =
  ct_id :: u64
  ct_title :: "bytes option"
  ct_username :: "bytes option"
  ct_first_name :: "bytes option"
  ct_last_name :: "bytes option"
  ct_type :: tgev_chat_type
  ct_all_admins :: bool

record tgevi_entity =
  en_offset :: u16
  en_length :: u16
  en_type :: "bytes option"

record tgevi_sticker =
  sk_width :: u16
  sk_height :: u16
  sk_emoji :: bytes
  sk_set_name :: "bytes option"
  sk_thumb :: tgevi_file
  sk_is_animated :: bool
  sk_file_id :: "bytes option"
  sk_file_unique_id :: "bytes option"
  sk_file_size :: u64

text \<open>A pointer to an array on the heap: the block and what it holds.\<close>

type_synonym 'a block = "(nat \<times> 'a list) option"

text \<open>The members that all five message structures have, then each structure.\<close>

record tgev_common =
  tc_msg_id :: u64
  tc_from :: tgevi_from
  tc_forward_from :: tgevi_from
  tc_fwd_sender_name :: "bytes option"
  tc_chat :: tgevi_chat
  tc_sender_chat :: tgevi_chat
  tc_date :: u64
  tc_forward_date :: u64
  tc_is_forwarded :: bool
  tc_is_unknown_fwd :: bool

record tgev_text = tgev_common +
  tx_text :: "bytes option"
  tx_entity_c :: u16
  tx_entities :: "tgevi_entity block"

record tgev_photo = tgev_common +
  ph_photo_c :: u16
  ph_photo :: "tgevi_file block"
  ph_caption :: "bytes option"
  ph_entity_c :: u16
  ph_entities :: "tgevi_entity block"

record tgev_sticker = tgev_common +
  es_sticker :: tgevi_sticker

record tgev_gif = tgev_common +
  gf_animation :: tgevi_media
  gf_document :: tgevi_file
  gf_caption :: "bytes option"
  gf_entity_c :: u16
  gf_entities :: "tgevi_entity block"

record tgev_unknown = tgev_common +
  uk_entity_c :: u16
  uk_entities :: "tgevi_entity block"

text \<open>
  \<open>struct tgev\<close>: the union and the type that selects its member are one datatype, \<open>NoMsg\<close>
  being the zeroed structure.  \<open>reply_to\<close> is a pointer to an event of its own.
\<close>

datatype tgev =
  Tgev (ev_json: "json") (ev_update_id: u64) (ev_replied: bool) (ev_msg: "tgev_msg")
and tgev_msg =
    NoMsg
  | MsgUnknown tgev_unknown "reply"
  | MsgText tgev_text "reply"
  | MsgPhoto tgev_photo "reply"
  | MsgSticker tgev_sticker "reply"
  | MsgGif tgev_gif "reply"
and reply = NullReply | Reply nat "tgev"

abbreviation (input) TGEV_UNKNOWN :: u64 where "TGEV_UNKNOWN \<equiv> 1"
abbreviation (input) TGEV_TEXT :: u64 where "TGEV_TEXT \<equiv> 2"
abbreviation (input) TGEV_PHOTO :: u64 where "TGEV_PHOTO \<equiv> 4"
abbreviation (input) TGEV_STICKER :: u64 where "TGEV_STICKER \<equiv> 8"
abbreviation (input) TGEV_GIF :: u64 where "TGEV_GIF \<equiv> 16"

fun msg_type :: "tgev_msg \<Rightarrow> u64" where
  "msg_type NoMsg = 0"
| "msg_type (MsgUnknown u r) = TGEV_UNKNOWN"
| "msg_type (MsgText t r) = TGEV_TEXT"
| "msg_type (MsgPhoto p r) = TGEV_PHOTO"
| "msg_type (MsgSticker s r) = TGEV_STICKER"
| "msg_type (MsgGif g r) = TGEV_GIF"

definition ev_type :: "tgev \<Rightarrow> u64" where
  "ev_type evt = msg_type (ev_msg evt)"

text \<open>Zeroed memory.\<close>

definition zero_file :: tgevi_file where
  "zero_file = \<lparr> fi_file_name = None, fi_file_id = None, fi_file_unique_id = None, fi_mime_type = None,
     fi_file_size = 0, fi_width = 0, fi_height = 0 \<rparr>"

definition zero_media :: tgevi_media where
  "zero_media = \<lparr> md_file_id = None, md_file_name = None, md_mime_type = None, md_title = None,
     md_performer = None, md_file_unique_id = None, md_file_size = 0, md_duration = 0, md_width = 0,
     md_height = 0, md_thumb = zero_file \<rparr>"

definition zero_from :: tgevi_from where
  "zero_from = \<lparr> fr_id = 0, fr_first_name = None, fr_last_name = None, fr_username = None,
     fr_lang = replicate 4 NUL, fr_is_bot = False \<rparr>"

definition zero_chat :: tgevi_chat where
  "zero_chat = \<lparr> ct_id = 0, ct_title = None, ct_username = None, ct_first_name = None, ct_last_name = None,
     ct_type = ChatZero, ct_all_admins = False \<rparr>"

definition zero_entity :: tgevi_entity where
  "zero_entity = \<lparr> en_offset = 0, en_length = 0, en_type = None \<rparr>"

definition zero_sticker :: tgevi_sticker where
  "zero_sticker = \<lparr> sk_width = 0, sk_height = 0, sk_emoji = replicate 6 NUL, sk_set_name = None,
     sk_thumb = zero_file, sk_is_animated = False, sk_file_id = None, sk_file_unique_id = None,
     sk_file_size = 0 \<rparr>"

definition zero_common :: tgev_common where
  "zero_common = \<lparr> tc_msg_id = 0, tc_from = zero_from, tc_forward_from = zero_from,
     tc_fwd_sender_name = None, tc_chat = zero_chat, tc_sender_chat = zero_chat, tc_date = 0,
     tc_forward_date = 0, tc_is_forwarded = False, tc_is_unknown_fwd = False \<rparr>"

definition zero_text :: tgev_text where
  "zero_text = tgev_common.extend zero_common (tgev_text.fields None 0 None)"

definition zero_photo :: tgev_photo where
  "zero_photo = tgev_common.extend zero_common (tgev_photo.fields 0 None None 0 None)"

definition zero_stk :: tgev_sticker where
  "zero_stk = tgev_common.extend zero_common (tgev_sticker.fields zero_sticker)"

definition zero_gif :: tgev_gif where
  "zero_gif = tgev_common.extend zero_common (tgev_gif.fields zero_media zero_file None 0 None)"

definition zero_unknown :: tgev_unknown where
  "zero_unknown = tgev_common.extend zero_common (tgev_unknown.fields 0 None)"

section \<open>Parsers of the parts\<close>

text \<open>The two ways in which the parsers read a member: it is required, or it may be missing.\<close>

definition req ::
  "json \<Rightarrow> bytes \<Rightarrow> 's \<Rightarrow> (json \<Rightarrow> (int \<times> 's) res) \<Rightarrow> (int \<times> 's) res" where
  "req j key s k =
     (case json_object_object_get_ex j key of None \<Rightarrow> Inr (- EINVAL, s) | Some r \<Rightarrow> k r)"

definition opt_string :: "json \<Rightarrow> bytes \<Rightarrow> bytes option" where
  "opt_string j key = (case json_object_object_get_ex j key of None \<Rightarrow> None | Some r \<Rightarrow> json_object_get_string r)"

text \<open>A sub-parser works on a part of the structure; \<open>if (unlikely(ret != 0)) return ret;\<close> follows.\<close>

definition sub_parse ::
  "(int \<times> 'p) res \<Rightarrow> ('p \<Rightarrow> 's) \<Rightarrow> ('s \<Rightarrow> (int \<times> 's) res) \<Rightarrow> (int \<times> 's) res" where
  "sub_parse r put k =
     ebind r (\<lambda>(ret, p). if ret \<noteq> 0 then Inr (ret, put p) else k (put p))"

definition parse_tgevi_file :: "json \<Rightarrow> tgevi_file \<Rightarrow> (int \<times> tgevi_file) res" where
  "parse_tgevi_file jfile file =
     (let file = file\<lparr> fi_file_name := opt_string jfile ''file_name'',
                       fi_mime_type := opt_string jfile ''mime_type'' \<rparr> in
      req jfile ''file_id'' file (\<lambda>r.
        let file = file\<lparr> fi_file_id := json_object_get_string r \<rparr> in
      req jfile ''file_unique_id'' file (\<lambda>r.
        let file = file\<lparr> fi_file_unique_id := json_object_get_string r \<rparr> in
      req jfile ''file_size'' file (\<lambda>r.
        let file = file\<lparr> fi_file_size := json_object_get_uint64 r \<rparr> in
      (case json_object_object_get_ex jfile ''width'' of
         None \<Rightarrow> Inr (0, file\<lparr> fi_width := 0, fi_height := 0 \<rparr>)
       | Some r \<Rightarrow>
           let file = file\<lparr> fi_width := ucast (json_object_get_uint64 r) \<rparr> in
           req jfile ''height'' file (\<lambda>r.
             Inr (0, file\<lparr> fi_height := ucast (json_object_get_uint64 r) \<rparr>)))))))"

text \<open>The thumbnail is read from \<open>jmdia\<close> itself, not from its member \<open>thumb\<close>.\<close>

definition parse_tgevi_media :: "json \<Rightarrow> tgevi_media \<Rightarrow> (int \<times> tgevi_media) res" where
  "parse_tgevi_media jmdia imdia =
     req jmdia ''file_name'' imdia (\<lambda>r.
       let imdia = imdia\<lparr> md_file_name := json_object_get_string r \<rparr> in
     req jmdia ''mime_type'' imdia (\<lambda>r.
       let imdia = imdia\<lparr> md_mime_type := json_object_get_string r,
             md_duration := (case json_object_object_get_ex jmdia ''duration'' of None \<Rightarrow> 0 | Some r \<Rightarrow> ucast (json_object_get_uint64 r)) \<rparr> in
     sub_parse
       (case json_object_object_get_ex jmdia ''width'' of
          None \<Rightarrow> Inr (0, imdia\<lparr> md_width := 0, md_height := 0 \<rparr>)
        | Some r \<Rightarrow>
            let imdia = imdia\<lparr> md_width := ucast (json_object_get_uint64 r) \<rparr> in
            req jmdia ''height'' imdia (\<lambda>r.
              Inr (0, imdia\<lparr> md_height := ucast (json_object_get_uint64 r) \<rparr>)))
       (\<lambda>imdia. imdia) (\<lambda>imdia.
       let imdia = imdia\<lparr> md_title := opt_string jmdia ''title'',
                          md_performer := opt_string jmdia ''performer'' \<rparr> in
     req jmdia ''file_id'' imdia (\<lambda>r.
       let imdia = imdia\<lparr> md_file_id := json_object_get_string r \<rparr> in
     req jmdia ''file_unique_id'' imdia (\<lambda>r.
       let imdia = imdia\<lparr> md_file_unique_id := json_object_get_string r \<rparr> in
     req jmdia ''file_size'' imdia (\<lambda>r.
       let imdia = imdia\<lparr> md_file_size := json_object_get_uint64 r \<rparr> in
     (case json_object_object_get_ex jmdia ''thumb'' of
        None \<Rightarrow> Inr (0, imdia)
      | Some r \<Rightarrow>
          sub_parse (parse_tgevi_file jmdia (md_thumb imdia)) (\<lambda>f. imdia\<lparr> md_thumb := f \<rparr>)
            (\<lambda>imdia. Inr (0, imdia)))))))))"

text \<open>One round of the loop over the entities: the first missing member ends the round.\<close>

definition parse_entity :: "json \<Rightarrow> tgevi_entity" where
  "parse_entity entity =
     (case json_object_object_get_ex entity ''offset'' of
        None \<Rightarrow> zero_entity
      | Some tmp \<Rightarrow>
          let e = zero_entity\<lparr> en_offset := ucast (json_object_get_uint64 tmp) \<rparr> in
          (case json_object_object_get_ex entity ''length'' of
             None \<Rightarrow> e
           | Some tmp \<Rightarrow>
               let e = e\<lparr> en_length := ucast (json_object_get_uint64 tmp) \<rparr> in
               (case json_object_object_get_ex entity ''type'' of
                  None \<Rightarrow> e
                | Some tmp \<Rightarrow> e\<lparr> en_type := json_object_get_string tmp \<rparr>)))"

fun map_res :: "('a \<Rightarrow> 'b res) \<Rightarrow> 'a list \<Rightarrow> 'b list res" where
  "map_res f [] = Inr []"
| "map_res f (x # xs) = ebind (f x) (\<lambda>y. ebind (map_res f xs) (\<lambda>ys. Inr (y # ys)))"

definition parse_tgevi_entities ::
  "json \<Rightarrow> u16 \<Rightarrow> mem \<Rightarrow> (int \<times> tgevi_entity block \<times> mem) res" where
  "parse_tgevi_entities jentities entity_c m =
     (case mem_alloc m of
        (None, m) \<Rightarrow> Inr (- ENOMEM, None, m)
      | (Some a, m) \<Rightarrow>
          ebind (map_res (\<lambda>i. ebind (json_object_array_get_idx jentities i) (\<lambda>entity. Inr (parse_entity entity)))
                   [0..<unat entity_c])
            (\<lambda>es. Inr (0, Some (a, es), m)))"

definition parse_tgevi_from :: "json \<Rightarrow> tgevi_from \<Rightarrow> (int \<times> tgevi_from) res" where
  "parse_tgevi_from jfrom from =
     req jfrom ''id'' from (\<lambda>r.
       let from = from\<lparr> fr_id := json_object_get_uint64 r \<rparr> in
     req jfrom ''first_name'' from (\<lambda>r.
       let from = from\<lparr> fr_first_name := json_object_get_string r,
                        fr_last_name := opt_string jfrom ''last_name'',
                        fr_username := opt_string jfrom ''username'' \<rparr> in
     ebind (case opt_string jfrom ''language_code'' of
              None \<Rightarrow> buf_set (fr_lang from) 0 NUL
            | Some lang \<Rightarrow> sane_strncpy (fr_lang from) lang 4) (\<lambda>lang.
       Inr (0, from\<lparr> fr_lang := lang,
         fr_is_bot := (case json_object_object_get_ex jfrom ''is_bot'' of None \<Rightarrow> False | Some r \<Rightarrow> json_object_get_boolean r) \<rparr>))))"

text \<open>\<open>switch (type[0])\<close>; an empty string has the null byte there.\<close>

definition chat_type :: "bytes \<Rightarrow> tgev_chat_type option" where
  "chat_type type =
     (case type of
        [] \<Rightarrow> None
      | c # _ \<Rightarrow>
          if c = CHR ''s'' then Some TGEV_CHAT_SUPERGROUP
          else if c = CHR ''g'' then Some TGEV_CHAT_GROUP
          else if c = CHR ''p'' then Some TGEV_CHAT_PRIVATE
          else None)"

text \<open>What is read of a private chat, and of a group or supergroup.\<close>

definition parse_chat_private :: "json \<Rightarrow> tgevi_chat \<Rightarrow> (int \<times> tgevi_chat) res" where
  "parse_chat_private jchat chat =
     (let chat = chat\<lparr> ct_title := None \<rparr> in
      req jchat ''first_name'' chat (\<lambda>r.
        Inr (0, chat\<lparr> ct_first_name := json_object_get_string r, ct_last_name := opt_string jchat ''last_name'' \<rparr>)))"

definition parse_chat_group :: "json \<Rightarrow> tgevi_chat \<Rightarrow> (int \<times> tgevi_chat) res" where
  "parse_chat_group jchat chat =
     sub_parse
       (if ct_type chat = TGEV_CHAT_GROUP
        then req jchat ''all_members_are_administrators'' chat (\<lambda>r.
               Inr (0, chat\<lparr> ct_all_admins := json_object_get_boolean r \<rparr>))
        else Inr (0, chat))
       (\<lambda>chat. chat) (\<lambda>chat.
     req jchat ''title'' chat (\<lambda>r. Inr (0, chat\<lparr> ct_title := json_object_get_string r \<rparr>)))"

definition parse_tgevi_chat :: "json \<Rightarrow> tgevi_chat \<Rightarrow> (int \<times> tgevi_chat) res" where
  "parse_tgevi_chat jchat chat =
     req jchat ''id'' chat (\<lambda>r.
       let chat = chat\<lparr> ct_id := json_object_get_int64 r \<rparr> in
     req jchat ''type'' chat (\<lambda>r.
     (case json_object_get_string r of
        None \<Rightarrow> Inr (- EINVAL, chat)
      | Some type \<Rightarrow>
          (case chat_type type of
             None \<Rightarrow> Inr (- EINVAL, chat)
           | Some ty \<Rightarrow>
               let chat = chat\<lparr> ct_type := ty \<rparr> in
               sub_parse
                 (if ty = TGEV_CHAT_PRIVATE then parse_chat_private jchat chat
                  else parse_chat_group jchat chat)
                 (\<lambda>chat. chat) (\<lambda>chat.
               Inr (0, chat\<lparr> ct_username := opt_string jchat ''username'' \<rparr>))))))"

section \<open>Parsers of the messages\<close>

text \<open>
  The part that \<open>parse_event_text\<close>, \<open>_photo\<close>, \<open>_sticker\<close>, \<open>_gif\<close> and \<open>_unknown\<close> have in
  common word for word: from \<open>message_id\<close> to \<open>date\<close>.
\<close>

definition parse_forward ::
  "json \<Rightarrow> 'a tgev_common_scheme \<Rightarrow> (int \<times> 'a tgev_common_scheme) res" where
  "parse_forward jmsg c =
     (case json_object_object_get_ex jmsg ''forward_from'' of
        None \<Rightarrow>
          (case json_object_object_get_ex jmsg ''forward_sender_name'' of
             None \<Rightarrow> Inr (0, c\<lparr> tc_forward_date := 0, tc_is_forwarded := False, tc_is_unknown_fwd := False,
                               tc_fwd_sender_name := None \<rparr>)
           | Some r \<Rightarrow> Inr (0, c\<lparr> tc_fwd_sender_name := json_object_get_string r, tc_is_forwarded := True,
                                 tc_is_unknown_fwd := True \<rparr>))
      | Some r \<Rightarrow>
          sub_parse (parse_tgevi_from r (tc_forward_from c)) (\<lambda>f. c\<lparr> tc_forward_from := f \<rparr>) (\<lambda>c.
            Inr (0, c\<lparr> tc_is_forwarded := True, tc_is_unknown_fwd := False, tc_fwd_sender_name := None \<rparr>)))"

definition parse_forward_date ::
  "json \<Rightarrow> 'a tgev_common_scheme \<Rightarrow> (int \<times> 'a tgev_common_scheme) res" where
  "parse_forward_date jmsg c =
     (if tc_is_forwarded c
      then req jmsg ''forward_date'' c (\<lambda>r. Inr (0, c\<lparr> tc_forward_date := json_object_get_int64 r \<rparr>))
      else Inr (0, c))"

definition parse_sender_chat ::
  "json \<Rightarrow> 'a tgev_common_scheme \<Rightarrow> (int \<times> 'a tgev_common_scheme) res" where
  "parse_sender_chat jmsg c =
     (case json_object_object_get_ex jmsg ''sender_chat'' of
        None \<Rightarrow> Inr (0, c)
      | Some r \<Rightarrow> sub_parse (parse_tgevi_chat r (tc_sender_chat c)) (\<lambda>s. c\<lparr> tc_sender_chat := s \<rparr>)
                    (\<lambda>c. Inr (0, c)))"

definition parse_tgev_common ::
  "json \<Rightarrow> 'a tgev_common_scheme \<Rightarrow> (int \<times> 'a tgev_common_scheme) res" where
  "parse_tgev_common jmsg c =
     req jmsg ''message_id'' c (\<lambda>r.
       let c = c\<lparr> tc_msg_id := json_object_get_uint64 r \<rparr> in
     req jmsg ''from'' c (\<lambda>r.
     sub_parse (parse_tgevi_from r (tc_from c)) (\<lambda>f. c\<lparr> tc_from := f \<rparr>) (\<lambda>c.
     sub_parse (parse_forward jmsg c) (\<lambda>c. c) (\<lambda>c.
     sub_parse (parse_forward_date jmsg c) (\<lambda>c. c) (\<lambda>c.
     req jmsg ''chat'' c (\<lambda>r.
     sub_parse (parse_tgevi_chat r (tc_chat c)) (\<lambda>ch. c\<lparr> tc_chat := ch \<rparr>) (\<lambda>c.
     sub_parse (parse_sender_chat jmsg c) (\<lambda>c. c) (\<lambda>c.
     req jmsg ''date'' c (\<lambda>r.
     Inr (0, c\<lparr> tc_date := json_object_get_int64 r \<rparr>))))))))))"

text \<open>The entities of a text or of a caption; the count is the array's length in 16 bits.\<close>

definition load_entities ::
  "json \<Rightarrow> bytes \<Rightarrow> mem \<Rightarrow> (int \<times> u16 \<times> tgevi_entity block \<times> mem) res" where
  "load_entities jmsg key m =
     (case json_object_object_get_ex jmsg key of
        None \<Rightarrow> Inr (0, 0, None, m)
      | Some r \<Rightarrow>
          ebind (json_object_array_length r) (\<lambda>n.
            let entity_c = word_of_nat n in
            if entity_c = 0 then Inr (0, 0, None, m)
            else ebind (parse_tgevi_entities r entity_c m) (\<lambda>(ret, es, m). Inr (ret, entity_c, es, m))))"

text \<open>A caption comes with its entities; without a caption there are none.\<close>

definition load_caption ::
  "json \<Rightarrow> mem \<Rightarrow> (int \<times> bytes option \<times> u16 \<times> tgevi_entity block \<times> mem) res" where
  "load_caption jmsg m =
     (case json_object_object_get_ex jmsg ''caption'' of
        None \<Rightarrow> Inr (0, None, 0, None, m)
      | Some r \<Rightarrow>
          ebind (load_entities jmsg ''caption_entities'' m) (\<lambda>(ret, c, es, m).
            Inr (ret, json_object_get_string r, c, es, m)))"

type_synonym msg_parser = "json \<Rightarrow> mem \<Rightarrow> (int \<times> tgev_msg \<times> mem) res"

text \<open>
  \<open>parse_replied_msg\<close> with the parser of messages as an argument.  Its \<open>malloc\<close> is not
  checked.  When the message does not parse only the event itself is freed.
\<close>

definition parse_replied_msg :: "msg_parser \<Rightarrow> json \<Rightarrow> mem \<Rightarrow> (reply \<times> mem) res" where
  "parse_replied_msg parse jmsg m =
     (case mem_alloc m of
        (None, m) \<Rightarrow> Inl NullDeref
      | (Some a, m) \<Rightarrow>
          ebind (parse jmsg m) (\<lambda>(ret, msg, m).
            if ret \<noteq> 0 then ebind (mem_free (Some a) m) (\<lambda>m. Inr (NullReply, m))
            else Inr (Reply a (Tgev jmsg 0 True msg), m)))"

definition parse_reply_to :: "msg_parser \<Rightarrow> json \<Rightarrow> mem \<Rightarrow> (reply \<times> mem) res" where
  "parse_reply_to parse jmsg m =
     (case json_object_object_get_ex jmsg ''reply_to_message'' of
        Some (Some j) \<Rightarrow> parse_replied_msg parse (Some j) m
      | _ \<Rightarrow> Inr (NullReply, m))"

definition parse_event_text :: "msg_parser \<Rightarrow> msg_parser" where
  "parse_event_text parse jmsg m =
     (case json_object_object_get_ex jmsg ''text'' of
        None \<Rightarrow> Inr (- ECANCELED, NoMsg, m)
      | Some r \<Rightarrow>
          ebind (parse_tgev_common jmsg (zero_text\<lparr> tx_text := json_object_get_string r \<rparr>)) (\<lambda>(ret, t).
          if ret \<noteq> 0 then Inr (ret, MsgText t NullReply, m) else
          ebind (load_entities jmsg ''entities'' m) (\<lambda>(ret, c, es, m).
          let t = t\<lparr> tx_entity_c := c, tx_entities := es \<rparr> in
          if ret < 0 then Inr (- EINVAL, MsgText t NullReply, m) else
          ebind (parse_reply_to parse jmsg m) (\<lambda>(reply_to, m).
          Inr (0, MsgText t reply_to, m)))))"

definition parse_tgevi_photos ::
  "json \<Rightarrow> u16 \<Rightarrow> mem \<Rightarrow> (int \<times> tgevi_file block \<times> mem) res" where
  "parse_tgevi_photos jphotos photo_c m =
     (case mem_alloc m of
        (None, m) \<Rightarrow> Inr (- ENOMEM, None, m)
      | (Some a, m) \<Rightarrow>
          ebind (map_res (\<lambda>i. ebind (json_object_array_get_idx jphotos i) (\<lambda>photo.
                                ebind (parse_tgevi_file photo zero_file) (\<lambda>(_, f). Inr f)))
                   [0..<unat photo_c])
            (\<lambda>fs. Inr (0, Some (a, fs), m)))"

text \<open>The reply of a photo or of a GIF is not parsed.\<close>

definition parse_event_photo :: "msg_parser" where
  "parse_event_photo jphoto m =
     (case json_object_object_get_ex jphoto ''photo'' of
        None \<Rightarrow> Inr (- ECANCELED, NoMsg, m)
      | Some r \<Rightarrow>
          ebind (json_object_array_length r) (\<lambda>n.
          let p = zero_photo\<lparr> ph_photo_c := word_of_nat n \<rparr> in
          ebind (parse_tgevi_photos r (ph_photo_c p) m) (\<lambda>(ret, fs, m).
          let p = p\<lparr> ph_photo := fs \<rparr> in
          if ret < 0 then Inr (- EINVAL, MsgPhoto p NullReply, m) else
          ebind (parse_tgev_common jphoto p) (\<lambda>(ret, p).
          if ret \<noteq> 0 then Inr (ret, MsgPhoto p NullReply, m) else
          ebind (load_caption jphoto m) (\<lambda>(ret, cap, c, es, m).
          let p = p\<lparr> ph_caption := cap, ph_entity_c := c, ph_entities := es \<rparr> in
          if ret < 0 then Inr (- EINVAL, MsgPhoto p NullReply, m)
          else Inr (0, MsgPhoto p NullReply, m))))))"

definition parse_tgevi_sticker :: "json \<Rightarrow> tgevi_sticker \<Rightarrow> (int \<times> tgevi_sticker) res" where
  "parse_tgevi_sticker jstk s =
     req jstk ''width'' s (\<lambda>r. let s = s\<lparr> sk_width := ucast (json_object_get_uint64 r) \<rparr> in
     req jstk ''height'' s (\<lambda>r. let s = s\<lparr> sk_height := ucast (json_object_get_uint64 r) \<rparr> in
     req jstk ''emoji'' s (\<lambda>r.
     ebind (case json_object_get_string r of None \<Rightarrow> Inl NullDeref | Some e \<Rightarrow> sane_strncpy (sk_emoji s) e 6) (\<lambda>emoji.
       let s = s\<lparr> sk_emoji := emoji \<rparr> in
     req jstk ''set_name'' s (\<lambda>r. let s = s\<lparr> sk_set_name := json_object_get_string r \<rparr> in
     req jstk ''is_animated'' s (\<lambda>r. let s = s\<lparr> sk_is_animated := json_object_get_boolean r \<rparr> in
     req jstk ''file_id'' s (\<lambda>r. let s = s\<lparr> sk_file_id := json_object_get_string r \<rparr> in
     req jstk ''file_unique_id'' s (\<lambda>r. let s = s\<lparr> sk_file_unique_id := json_object_get_string r \<rparr> in
     req jstk ''file_size'' s (\<lambda>r. let s = s\<lparr> sk_file_size := json_object_get_uint64 r \<rparr> in
     req jstk ''thumb'' s (\<lambda>r.
     sub_parse (parse_tgevi_file r (sk_thumb s)) (\<lambda>f. s\<lparr> sk_thumb := f \<rparr>) (\<lambda>s.
     Inr (0, s))))))))))))"

definition parse_event_sticker :: "msg_parser \<Rightarrow> msg_parser" where
  "parse_event_sticker parse jstk m =
     (case json_object_object_get_ex jstk ''sticker'' of
        None \<Rightarrow> Inr (- ECANCELED, NoMsg, m)
      | Some r \<Rightarrow>
          ebind (parse_tgevi_sticker r (es_sticker zero_stk)) (\<lambda>(ret, st).
          let s = zero_stk\<lparr> es_sticker := st \<rparr> in
          if ret \<noteq> 0 then Inr (ret, MsgSticker s NullReply, m) else
          ebind (parse_tgev_common jstk s) (\<lambda>(ret, s).
          if ret \<noteq> 0 then Inr (ret, MsgSticker s NullReply, m) else
          ebind (parse_reply_to parse jstk m) (\<lambda>(reply_to, m).
          Inr (0, MsgSticker s reply_to, m)))))"

text \<open>The code of the parser of \<open>document\<close> is overwritten; errors of the entities are passed on.\<close>

definition parse_event_gif :: "msg_parser" where
  "parse_event_gif jgif m =
     (case json_object_object_get_ex jgif ''animation'' of
        None \<Rightarrow> Inr (- ECANCELED, NoMsg, m)
      | Some r \<Rightarrow>
          ebind (parse_tgevi_media r (gf_animation zero_gif)) (\<lambda>(ret, a).
          let g = zero_gif\<lparr> gf_animation := a \<rparr> in
          if ret \<noteq> 0 then Inr (ret, MsgGif g NullReply, m) else
          (case json_object_object_get_ex jgif ''document'' of
             None \<Rightarrow> Inr (- EINVAL, MsgGif g NullReply, m)
           | Some r \<Rightarrow>
               ebind (parse_tgevi_file r (gf_document g)) (\<lambda>(_, d).
               let g = g\<lparr> gf_document := d \<rparr> in
               ebind (parse_tgev_common jgif g) (\<lambda>(ret, g).
               if ret \<noteq> 0 then Inr (ret, MsgGif g NullReply, m) else
               ebind (load_caption jgif m) (\<lambda>(ret, cap, c, es, m).
               let g = g\<lparr> gf_caption := cap, gf_entity_c := c, gf_entities := es \<rparr> in
               if ret < 0 then Inr (ret, MsgGif g NullReply, m)
               else Inr (0, MsgGif g NullReply, m)))))))"

definition parse_event_unknown :: "msg_parser \<Rightarrow> msg_parser" where
  "parse_event_unknown parse jmsg m =
     ebind (parse_tgev_common jmsg zero_unknown) (\<lambda>(ret, u).
     if ret \<noteq> 0 then Inr (ret, MsgUnknown u NullReply, m) else
     ebind (load_entities jmsg ''entities'' m) (\<lambda>(ret, c, es, m).
     let u = u\<lparr> uk_entity_c := c, uk_entities := es \<rparr> in
     if ret < 0 then Inr (- EINVAL, MsgUnknown u NullReply, m) else
     ebind (parse_reply_to parse jmsg m) (\<lambda>(reply_to, m).
     Inr (0, MsgUnknown u reply_to, m))))"

text \<open>
  The kinds in their order; a kind that is not meant answers \<open>-ECANCELED\<close>.
\<close>

definition or_else :: "(int \<times> tgev_msg \<times> mem) res \<Rightarrow> (mem \<Rightarrow> (int \<times> tgev_msg \<times> mem) res) \<Rightarrow>
    (int \<times> tgev_msg \<times> mem) res" where
  "or_else r k = ebind r (\<lambda>(ret, msg, m). if ret \<noteq> - ECANCELED then Inr (ret, msg, m) else k m)"

text \<open>The descent into \<open>reply_to_message\<close> ends: a member is smaller than the message.\<close>

lemma or_else_cong [fundef_cong]:
  "r = r' \<Longrightarrow> (\<And>m. k m = k' m) \<Longrightarrow> or_else r k = or_else r' k'"
  by (simp add: or_else_def ext [of k k'])

lemma parse_reply_to_cong:
  assumes "\<And>j m. json_object_object_get_ex jmsg ''reply_to_message'' = Some (Some j) \<Longrightarrow> p (Some j) m = q (Some j) m"
  shows "parse_reply_to p jmsg m = parse_reply_to q jmsg m"
  using assms by (auto simp: parse_reply_to_def parse_replied_msg_def split: option.split prod.split)

lemma parse_event_cong [fundef_cong]:
  assumes "jmsg = jmsg'" and "m = m'"
    and "\<And>j m. json_object_object_get_ex jmsg' ''reply_to_message'' = Some (Some j) \<Longrightarrow> p (Some j) m = q (Some j) m"
  shows "parse_event_text p jmsg m = parse_event_text q jmsg' m'"
    "parse_event_sticker p jmsg m = parse_event_sticker q jmsg' m'"
    "parse_event_unknown p jmsg m = parse_event_unknown q jmsg' m'"
proof -
  have eq: "parse_reply_to p jmsg' = parse_reply_to q jmsg'" using assms(3) by (intro ext parse_reply_to_cong)
  show "parse_event_text p jmsg m = parse_event_text q jmsg' m'"
    unfolding parse_event_text_def assms(1,2) eq ..
  show "parse_event_sticker p jmsg m = parse_event_sticker q jmsg' m'"
    unfolding parse_event_sticker_def assms(1,2) eq ..
  show "parse_event_unknown p jmsg m = parse_event_unknown q jmsg' m'"
    unfolding parse_event_unknown_def assms(1,2) eq ..
qed

lemma member_size:
  assumes "json_object_object_get_ex j key = Some (Some v)"
  shows "size_option size (Some v) < size_option size j"
proof (cases "(j, key)" rule: json_object_object_get_ex.cases)
  case (1 es k)
  then have "(cstr key, Some v) \<in> set es" using assms by (auto dest: map_of_SomeD)
  then have "size v < size (JObj es)" by (induction es) auto
  then show ?thesis using 1 by simp
qed (use assms in auto)

function parse_message_json_obj :: msg_parser where
  "parse_message_json_obj jmsg m =
     or_else (parse_event_text parse_message_json_obj jmsg m) (\<lambda>m.
     or_else (parse_event_photo jmsg m) (\<lambda>m.
     or_else (parse_event_sticker parse_message_json_obj jmsg m) (\<lambda>m.
     or_else (parse_event_gif jmsg m) (\<lambda>m.
     ebind (parse_event_unknown parse_message_json_obj jmsg m) (\<lambda>(ret, msg, m).
     Inr (0, msg, m))))))"
  by pat_completeness auto

termination
  by (relation "measure (\<lambda>(jmsg, _). size_option size jmsg)") (auto dest: member_size)

declare parse_message_json_obj.simps [simp del]

section \<open>Release\<close>

definition free_block :: "'a block \<Rightarrow> mem \<Rightarrow> mem res" where
  "free_block b m = mem_free (map_option fst b) m"

definition free_entities :: "u16 \<Rightarrow> tgevi_entity block \<Rightarrow> mem \<Rightarrow> mem res" where
  "free_entities c es m = (if 0 < c then free_block es m else Inr m)"

definition json_put :: "mem \<Rightarrow> mem res" where
  "json_put m = (if mm_json m = 0 then Inl UseAfterFree else Inr (m\<lparr> mm_json := mm_json m - 1 \<rparr>))"

primrec tg_event_destroy :: "tgev \<Rightarrow> mem \<Rightarrow> mem res"
  and tg_event_destroy_msg :: "tgev_msg \<Rightarrow> mem \<Rightarrow> mem res"
  and destroy_reply_to_msg :: "reply \<Rightarrow> mem \<Rightarrow> mem res" where
  "tg_event_destroy (Tgev json update_id replied msg) m =
     ebind (tg_event_destroy_msg msg m) (\<lambda>m.
       if replied then Inr m else if json = None then Inr m else json_put m)"
| "tg_event_destroy_msg NoMsg m = Inr m"
| "tg_event_destroy_msg (MsgUnknown u r) m = Inr m"
| "tg_event_destroy_msg (MsgText t r) m =
     ebind (free_entities (tx_entity_c t) (tx_entities t) m) (\<lambda>m. destroy_reply_to_msg r m)"
| "tg_event_destroy_msg (MsgPhoto p r) m =
     ebind (free_block (ph_photo p) m) (\<lambda>m.
     ebind (free_entities (ph_entity_c p) (ph_entities p) m) (\<lambda>m. destroy_reply_to_msg r m))"
| "tg_event_destroy_msg (MsgSticker s r) m = destroy_reply_to_msg r m"
| "tg_event_destroy_msg (MsgGif g r) m =
     ebind (free_entities (gf_entity_c g) (gf_entities g) m) (\<lambda>m. destroy_reply_to_msg r m)"
| "destroy_reply_to_msg NullReply m = Inr m"
| "destroy_reply_to_msg (Reply a evt) m = ebind (tg_event_destroy evt m) (\<lambda>m. mem_free (Some a) m)"

section \<open>Loading an event\<close>

text \<open>
  What the loading functions take from the outside: \<open>strtod\<close>, whether there is memory for a
  tokener, and how often the tokener is fed at most.
\<close>

record json_env =
  je_strtod :: "bytes \<Rightarrow> dbl \<times> nat"
  je_tok_ok :: bool
  je_fuel :: nat

text \<open>The loop that feeds the tokener the same text again as long as it wants more.\<close>

fun tokener_feed :: "(bytes \<Rightarrow> dbl \<times> nat) \<Rightarrow> nat \<Rightarrow> json_tokener \<Rightarrow> bytes \<Rightarrow> (json \<times> tok_error) res" where
  "tokener_feed strtod 0 tok s = Inl OutOfFuel"
| "tokener_feed strtod (Suc n) tok s =
     ebind (json_tokener_parse_ex strtod tok s) (\<lambda>(json_obj, jerr, tok).
       if jerr = json_tokener_continue then tokener_feed strtod n tok s else Inr (json_obj, jerr))"

text \<open>The out-parameter keeps its null when there is no tokener.\<close>

definition tg_event_json_parse :: "json_env \<Rightarrow> bytes \<Rightarrow> mem \<Rightarrow> (int \<times> json \<times> mem) res" where
  "tg_event_json_parse env s m =
     (if \<not> je_tok_ok env then Inr (- ENOMEM, None, m)
      else ebind (tokener_feed (je_strtod env) (je_fuel env) json_tokener_new s) (\<lambda>(json_obj, jerr).
        Inr (if jerr \<noteq> json_tokener_success then - EINVAL else 0, json_obj,
             if json_obj = None then m else m\<lparr> mm_json := Suc (mm_json m) \<rparr>)))"

definition parse_update_id :: "json \<Rightarrow> int \<times> u64" where
  "parse_update_id j =
     (case json_object_object_get_ex j ''update_id'' of None \<Rightarrow> (- EINVAL, 0) | Some r \<Rightarrow> (0, json_object_get_uint64 r))"

definition parse_message :: msg_parser where
  "parse_message j m =
     (case json_object_object_get_ex j ''message'' of
        None \<Rightarrow> Inr (- EINVAL, NoMsg, m)
      | Some jmsg \<Rightarrow> parse_message_json_obj jmsg m)"

text \<open>
  The test after the JSON parser is \<open>unlikely(ret) < 0\<close>, that is \<open>!!ret < 0\<close>, which is never
  true: the function goes on with the null document.
\<close>

definition bool_int :: "int \<Rightarrow> int" where
  "bool_int x = (if x \<noteq> 0 then 1 else 0)"

definition internal_tg_event_load_str ::
  "json_env \<Rightarrow> bytes \<Rightarrow> mem \<Rightarrow> (int \<times> tgev \<times> mem) res" where
  "internal_tg_event_load_str env s m =
     ebind (tg_event_json_parse env s m) (\<lambda>(ret, j, m).
     if bool_int ret < 0 then Inr (ret, Tgev j 0 False NoMsg, m) else
     (case parse_update_id j of (ret, uid) \<Rightarrow>
     if ret \<noteq> 0 then
       ebind (tg_event_destroy (Tgev j uid False NoMsg) m) (\<lambda>m. Inr (ret, Tgev None uid False NoMsg, m))
     else
     ebind (parse_message j m) (\<lambda>(ret, msg, m).
     if ret \<noteq> 0 then
       ebind (tg_event_destroy (Tgev j uid False msg) m) (\<lambda>m. Inr (ret, Tgev None uid False msg, m))
     else Inr (0, Tgev j uid False msg, m))))"

text \<open>The text handed to the tokener includes the null byte.\<close>

definition tg_event_load_str ::
  "json_env \<Rightarrow> bytes option \<Rightarrow> mem \<Rightarrow> (int \<times> tgev \<times> mem) res" where
  "tg_event_load_str env json_str m =
     (case json_str of
        None \<Rightarrow> Inr (- EINVAL, Tgev None 0 False NoMsg, m)
      | Some s \<Rightarrow> internal_tg_event_load_str env (cstr s @ [NUL]) m)"

definition tg_event_load_str_len ::
  "json_env \<Rightarrow> bytes option \<Rightarrow> nat \<Rightarrow> mem \<Rightarrow> (int \<times> tgev \<times> mem) res" where
  "tg_event_load_str_len env json_str len m =
     (case json_str of
        None \<Rightarrow> Inr (- EINVAL, Tgev None 0 False NoMsg, m)
      | Some s \<Rightarrow> internal_tg_event_load_str env (take len s) m)"

section \<open>Accessors\<close>

text \<open>
  \<open>tge_get_reply_to\<close> reads \<open>msg_text.reply_to\<close> whatever the type is.  In the layout of
  the structures on a 64-bit machine the eight bytes at its offset, 232, hold the caption
  entity count (and padding) of a photo, the pointer \<open>thumb.file_unique_id\<close> of a sticker and
  the pointer \<open>animation.file_unique_id\<close> of a GIF.
\<close>

datatype evptr = EvNull | EvAt nat "tgev" | EvInt u64 | EvString bytes

fun reply_ptr :: "reply \<Rightarrow> evptr" where
  "reply_ptr NullReply = EvNull"
| "reply_ptr (Reply a e) = EvAt a e"

fun string_ptr :: "bytes option \<Rightarrow> evptr" where
  "string_ptr None = EvNull"
| "string_ptr (Some s) = EvString s"

definition tge_get_reply_to :: "tgev \<Rightarrow> evptr" where
  "tge_get_reply_to evt =
     (case ev_msg evt of
        MsgText t r \<Rightarrow> reply_ptr r
      | MsgPhoto p r \<Rightarrow> if ph_entity_c p = 0 then EvNull else EvInt (ucast (ph_entity_c p))
      | MsgSticker s r \<Rightarrow> string_ptr (fi_file_unique_id (sk_thumb (es_sticker s)))
      | MsgGif g r \<Rightarrow> string_ptr (md_file_unique_id (gf_animation g))
      | _ \<Rightarrow> EvNull)"

definition tge_get_chat_id :: "tgev \<Rightarrow> u64" where
  "tge_get_chat_id evt =
     (case ev_msg evt of
        MsgUnknown u r \<Rightarrow> ct_id (tc_chat u)
      | MsgText t r \<Rightarrow> ct_id (tc_chat t)
      | MsgPhoto p r \<Rightarrow> ct_id (tc_chat p)
      | MsgSticker s r \<Rightarrow> ct_id (tc_chat s)
      | MsgGif g r \<Rightarrow> ct_id (tc_chat g)
      | NoMsg \<Rightarrow> -1)"

definition tge_get_text :: "tgev \<Rightarrow> bytes option" where
  "tge_get_text evt =
     (case ev_msg evt of
        MsgText t r \<Rightarrow> tx_text t
      | MsgPhoto p r \<Rightarrow> ph_caption p
      | MsgGif g r \<Rightarrow> gf_caption g
      | _ \<Rightarrow> None)"

definition tge_get_msg_id :: "tgev \<Rightarrow> u64" where
  "tge_get_msg_id evt =
     (case ev_msg evt of
        MsgUnknown u r \<Rightarrow> tc_msg_id u
      | MsgText t r \<Rightarrow> tc_msg_id t
      | MsgPhoto p r \<Rightarrow> tc_msg_id p
      | MsgSticker s r \<Rightarrow> tc_msg_id s
      | MsgGif g r \<Rightarrow> tc_msg_id g
      | NoMsg \<Rightarrow> 0)"

definition tge_get_from :: "tgev \<Rightarrow> tgevi_from option" where
  "tge_get_from evt =
     (case ev_msg evt of
        MsgUnknown u r \<Rightarrow> Some (tc_from u)
      | MsgText t r \<Rightarrow> Some (tc_from t)
      | MsgPhoto p r \<Rightarrow> Some (tc_from p)
      | MsgSticker s r \<Rightarrow> Some (tc_from s)
      | MsgGif g r \<Rightarrow> Some (tc_from g)
      | NoMsg \<Rightarrow> None)"

definition tge_get_user_id :: "tgev \<Rightarrow> u64" where
  "tge_get_user_id evt = (case tge_get_from evt of None \<Rightarrow> 0 | Some f \<Rightarrow> fr_id f)"

end
