(* ===== verification/Tg_Event_Mem.thy ===== *)
theory Tg_Event_Mem
  imports Tg_Event
begin

text \<open>
  The memory of Telegram events: which blocks an event owns, that parsing allocates exactly
  those (and what it loses), and that the release of an event frees each of them once.
\<close>

section \<open>Allocation\<close>

definition mem_ok :: "mem \<Rightarrow> bool" where
  "mem_ok m \<longleftrightarrow> mm_live m \<subseteq> {..<mm_next m}"

text \<open>\<open>grows m m' A\<close>: the blocks \<open>A\<close>, all new, have been added.\<close>

definition grows :: "mem \<Rightarrow> mem \<Rightarrow> nat set \<Rightarrow> bool" where
  "grows m m' A \<longleftrightarrow>
     mm_next m \<le> mm_next m' \<and> mm_live m' = A \<union> mm_live m \<and> A \<subseteq> {mm_next m..<mm_next m'} \<and>
     mm_ok m' = mm_ok m \<and> mm_json m' = mm_json m"

lemma grows_refl [simp]: "grows m m {}"
  by (simp add: grows_def)

lemma grows_trans: "grows m m1 A \<Longrightarrow> grows m1 m2 B \<Longrightarrow> grows m m2 (A \<union> B)"
  by (auto simp: grows_def)

lemma grows_disjoint: "grows m m1 A \<Longrightarrow> grows m1 m2 B \<Longrightarrow> A \<inter> B = {}"
  by (fastforce simp: grows_def)

lemma grows_ok: "grows m m' A \<Longrightarrow> mem_ok m \<Longrightarrow> mem_ok m'"
  by (fastforce simp: grows_def mem_ok_def)

lemma alloc_grows:
  "mem_alloc m = (p, m') \<Longrightarrow> grows m m' (case p of None \<Rightarrow> {} | Some a \<Rightarrow> {a})"
  by (auto simp: mem_alloc_def grows_def split: if_splits)

definition block_of :: "'a block \<Rightarrow> nat set" where
  "block_of b = (case b of None \<Rightarrow> {} | Some (a, _) \<Rightarrow> {a})"

lemma block_of_simps [simp]: "block_of None = {}" "block_of (Some (a, xs)) = {a}"
  by (simp_all add: block_of_def)

lemma parse_entities_grows:
  "parse_tgevi_entities j c m = Inr (ret, es, m') \<Longrightarrow> grows m m' (block_of es) \<and> (ret = 0 \<or> es = None)"
  by (auto simp: parse_tgevi_entities_def run_simps split: prod.splits option.splits dest: alloc_grows)

lemma load_entities_grows:
  "load_entities j key m = Inr (ret, c, es, m') \<Longrightarrow>
     grows m m' (block_of es) \<and> (ret = 0 \<or> es = None) \<and> (es = None \<or> 0 < c)"
  by (auto simp: load_entities_def run_simps Let_def word_neq_0_conv split: option.splits if_splits
      dest: parse_entities_grows)

lemma load_caption_grows:
  "load_caption j m = Inr (ret, cap, c, es, m') \<Longrightarrow>
     grows m m' (block_of es) \<and> (ret = 0 \<or> es = None) \<and> (es = None \<or> 0 < c)"
  by (auto simp: load_caption_def run_simps split: option.splits dest: load_entities_grows)

lemma parse_photos_grows:
  "parse_tgevi_photos j c m = Inr (ret, fs, m') \<Longrightarrow> grows m m' (block_of fs) \<and> (ret = 0 \<or> fs = None)"
  by (auto simp: parse_tgevi_photos_def run_simps split: prod.splits option.splits dest: alloc_grows)

section \<open>What an event owns\<close>

primrec owned_ev :: "tgev \<Rightarrow> nat set" and owned_msg :: "tgev_msg \<Rightarrow> nat set" and owned_reply :: "reply \<Rightarrow> nat set" where
  "owned_ev (Tgev json uid replied msg) = owned_msg msg"
| "owned_msg NoMsg = {}"
| "owned_msg (MsgUnknown u r) = {}"
| "owned_msg (MsgText t r) = block_of (tx_entities t) \<union> owned_reply r"
| "owned_msg (MsgPhoto p r) = block_of (ph_photo p) \<union> block_of (ph_entities p) \<union> owned_reply r"
| "owned_msg (MsgSticker s r) = owned_reply r"
| "owned_msg (MsgGif g r) = block_of (gf_entities g) \<union> owned_reply r"
| "owned_reply NullReply = {}"
| "owned_reply (Reply a evt) = insert a (owned_ev evt)"

text \<open>No block is owned twice, and the count that guards a block is not 0.\<close>

primrec sep_ev :: "tgev \<Rightarrow> bool" and sep_msg :: "tgev_msg \<Rightarrow> bool" and sep_reply :: "reply \<Rightarrow> bool" where
  "sep_ev (Tgev json uid replied msg) = sep_msg msg"
| "sep_msg NoMsg = True"
| "sep_msg (MsgUnknown u r) = True"
| "sep_msg (MsgText t r) =
     ((tx_entities t = None \<or> 0 < tx_entity_c t) \<and> block_of (tx_entities t) \<inter> owned_reply r = {} \<and> sep_reply r)"
| "sep_msg (MsgPhoto p r) =
     ((ph_entities p = None \<or> 0 < ph_entity_c p) \<and> block_of (ph_photo p) \<inter> block_of (ph_entities p) = {} \<and>
      (block_of (ph_photo p) \<union> block_of (ph_entities p)) \<inter> owned_reply r = {} \<and> sep_reply r)"
| "sep_msg (MsgSticker s r) = sep_reply r"
| "sep_msg (MsgGif g r) =
     ((gf_entities g = None \<or> 0 < gf_entity_c g) \<and> block_of (gf_entities g) \<inter> owned_reply r = {} \<and> sep_reply r)"
| "sep_reply NullReply = True"
| "sep_reply (Reply a evt) = (a \<notin> owned_ev evt \<and> sep_ev evt \<and> ev_replied evt)"

section \<open>Release\<close>

abbreviation drop_blocks :: "nat set \<Rightarrow> mem \<Rightarrow> mem" where
  "drop_blocks A m \<equiv> m\<lparr> mm_live := mm_live m - A \<rparr>"

lemma free_block_owned: "block_of b \<subseteq> mm_live m \<Longrightarrow> free_block b m = Inr (drop_blocks (block_of b) m)"
  by (cases b) (auto simp: free_block_def mem_free_def)

lemma free_entities_owned:
  "block_of es \<subseteq> mm_live m \<Longrightarrow> es = None \<or> 0 < c \<Longrightarrow> free_entities c es m = Inr (drop_blocks (block_of es) m)"
  by (cases "0 < c") (auto simp: free_entities_def free_block_owned)

lemma free_then:
  assumes "x = Inr (drop_blocks A m)" and "\<And>m. B \<subseteq> mm_live m \<Longrightarrow> g m = Inr (drop_blocks B m)"
    and "A \<inter> B = {}" and "B \<subseteq> mm_live m"
  shows "ebind x g = Inr (drop_blocks (A \<union> B) m)"
proof -
  have "g (drop_blocks A m) = Inr (drop_blocks B (drop_blocks A m))" using assms(3,4) by (intro assms(2)) auto
  moreover have "mm_live m - A - B = mm_live m - (A \<union> B)" by auto
  ultimately show ?thesis using assms(1) by simp
qed

lemma destroy_frees:
  "sep_ev evt \<Longrightarrow> ev_replied evt \<Longrightarrow> owned_ev evt \<subseteq> mm_live m \<Longrightarrow> tg_event_destroy evt m = Inr (drop_blocks (owned_ev evt) m)"
  "sep_msg msg \<Longrightarrow> owned_msg msg \<subseteq> mm_live m \<Longrightarrow> tg_event_destroy_msg msg m = Inr (drop_blocks (owned_msg msg) m)"
  "sep_reply r \<Longrightarrow> owned_reply r \<subseteq> mm_live m \<Longrightarrow> destroy_reply_to_msg r m = Inr (drop_blocks (owned_reply r) m)"
proof (induction evt and msg and r arbitrary: m and m and m)
  case (MsgText t r)
  then show ?case by (simp, intro free_then free_entities_owned) auto
next
  case (MsgGif g r)
  then show ?case by (simp, intro free_then free_entities_owned) auto
next
  case (MsgPhoto p r)
  then show ?case by (simp add: Un_assoc, intro free_then free_entities_owned free_block_owned) auto
next
  case (Reply a evt)
  then have "ebind (tg_event_destroy evt m) (mem_free (Some a)) = Inr (drop_blocks (owned_ev evt \<union> {a}) m)"
    by (intro free_then) (auto simp: mem_free_def)
  then show ?case by simp
qed simp_all

section \<open>Parsing\<close>

text \<open>
  The members that the shared part of the parsers does not touch.
\<close>

definition keeps :: "('s \<Rightarrow> bool) \<Rightarrow> (int \<times> 's) res \<Rightarrow> bool" where
  "keeps P r \<longleftrightarrow> (\<forall>ret s. r = Inr (ret, s) \<longrightarrow> P s)"

lemma keeps_Inr: "P s \<Longrightarrow> keeps P (Inr (ret, s))"
  by (simp add: keeps_def)

lemma keeps_req: "P s \<Longrightarrow> (\<And>r. keeps P (k r)) \<Longrightarrow> keeps P (req j key s k)"
  by (simp add: req_def keeps_def split: option.split)

lemma keeps_sub: "(\<And>p. P (put p)) \<Longrightarrow> (\<And>s. P s \<Longrightarrow> keeps P (k s)) \<Longrightarrow> keeps P (sub_parse r put k)"
  by (cases r; simp add: sub_parse_def keeps_def split: prod.split; blast)

lemma keeps_seq: "keeps P r \<Longrightarrow> (\<And>s. P s \<Longrightarrow> keeps P (k s)) \<Longrightarrow> keeps P (sub_parse r (\<lambda>c. c) k)"
  by (cases r) (auto simp: sub_parse_def keeps_def split: if_splits)

lemma keeps_option: "(o' = None \<Longrightarrow> keeps P x) \<Longrightarrow> (\<And>r. o' = Some r \<Longrightarrow> keeps P (f r)) \<Longrightarrow>
    keeps P (case o' of None \<Rightarrow> x | Some r \<Rightarrow> f r)"
  by (cases o') simp_all

lemma keeps_forward:
  assumes "tgev_common.more c = e"
  shows "keeps (\<lambda>c. tgev_common.more c = e) (parse_forward j c)"
    "keeps (\<lambda>c. tgev_common.more c = e) (parse_forward_date j c)"
    "keeps (\<lambda>c. tgev_common.more c = e) (parse_sender_chat j c)"
proof -
  show "keeps (\<lambda>c. tgev_common.more c = e) (parse_forward j c)"
    unfolding parse_forward_def by (intro keeps_option keeps_sub keeps_Inr) (simp_all add: assms)
  show "keeps (\<lambda>c. tgev_common.more c = e) (parse_sender_chat j c)"
    unfolding parse_sender_chat_def by (intro keeps_option keeps_sub keeps_Inr) (simp_all add: assms)
  show "keeps (\<lambda>c. tgev_common.more c = e) (parse_forward_date j c)"
    unfolding parse_forward_date_def by (simp add: keeps_req keeps_Inr assms)
qed

lemma keeps_common: "keeps (\<lambda>c'. tgev_common.more c' = tgev_common.more c) (parse_tgev_common j c)"
  unfolding parse_tgev_common_def Let_def
  by (intro keeps_req keeps_seq keeps_forward keeps_sub keeps_Inr) simp_all

lemma common_more: "parse_tgev_common j c = Inr (ret, c') \<Longrightarrow> tgev_common.more c' = tgev_common.more c"
  using keeps_common [of c j] by (simp add: keeps_def)

lemma common_text: "parse_tgev_common j (t :: tgev_text) = Inr (ret, t') \<Longrightarrow> tx_entities t' = tx_entities t"
  by (drule common_more, cases t, cases t') simp

lemma common_photo:
  "parse_tgev_common j (p :: tgev_photo) = Inr (ret, p') \<Longrightarrow> ph_photo p' = ph_photo p \<and> ph_entities p' = ph_entities p"
  by (drule common_more, cases p, cases p') simp

lemma common_gif: "parse_tgev_common j (g :: tgev_gif) = Inr (ret, g') \<Longrightarrow> gf_entities g' = gf_entities g"
  by (drule common_more, cases g, cases g') simp

lemma zero_blocks [simp]: "tx_entities zero_text = None" "ph_photo zero_photo = None" "ph_entities zero_photo = None"
  "gf_entities zero_gif = None"
  by (simp_all add: zero_text_def zero_photo_def zero_gif_def tgev_common.defs tgev_text.defs tgev_photo.defs tgev_gif.defs)


text \<open>
  A message is tight in its document when nothing has been lost: it is not of the unknown
  kind with entities or a reply, and every reply in the document is a reply of the event.
\<close>

definition reply_json :: "json \<Rightarrow> json" where
  "reply_json j = (case json_object_object_get_ex j ''reply_to_message'' of Some (Some r) \<Rightarrow> Some r | _ \<Rightarrow> None)"

primrec tight_ev :: "tgev \<Rightarrow> json \<Rightarrow> bool" and tight_msg :: "tgev_msg \<Rightarrow> json \<Rightarrow> bool" and tight_reply :: "reply \<Rightarrow> json \<Rightarrow> bool" where
  "tight_ev (Tgev json uid replied msg) j = tight_msg msg j"
| "tight_msg NoMsg j = True"
| "tight_msg (MsgUnknown u r) j = (uk_entities u = None \<and> reply_json j = None)"
| "tight_msg (MsgText t r) j = tight_reply r (reply_json j)"
| "tight_msg (MsgPhoto p r) j = True"
| "tight_msg (MsgSticker s r) j = tight_reply r (reply_json j)"
| "tight_msg (MsgGif g r) j = True"
| "tight_reply NullReply j = (j = None)"
| "tight_reply (Reply a evt) j = tight_ev evt j"

definition parsed :: "json \<Rightarrow> mem \<Rightarrow> int \<times> tgev_msg \<times> mem \<Rightarrow> bool" where
  "parsed j m res \<longleftrightarrow>
     (case res of (ret, msg, m') \<Rightarrow>
        sep_msg msg \<and> (\<exists>L. grows m m' (owned_msg msg \<union> L) \<and> owned_msg msg \<inter> L = {} \<and>
          (ret \<noteq> 0 \<or> tight_msg msg j \<longrightarrow> L = {})))"

definition reply_parsed :: "json \<Rightarrow> mem \<Rightarrow> reply \<times> mem \<Rightarrow> bool" where
  "reply_parsed j m res \<longleftrightarrow>
     (case res of (r, m') \<Rightarrow>
        sep_reply r \<and> (\<exists>L. grows m m' (owned_reply r \<union> L) \<and> owned_reply r \<inter> L = {} \<and>
          (tight_reply r (reply_json j) \<longrightarrow> L = {}) \<and> (reply_json j = None \<longrightarrow> r = NullReply)))"

lemma replied_parsed:
  assumes p: "\<And>m res. mem_ok m \<Longrightarrow> p j m = Inr res \<Longrightarrow> parsed j m res" and m: "mem_ok m" and j: "reply_json jmsg = j" "j \<noteq> None"
    and run: "parse_replied_msg p j m = Inr res"
  shows "reply_parsed jmsg m res"
proof -
  obtain a m1 where a: "mem_alloc m = (Some a, m1)"
    using run by (cases "mem_alloc m") (auto simp: parse_replied_msg_def split: option.splits)
  then obtain ret msg m2 where 2: "p j m1 = Inr (ret, msg, m2)"
    using run by (auto simp: parse_replied_msg_def run_simps)
  have g1: "grows m m1 {a}" using alloc_grows [OF a] by simp
  from p [OF grows_ok [OF g1 m] 2] obtain L where L: "sep_msg msg" "grows m1 m2 (owned_msg msg \<union> L)" "owned_msg msg \<inter> L = {}"
      "ret \<noteq> 0 \<or> tight_msg msg j \<longrightarrow> L = {}"
    by (auto simp: parsed_def)
  have g: "grows m m2 ({a} \<union> (owned_msg msg \<union> L))" using grows_trans [OF g1 L(2)] .
  have new: "a \<notin> owned_msg msg \<union> L" using grows_disjoint [OF g1 L(2)] by simp
  show ?thesis
  proof (cases "ret = 0")
    case True
    then have "res = (Reply a (Tgev j 0 True msg), m2)" using run a 2 by (simp add: parse_replied_msg_def)
    moreover have "insert a (owned_msg msg) \<union> L = {a} \<union> (owned_msg msg \<union> L)" by auto
    ultimately show ?thesis using L g new j by (auto simp: reply_parsed_def)
  next
    case False
    have "a \<in> mm_live m2" using g by (auto simp: grows_def)
    then have "res = (NullReply, m2\<lparr> mm_live := mm_live m2 - {a} \<rparr>)"
      using False run a 2 by (simp add: parse_replied_msg_def mem_free_def)
    moreover have "grows m (m2\<lparr> mm_live := mm_live m2 - {a} \<rparr>) (owned_msg msg \<union> L)"
      using g new m a by (auto simp: grows_def mem_ok_def mem_alloc_def split: if_splits)
    ultimately show ?thesis using j by (auto simp: reply_parsed_def)
  qed
qed


lemma reply_to_parsed:
  assumes "\<And>j m res. j \<noteq> None \<Longrightarrow> reply_json jmsg = j \<Longrightarrow> mem_ok m \<Longrightarrow> p j m = Inr res \<Longrightarrow> parsed j m res"
    and "mem_ok m" and "parse_reply_to p jmsg m = Inr res"
  shows "reply_parsed jmsg m res"
proof (cases "reply_json jmsg")
  case None
  then have "res = (NullReply, m)"
    using assms(3) by (auto simp: parse_reply_to_def reply_json_def split: option.splits)
  then show ?thesis by (auto simp: reply_parsed_def intro: exI [of _ "{}"])
next
  case (Some j)
  then have "parse_replied_msg p (Some j) m = Inr res"
    using assms(3) by (auto simp: parse_reply_to_def reply_json_def split: option.splits)
  then show ?thesis using replied_parsed [of p "Some j" m jmsg res] assms(1,2) Some by blast
qed

text \<open>A message whose own blocks are \<open>A\<close>, before and after its reply.\<close>

lemma parsed_own:
  assumes "grows m m' (owned_msg msg)" and "sep_msg msg"
  shows "parsed j m (ret, msg, m')"
  using assms by (auto simp: parsed_def intro!: exI [of _ "{}"])

lemma parsed_with_reply:
  assumes own: "grows m m1 A" and rep: "reply_parsed j m1 (r, m')"
    and msg: "owned_msg msg = A \<union> owned_reply r" and sep: "A \<inter> owned_reply r = {} \<Longrightarrow> sep_reply r \<Longrightarrow> sep_msg msg"
    and tight: "tight_msg msg j \<Longrightarrow> tight_reply r (reply_json j)"
  shows "parsed j m (0, msg, m')"
proof -
  obtain L where L: "sep_reply r" "grows m1 m' (owned_reply r \<union> L)" "owned_reply r \<inter> L = {}"
      "tight_reply r (reply_json j) \<longrightarrow> L = {}"
    using rep by (auto simp: reply_parsed_def)
  have dis: "A \<inter> (owned_reply r \<union> L) = {}" using grows_disjoint [OF own L(2)] .
  have "grows m m' (owned_msg msg \<union> L)" using grows_trans [OF own L(2)] msg by (simp add: Un_assoc)
  moreover have "owned_msg msg \<inter> L = {}" "sep_msg msg" using dis L sep msg by blast+
  ultimately show ?thesis using L(4) tight by (auto simp: parsed_def)
qed

lemma text_parsed:
  assumes p: "\<And>j m res. j \<noteq> None \<Longrightarrow> reply_json jmsg = j \<Longrightarrow> mem_ok m \<Longrightarrow> p j m = Inr res \<Longrightarrow> parsed j m res"
    and m: "mem_ok m" and run: "parse_event_text p jmsg m = Inr res"
  shows "parsed jmsg m res"
proof (cases "json_object_object_get_ex jmsg ''text''")
  case None
  then show ?thesis using run by (auto simp: parse_event_text_def intro: parsed_own)
next
  case (Some r)
  then obtain ret t where t: "parse_tgev_common jmsg (zero_text\<lparr> tx_text := json_object_get_string r \<rparr>) = Inr (ret, t)"
    using run by (auto simp: parse_event_text_def run_simps)
  have te: "tx_entities t = None" using common_text [OF t] by simp
  show ?thesis
  proof (cases "ret = 0")
    case False
    then show ?thesis using run Some t te by (auto simp: parse_event_text_def intro: parsed_own)
  next
    case True
    then obtain ret' c es m1 where e: "load_entities jmsg ''entities'' m = Inr (ret', c, es, m1)"
      using run Some t by (auto simp: parse_event_text_def run_simps)
    have g: "grows m m1 (block_of es)" "es = None \<or> 0 < c" "ret' = 0 \<or> es = None" using load_entities_grows [OF e] by auto
    show ?thesis
    proof (cases "ret' < 0")
      case neg: True
      then show ?thesis using run Some t True e g by (auto simp: parse_event_text_def intro: parsed_own)
    next
      case False
      then obtain rp m2 where r: "parse_reply_to p jmsg m1 = Inr (rp, m2)"
          "res = (0, MsgText (t\<lparr> tx_entity_c := c, tx_entities := es \<rparr>) rp, m2)"
        using run Some t True e by (auto simp: parse_event_text_def run_simps)
      have "reply_parsed jmsg m1 (rp, m2)" by (rule reply_to_parsed [OF p grows_ok [OF g(1) m] r(1)])
      then show ?thesis unfolding r(2) by (rule parsed_with_reply [OF g(1)]) (use g(2) in simp_all)
    qed
  qed
qed


lemma sticker_parsed:
  assumes p: "\<And>j m res. j \<noteq> None \<Longrightarrow> reply_json jmsg = j \<Longrightarrow> mem_ok m \<Longrightarrow> p j m = Inr res \<Longrightarrow> parsed j m res"
    and m: "mem_ok m" and run: "parse_event_sticker p jmsg m = Inr res"
  shows "parsed jmsg m res"
proof (cases "json_object_object_get_ex jmsg ''sticker''")
  case None
  then show ?thesis using run by (auto simp: parse_event_sticker_def intro: parsed_own)
next
  case (Some r)
  then obtain ret st where st: "parse_tgevi_sticker r (es_sticker zero_stk) = Inr (ret, st)"
    using run by (auto simp: parse_event_sticker_def run_simps)
  show ?thesis
  proof (cases "ret = 0")
    case False
    then show ?thesis using run Some st by (auto simp: parse_event_sticker_def intro: parsed_own)
  next
    case True
    then obtain ret' s where s: "parse_tgev_common jmsg (zero_stk\<lparr> es_sticker := st \<rparr>) = Inr (ret', s)"
      using run Some st by (auto simp: parse_event_sticker_def run_simps Let_def)
    show ?thesis
    proof (cases "ret' = 0")
      case False
      then show ?thesis using run Some st s True by (auto simp: parse_event_sticker_def intro: parsed_own)
    next
      case r0: True
      then obtain rp m1 where r: "parse_reply_to p jmsg m = Inr (rp, m1)" "res = (0, MsgSticker s rp, m1)"
        using run Some st s True by (auto simp: parse_event_sticker_def run_simps)
      have "reply_parsed jmsg m (rp, m1)" by (rule reply_to_parsed [OF p m r(1)])
      then show ?thesis unfolding r(2) by (rule parsed_with_reply [OF grows_refl]) simp_all
    qed
  qed
qed

lemma photo_parsed:
  assumes run: "parse_event_photo jmsg m = Inr res"
  shows "parsed jmsg m res"
proof (cases "json_object_object_get_ex jmsg ''photo''")
  case None
  then show ?thesis using run by (auto simp: parse_event_photo_def intro: parsed_own)
next
  case (Some r)
  then obtain n ret fs m1 where f: "json_object_array_length r = Inr n" "parse_tgevi_photos r (word_of_nat n) m = Inr (ret, fs, m1)"
    using run by (auto simp: parse_event_photo_def run_simps Let_def)
  have gf: "grows m m1 (block_of fs)" using parse_photos_grows [OF f(2)] by simp
  show ?thesis
  proof (cases "ret < 0")
    case True
    then show ?thesis using run Some f gf by (auto simp: parse_event_photo_def intro: parsed_own)
  next
    case False
    then obtain ret' q where q: "parse_tgev_common jmsg (zero_photo\<lparr> ph_photo_c := word_of_nat n, ph_photo := fs \<rparr>) = Inr (ret', q)"
      using run Some f by (auto simp: parse_event_photo_def run_simps Let_def)
    then have qf: "ph_photo q = fs" "ph_entities q = None" using common_photo [OF q] by simp_all
    show ?thesis
    proof (cases "ret' = 0")
      case False
      then show ?thesis using run Some f gf q qf \<open>\<not> ret < 0\<close> by (auto simp: parse_event_photo_def intro: parsed_own)
    next
      case True
      then obtain ret2 cap c es m2 where e: "load_caption jmsg m1 = Inr (ret2, cap, c, es, m2)"
        using run Some f q \<open>\<not> ret < 0\<close> by (auto simp: parse_event_photo_def run_simps Let_def)
      have ge: "grows m1 m2 (block_of es)" "es = None \<or> 0 < c" using load_caption_grows [OF e] by auto
      obtain q' ret3 where "res = (ret3, MsgPhoto q' NullReply, m2)" "ph_photo q' = fs" "ph_entities q' = es" "ph_entity_c q' = c"
        using run Some f q True e qf \<open>\<not> ret < 0\<close>
        by (auto simp: parse_event_photo_def Let_def split: if_splits)
      then show ?thesis using grows_trans [OF gf ge(1)] grows_disjoint [OF gf ge(1)] ge(2)
        by (auto intro!: parsed_own)
    qed
  qed
qed

lemma zero_document: "gf_document (zero_gif\<lparr> gf_animation := a \<rparr>) = zero_file"
  by (simp add: zero_gif_def tgev_common.defs tgev_gif.defs)

lemma gif_parsed:
  assumes run: "parse_event_gif jmsg m = Inr res"
  shows "parsed jmsg m res"
proof (cases "json_object_object_get_ex jmsg ''animation''")
  case None
  then show ?thesis using run by (auto simp: parse_event_gif_def intro: parsed_own)
next
  case (Some r)
  then obtain ret a where a: "parse_tgevi_media r (gf_animation zero_gif) = Inr (ret, a)"
    using run by (auto simp: parse_event_gif_def run_simps)
  show ?thesis
  proof (cases "ret = 0 \<and> json_object_object_get_ex jmsg ''document'' \<noteq> None")
    case False
    then show ?thesis using run Some a
      by (cases "ret = 0") (auto simp: parse_event_gif_def Let_def intro: parsed_own)
  next
    case True
    then obtain r' where r': "json_object_object_get_ex jmsg ''document'' = Some r'" "ret = 0" by auto
    then obtain u d where d: "parse_tgevi_file r' zero_file = Inr (u, d)"
      using run Some a by (auto simp: parse_event_gif_def run_simps zero_document)
    then obtain ret1 g where g: "parse_tgev_common jmsg (zero_gif\<lparr> gf_animation := a, gf_document := d \<rparr>) = Inr (ret1, g)"
      using run Some a r' by (auto simp: parse_event_gif_def run_simps zero_document Let_def)
    then have ge: "gf_entities g = None" using common_gif [OF g] by simp
    show ?thesis
    proof (cases "ret1 = 0")
      case False
      then show ?thesis using run Some a r' d g ge
        by (auto simp: parse_event_gif_def Let_def zero_document intro: parsed_own)
    next
      case r0: True
      then obtain ret2 cap c es m1 where e: "load_caption jmsg m = Inr (ret2, cap, c, es, m1)"
        using run Some a r' d g by (auto simp: parse_event_gif_def run_simps Let_def zero_document)
      obtain g' ret3 where "res = (ret3, MsgGif g' NullReply, m1)" "gf_entities g' = es" "gf_entity_c g' = c"
        using run Some a r' d g r0 e by (auto simp: parse_event_gif_def Let_def zero_document split: if_splits)
      then show ?thesis using load_caption_grows [OF e] by (auto intro!: parsed_own)
    qed
  qed
qed

lemma unknown_parsed:
  assumes p: "\<And>j m res. j \<noteq> None \<Longrightarrow> reply_json jmsg = j \<Longrightarrow> mem_ok m \<Longrightarrow> p j m = Inr res \<Longrightarrow> parsed j m res"
    and m: "mem_ok m" and run: "parse_event_unknown p jmsg m = Inr (ret, msg, m')"
  shows "parsed jmsg m (0, msg, m')"
proof -
  obtain ret1 u where u: "parse_tgev_common jmsg zero_unknown = Inr (ret1, u)"
    using run by (auto simp: parse_event_unknown_def run_simps)
  show ?thesis
  proof (cases "ret1 = 0")
    case False
    then show ?thesis using run u by (auto simp: parse_event_unknown_def intro: parsed_own)
  next
    case True
    then obtain ret2 c es m1 where e: "load_entities jmsg ''entities'' m = Inr (ret2, c, es, m1)"
      using run u by (auto simp: parse_event_unknown_def run_simps)
    have g: "grows m m1 (block_of es)" "ret2 = 0 \<or> es = None" using load_entities_grows [OF e] by auto
    show ?thesis
    proof (cases "ret2 < 0")
      case neg: True
      then show ?thesis using run u True e g by (auto simp: parse_event_unknown_def intro: parsed_own)
    next
      case False
      then obtain rp where r: "parse_reply_to p jmsg m1 = Inr (rp, m')"
          "msg = MsgUnknown (u\<lparr> uk_entity_c := c, uk_entities := es \<rparr>) rp"
        using run u True e by (auto simp: parse_event_unknown_def run_simps)
      have "reply_parsed jmsg m1 (rp, m')" by (rule reply_to_parsed [OF p grows_ok [OF g(1) m] r(1)])
      then obtain L where "grows m1 m' (owned_reply rp \<union> L)" "tight_reply rp (reply_json jmsg) \<longrightarrow> L = {}"
          "reply_json jmsg = None \<longrightarrow> rp = NullReply"
        unfolding reply_parsed_def prod.case by (elim exE conjE)
      then show ?thesis using grows_trans [OF g(1)] r(2)
        by (auto simp: parsed_def intro!: exI [of _ "block_of es \<union> (owned_reply rp \<union> L)"])
    qed
  qed
qed

text \<open>The codes of the parsers, and that a parser which answers \<open>-ECANCELED\<close> has done nothing.\<close>

definition rets :: "(int \<times> 's) res \<Rightarrow> bool" where
  "rets r \<longleftrightarrow> (\<forall>ret s. r = Inr (ret, s) \<longrightarrow> ret = 0 \<or> ret = - EINVAL)"

lemma rets_Inr: "rets (Inr (0, s))" "rets (Inr (- EINVAL, s))"
  by (simp_all add: rets_def)

lemma rets_req: "(\<And>r. rets (k r)) \<Longrightarrow> rets (req j key s k)"
  by (simp add: req_def rets_def split: option.split)

lemma rets_sub: "rets r \<Longrightarrow> (\<And>s. rets (k s)) \<Longrightarrow> rets (sub_parse r put k)"
  by (cases r; simp add: sub_parse_def rets_def split: prod.split; blast)

lemma rets_bind: "(\<And>x. rets (f x)) \<Longrightarrow> rets (ebind r f)"
  by (cases r) (simp_all add: rets_def)

lemma rets_option: "rets x \<Longrightarrow> (\<And>r. rets (f r)) \<Longrightarrow> rets (case o' of None \<Rightarrow> x | Some r \<Rightarrow> f r)"
  by (cases o') simp_all

lemma rets_if: "rets x \<Longrightarrow> rets y \<Longrightarrow> rets (if b then x else y)"
  by simp

lemmas rets_intros = rets_req rets_sub rets_bind rets_option rets_if rets_Inr

lemma rets_file: "rets (parse_tgevi_file j f)"
  unfolding parse_tgevi_file_def Let_def by (intro rets_intros)

lemma rets_media: "rets (parse_tgevi_media j f)"
  unfolding parse_tgevi_media_def Let_def by (intro rets_intros rets_file)

lemma rets_from: "rets (parse_tgevi_from j f)"
  unfolding parse_tgevi_from_def Let_def by (intro rets_intros)

lemma rets_chat: "rets (parse_tgevi_chat j f)"
  unfolding parse_tgevi_chat_def parse_chat_private_def parse_chat_group_def Let_def by (intro rets_intros)

lemma rets_sticker: "rets (parse_tgevi_sticker j f)"
  unfolding parse_tgevi_sticker_def Let_def by (intro rets_intros rets_file)

lemma rets_common: "rets (parse_tgev_common j c)"
  unfolding parse_tgev_common_def parse_forward_def parse_forward_date_def parse_sender_chat_def Let_def
  by (intro rets_intros rets_from rets_chat)

lemma rets_cases: "rets r \<Longrightarrow> r = Inr (ret, s) \<Longrightarrow> ret = 0 \<or> ret = - EINVAL"
  by (simp add: rets_def)

lemma entities_ret: "load_entities j key m = Inr (ret, x) \<Longrightarrow> ret = 0 \<or> ret = - ENOMEM"
  by (auto simp: load_entities_def parse_tgevi_entities_def run_simps Let_def split: option.splits if_splits prod.splits)

lemma caption_ret: "load_caption j m = Inr (ret, x) \<Longrightarrow> ret = 0 \<or> ret = - ENOMEM"
  by (auto simp: load_caption_def run_simps split: option.splits dest: entities_ret)

lemma text_cancel:
  assumes "parse_event_text p j m = Inr (- ECANCELED, msg, m')"
  shows "m' = m \<and> json_object_object_get_ex j ''text'' = None"
proof (cases "json_object_object_get_ex j ''text''")
  case (Some r)
  then obtain ret t where t: "parse_tgev_common j (zero_text\<lparr> tx_text := json_object_get_string r \<rparr>) = Inr (ret, t)"
    using assms by (auto simp: parse_event_text_def run_simps)
  then show ?thesis using assms Some rets_cases [OF rets_common t]
    by (auto simp: parse_event_text_def run_simps Let_def split: if_splits)
qed (use assms in \<open>simp add: parse_event_text_def\<close>)

lemma photo_cancel:
  assumes "parse_event_photo j m = Inr (- ECANCELED, msg, m')"
  shows "m' = m \<and> json_object_object_get_ex j ''photo'' = None"
proof (cases "json_object_object_get_ex j ''photo''")
  case (Some r)
  then obtain n ret fs m1 where f: "json_object_array_length r = Inr n" "parse_tgevi_photos r (word_of_nat n) m = Inr (ret, fs, m1)"
    using assms by (auto simp: parse_event_photo_def run_simps Let_def)
  then have "\<not> ret < 0" using assms Some by (auto simp: parse_event_photo_def)
  then obtain ret' q where q: "parse_tgev_common j (zero_photo\<lparr> ph_photo_c := word_of_nat n, ph_photo := fs \<rparr>) = Inr (ret', q)"
    using assms Some f by (auto simp: parse_event_photo_def run_simps Let_def)
  then show ?thesis using assms Some f \<open>\<not> ret < 0\<close> rets_cases [OF rets_common q]
    by (auto simp: parse_event_photo_def run_simps Let_def split: if_splits)
qed (use assms in \<open>simp add: parse_event_photo_def\<close>)

lemma sticker_cancel:
  assumes "parse_event_sticker p j m = Inr (- ECANCELED, msg, m')"
  shows "m' = m \<and> json_object_object_get_ex j ''sticker'' = None"
proof (cases "json_object_object_get_ex j ''sticker''")
  case (Some r)
  then obtain ret st where st: "parse_tgevi_sticker r (es_sticker zero_stk) = Inr (ret, st)"
    using assms by (auto simp: parse_event_sticker_def run_simps)
  have "ret = 0" using assms Some st rets_cases [OF rets_sticker st] by (auto simp: parse_event_sticker_def)
  then obtain ret' s where s: "parse_tgev_common j (zero_stk\<lparr> es_sticker := st \<rparr>) = Inr (ret', s)"
    using assms Some st by (auto simp: parse_event_sticker_def run_simps Let_def)
  then show ?thesis using assms Some st \<open>ret = 0\<close> rets_cases [OF rets_common s]
    by (auto simp: parse_event_sticker_def run_simps Let_def split: if_splits)
qed (use assms in \<open>simp add: parse_event_sticker_def\<close>)

lemma gif_cancel:
  assumes "parse_event_gif j m = Inr (- ECANCELED, msg, m')"
  shows "m' = m \<and> json_object_object_get_ex j ''animation'' = None"
proof (cases "json_object_object_get_ex j ''animation''")
  case (Some r)
  then obtain ret a where a: "parse_tgevi_media r (gf_animation zero_gif) = Inr (ret, a)"
    using assms by (auto simp: parse_event_gif_def run_simps)
  have r0: "ret = 0" using assms Some a rets_cases [OF rets_media a] by (auto simp: parse_event_gif_def)
  then obtain r' where r': "json_object_object_get_ex j ''document'' = Some r'"
    using assms Some a by (cases "json_object_object_get_ex j ''document''") (auto simp: parse_event_gif_def)
  then obtain u d where d: "parse_tgevi_file r' zero_file = Inr (u, d)"
    using assms Some a r0 by (auto simp: parse_event_gif_def run_simps zero_document)
  then obtain ret1 g where g: "parse_tgev_common j (zero_gif\<lparr> gf_animation := a, gf_document := d \<rparr>) = Inr (ret1, g)"
    using assms Some a r' r0 by (auto simp: parse_event_gif_def run_simps zero_document Let_def)
  have "ret1 = 0" using assms Some a r' r0 d g rets_cases [OF rets_common g]
    by (auto simp: parse_event_gif_def Let_def zero_document)
  then show ?thesis using assms Some a r' r0 d g
    by (auto simp: parse_event_gif_def run_simps Let_def zero_document split: if_splits dest: caption_ret)
qed (use assms in \<open>simp add: parse_event_gif_def\<close>)

text \<open>An alternative is taken with the memory as it was.\<close>

lemma or_else_parsed:
  assumes run: "or_else r k = Inr res"
    and r: "\<And>res. r = Inr res \<Longrightarrow> parsed j m res" "\<And>msg m'. r = Inr (- ECANCELED, msg, m') \<Longrightarrow> m' = m"
    and k: "\<And>res. k m = Inr res \<Longrightarrow> parsed j m res"
  shows "parsed j m res"
proof -
  obtain ret msg m' where 1: "r = Inr (ret, msg, m')" using run by (auto simp: or_else_def run_simps)
  show ?thesis
  proof (cases "ret = - ECANCELED")
    case True
    then show ?thesis using run 1 r(2) k by (simp add: or_else_def)
  next
    case False
    then show ?thesis using run 1 r(1) by (simp add: or_else_def)
  qed
qed

lemma message_parsed: "mem_ok m \<Longrightarrow> parse_message_json_obj jmsg m = Inr res \<Longrightarrow> parsed jmsg m res"
proof (induction "size_option size jmsg" arbitrary: jmsg m res rule: less_induct)
  case less
  note m = less.prems(1)
  have p: "parsed j m1 r" if "j \<noteq> None" "reply_json jmsg = j" "mem_ok m1" "parse_message_json_obj j m1 = Inr r" for j m1 r
  proof -
    have "json_object_object_get_ex jmsg ''reply_to_message'' = Some j"
      using that(1,2) by (auto simp: reply_json_def split: option.splits)
    then show ?thesis using less.hyps [of j m1 r] member_size [of jmsg] that by auto
  qed
  have u: "parsed jmsg m res"
    if run: "ebind (parse_event_unknown parse_message_json_obj jmsg m) (\<lambda>(ret, msg, m). Inr (0, msg, m)) = Inr res" for res
  proof -
    obtain ret msg m' where 1: "parse_event_unknown parse_message_json_obj jmsg m = Inr (ret, msg, m')" "res = (0, msg, m')"
      using run by (cases "parse_event_unknown parse_message_json_obj jmsg m") auto
    show ?thesis unfolding 1(2) by (rule unknown_parsed [OF p m 1(1)])
  qed
  have t: "parsed jmsg m res" if "parse_event_text parse_message_json_obj jmsg m = Inr res" for res
    by (rule text_parsed [OF p m that])
  have s: "parsed jmsg m res" if "parse_event_sticker parse_message_json_obj jmsg m = Inr res" for res
    by (rule sticker_parsed [OF p m that])
  show ?case
    using less.prems(2) unfolding parse_message_json_obj.simps [of jmsg]
    by (elim or_else_parsed)
      (auto dest: text_cancel photo_cancel sticker_cancel gif_cancel intro: t photo_parsed s gif_parsed u)
qed

section \<open>Loading and releasing\<close>

text \<open>The message of the document that an event holds.\<close>

definition message_json :: "json \<Rightarrow> json" where
  "message_json j = (case json_object_object_get_ex j ''message'' of None \<Rightarrow> None | Some jmsg \<Rightarrow> jmsg)"

lemma parse_message_parsed:
  "mem_ok m \<Longrightarrow> parse_message j m = Inr res \<Longrightarrow> parsed (message_json j) m res"
  by (auto simp: parse_message_def message_json_def split: option.splits intro: message_parsed parsed_own)

text \<open>A document in memory: the parser counts one that is not null.\<close>

lemma json_parse_counts:
  assumes "tg_event_json_parse env s m = Inr (ret, j, m')"
  shows "m' = m\<lparr> mm_json := (if j = None then mm_json m else Suc (mm_json m)) \<rparr>"
  using assms
  by (auto simp: tg_event_json_parse_def run_simps split: if_splits)

text \<open>What is left after the release of a message that has been parsed from \<open>m\<close>.\<close>

definition released :: "mem \<Rightarrow> bool \<Rightarrow> mem \<Rightarrow> bool" where
  "released m exact m' \<longleftrightarrow>
     mm_live m \<subseteq> mm_live m' \<and> mm_json m' = mm_json m \<and> mm_ok m' = mm_ok m \<and> mem_ok m' \<and> (exact \<longrightarrow> mm_live m' = mm_live m)"

lemma destroy_top:
  assumes m: "mem_ok m" and p: "parsed j m (ret, msg, m')"
    and n: "m = m0\<lparr> mm_json := (if doc = None then mm_json m0 else Suc (mm_json m0)) \<rparr>"
  shows "\<exists>m''. tg_event_destroy (Tgev doc uid False msg) m' = Inr m'' \<and> released m0 (ret \<noteq> 0 \<or> tight_msg msg j) m''"
proof -
  obtain L where L: "sep_msg msg" "grows m m' (owned_msg msg \<union> L)" "owned_msg msg \<inter> L = {}"
      "ret \<noteq> 0 \<or> tight_msg msg j \<longrightarrow> L = {}"
    using p by (auto simp: parsed_def)
  then have sub: "owned_msg msg \<subseteq> mm_live m'" by (auto simp: grows_def)
  have old: "owned_msg msg \<inter> mm_live m = {}"
    using L(2) m by (fastforce simp: grows_def mem_ok_def)
  have live: "mm_live m' - owned_msg msg = L \<union> mm_live m" using L(2,3) old by (auto simp: grows_def)
  have "mem_ok m'" by (rule grows_ok [OF L(2) m])
  then have "released m0 (ret \<noteq> 0 \<or> tight_msg msg j) (m'\<lparr> mm_live := mm_live m' - owned_msg msg, mm_json := mm_json m0 \<rparr>)"
    using L(2,4) n live by (auto simp: released_def grows_def mem_ok_def)
  moreover have "tg_event_destroy (Tgev doc uid False msg) m' =
      Inr (m'\<lparr> mm_live := mm_live m' - owned_msg msg, mm_json := mm_json m0 \<rparr>)"
    using destroy_frees(2) [OF L(1) sub] L(2) n by (cases m') (auto simp: json_put_def grows_def)
  ultimately show ?thesis by blast
qed

lemma bool_int_nonneg [simp]: "\<not> bool_int x < 0"
  by (simp add: bool_int_def)

lemma load_released:
  assumes m: "mem_ok m" and run: "internal_tg_event_load_str env s m = Inr (ret, evt, m')"
  shows "(ret = 0 \<longrightarrow> (\<exists>m''. tg_event_destroy evt m' = Inr m'' \<and> released m (tight_ev evt (message_json (ev_json evt))) m'')) \<and>
         (ret \<noteq> 0 \<longrightarrow> released m True m')"
proof -
  obtain ret1 j m1 where 1: "tg_event_json_parse env s m = Inr (ret1, j, m1)"
    using run by (auto simp: internal_tg_event_load_str_def run_simps)
  have m1: "m1 = m\<lparr> mm_json := (if j = None then mm_json m else Suc (mm_json m)) \<rparr>" by (rule json_parse_counts [OF 1])
  then have ok: "mem_ok m1" using m by (simp add: mem_ok_def)
  obtain ret2 uid where 2: "parse_update_id j = (ret2, uid)" by fastforce
  have none: "parsed j m1 (- EINVAL, NoMsg, m1)" by (simp add: parsed_own)
  show ?thesis
  proof (cases "ret2 = 0")
    case False
    then show ?thesis using run 1 2 destroy_top [OF ok none m1, of uid]
      by (auto simp: internal_tg_event_load_str_def bool_int_nonneg)
  next
    case True
    then obtain ret3 msg m2 where 3: "parse_message j m1 = Inr (ret3, msg, m2)"
      using run 1 2 by (auto simp: internal_tg_event_load_str_def run_simps bool_int_nonneg)
    note top = destroy_top [OF ok parse_message_parsed [OF ok 3] m1, of uid]
    show ?thesis
    proof (cases "ret3 = 0")
      case r3: True
      then have "ret = 0" "evt = Tgev j uid False msg" "m' = m2"
        using run 1 2 3 True by (simp_all add: internal_tg_event_load_str_def bool_int_nonneg)
      then show ?thesis using top r3 by simp
    next
      case False
      then show ?thesis using run 1 2 3 True top
        by (auto simp: internal_tg_event_load_str_def bool_int_nonneg)
    qed
  qed
qed

end
