(* ===== verification/Tg_Event_Load.thy ===== *)
theory Tg_Event_Load
  imports Tg_Event_Mem
begin

text \<open>
  What loading a Telegram event yields: the kind of the event and the values of its members
  in terms of the JSON document, the faults that can happen, and the properties of the
  component.
\<close>

section \<open>Members of the document\<close>

fun json_path :: "json \<Rightarrow> bytes list \<Rightarrow> json option" where
  "json_path j [] = Some j"
| "json_path j (k # ks) = (case json_object_object_get_ex j k of None \<Rightarrow> None | Some v \<Rightarrow> json_path v ks)"

lemma json_path_single: "json_path j [k] = json_object_object_get_ex j k"
  by (simp split: option.split)

lemma json_path_pair:
  "json_path j [k, l] = (case json_object_object_get_ex j k of None \<Rightarrow> None | Some v \<Rightarrow> json_object_object_get_ex v l)"
  by (simp split: option.split)

definition post :: "('s \<Rightarrow> bool) \<Rightarrow> (int \<times> 's) res \<Rightarrow> bool" where
  "post P r \<longleftrightarrow> (\<forall>s. r = Inr (0, s) \<longrightarrow> P s)"

lemma post_Inr: "P s \<Longrightarrow> post P (Inr (ret, s))"
  by (simp add: post_def)

lemma post_err: "post P (Inr (- EINVAL, s))"
  by (simp add: post_def)

lemma post_if: "post P x \<Longrightarrow> post P y \<Longrightarrow> post P (if b then x else y)"
  by simp

lemma post_req: "(\<And>r. json_object_object_get_ex j key = Some r \<Longrightarrow> post P (k r)) \<Longrightarrow> post P (req j key s k)"
  by (simp add: req_def post_def split: option.split)

lemma post_sub: "post Q r \<Longrightarrow> (\<And>p. Q p \<Longrightarrow> post P (k (put p))) \<Longrightarrow> post P (sub_parse r put k)"
  by (cases r; simp add: sub_parse_def post_def split: prod.split; blast)

lemma post_bind: "(\<And>x. post P (f x)) \<Longrightarrow> post P (ebind r f)"
  by (cases r) (simp_all add: post_def)

lemma post_keeps: "keeps P r \<Longrightarrow> post P r"
  by (simp add: keeps_def post_def)

lemma post_True: "post (\<lambda>s. True) r"
  by (simp add: post_def)

lemma post_option: "(o' = None \<Longrightarrow> post P x) \<Longrightarrow> (\<And>r. o' = Some r \<Longrightarrow> post P (f r)) \<Longrightarrow>
    post P (case o' of None \<Rightarrow> x | Some r \<Rightarrow> f r)"
  by (cases o') simp_all

text \<open>The identities: of a user, of a chat, of a message.\<close>

definition from_fields :: "json \<Rightarrow> tgevi_from \<Rightarrow> bool" where
  "from_fields j f \<longleftrightarrow>
     Some (fr_id f) = map_option json_object_get_uint64 (json_object_object_get_ex j ''id'') \<and>
     Some (fr_first_name f) = map_option json_object_get_string (json_object_object_get_ex j ''first_name'') \<and>
     fr_username f = opt_string j ''username''"

lemma from_post: "post (from_fields j) (parse_tgevi_from j f)"
  unfolding parse_tgevi_from_def Let_def
  by (intro post_req post_bind post_Inr) (simp add: from_fields_def)

definition chat_fields :: "json \<Rightarrow> tgevi_chat \<Rightarrow> bool" where
  "chat_fields j c \<longleftrightarrow>
     Some (ct_id c) = map_option json_object_get_int64 (json_object_object_get_ex j ''id'')"

lemma chat_post: "post (chat_fields j) (parse_tgevi_chat j c)"
proof -
  have sub: "post (chat_fields j) r" if "keeps (\<lambda>c'. ct_id c' = ct_id c) r" "chat_fields j c" for r c
    using that unfolding post_def keeps_def chat_fields_def by metis
  have priv: "keeps (\<lambda>c'. ct_id c' = ct_id c) (parse_chat_private j c)" for c
    unfolding parse_chat_private_def Let_def by (intro keeps_req keeps_Inr) simp_all
  have grp: "keeps (\<lambda>c'. ct_id c' = ct_id c) (parse_chat_group j c)" for c
    unfolding parse_chat_group_def by (intro keeps_seq keeps_req keeps_Inr) (auto intro!: keeps_req keeps_Inr)
  show ?thesis
    unfolding parse_tgevi_chat_def Let_def
    by (intro post_req post_err post_option post_sub [where Q = "chat_fields j"] post_if post_Inr sub [OF priv] sub [OF grp])
      (simp_all add: chat_fields_def)
qed


definition common_fields :: "json \<Rightarrow> 'a tgev_common_scheme \<Rightarrow> bool" where
  "common_fields j c \<longleftrightarrow>
     Some (tc_msg_id c) = map_option json_object_get_uint64 (json_object_object_get_ex j ''message_id'') \<and>
     (\<exists>r. json_object_object_get_ex j ''from'' = Some r \<and> from_fields r (tc_from c)) \<and>
     (\<exists>r. json_object_object_get_ex j ''chat'' = Some r \<and> chat_fields r (tc_chat c)) \<and>
     Some (tc_date c) = map_option json_object_get_int64 (json_object_object_get_ex j ''date'')"

text \<open>The members that the three optional parts leave alone.\<close>

lemma optional_keeps:
  fixes c :: "'a tgev_common_scheme"
  defines "same \<equiv> \<lambda>c'. tc_msg_id c' = tc_msg_id c \<and> tc_from c' = tc_from c \<and> tc_chat c' = tc_chat c"
  shows "keeps same (parse_forward j c)" "keeps same (parse_forward_date j c)" "keeps same (parse_sender_chat j c)"
proof -
  show "keeps same (parse_forward j c)"
    unfolding parse_forward_def by (intro keeps_option keeps_sub keeps_Inr) (simp_all add: same_def)
  show "keeps same (parse_sender_chat j c)"
    unfolding parse_sender_chat_def by (intro keeps_option keeps_sub keeps_Inr) (simp_all add: same_def)
  show "keeps same (parse_forward_date j c)"
    unfolding parse_forward_date_def by (simp add: keeps_req keeps_Inr same_def)
qed

lemma common_post: "post (common_fields j) (parse_tgev_common j c)"
  unfolding parse_tgev_common_def Let_def
  by (intro post_req post_sub [OF from_post] post_sub [OF optional_keeps(1) [THEN post_keeps]]
      post_sub [OF optional_keeps(2) [THEN post_keeps]] post_sub [OF chat_post]
      post_sub [OF optional_keeps(3) [THEN post_keeps]] post_Inr)
    (simp add: common_fields_def)

text \<open>
  An event of the unknown kind is kept even when its parser stops at a missing member: an identity is
  then that of the document, or still the 0 of the cleared structure.
\<close>

definition id_or_zero :: "(json \<Rightarrow> u64) \<Rightarrow> json option \<Rightarrow> u64 \<Rightarrow> bool" where
  "id_or_zero get v x \<longleftrightarrow> x = 0 \<or> Some x = map_option get v"

definition partial_fields :: "json \<Rightarrow> 'a tgev_common_scheme \<Rightarrow> bool" where
  "partial_fields j c \<longleftrightarrow>
     id_or_zero json_object_get_uint64 (json_path j [''message_id'']) (tc_msg_id c) \<and>
     id_or_zero json_object_get_uint64 (json_path j [''from'', ''id'']) (fr_id (tc_from c)) \<and>
     id_or_zero json_object_get_int64 (json_path j [''chat'', ''id'']) (ct_id (tc_chat c))"

lemma keeps_member:
  "P s \<Longrightarrow> (\<And>r. json_object_object_get_ex j key = Some r \<Longrightarrow> keeps P (k r)) \<Longrightarrow> keeps P (req j key s k)"
  by (simp add: req_def keeps_def split: option.split)

lemma keeps_part:
  "keeps Q r \<Longrightarrow> (\<And>p. Q p \<Longrightarrow> P (put p)) \<Longrightarrow> (\<And>p. Q p \<Longrightarrow> keeps P (k (put p))) \<Longrightarrow> keeps P (sub_parse r put k)"
  by (cases r; simp add: sub_parse_def keeps_def split: prod.split; blast)

lemma keeps_bind: "(\<And>x. keeps P (f x)) \<Longrightarrow> keeps P (ebind r f)"
  by (cases r) (simp_all add: keeps_def)

lemma from_partial:
  assumes "fr_id f = 0"
  shows "keeps (\<lambda>f. id_or_zero json_object_get_uint64 (json_object_object_get_ex j ''id'') (fr_id f)) (parse_tgevi_from j f)"
  unfolding parse_tgevi_from_def Let_def
  by (intro keeps_member keeps_bind keeps_Inr) (simp_all add: id_or_zero_def assms)

lemma chat_partial:
  assumes "ct_id c = 0"
  shows "keeps (\<lambda>c. id_or_zero json_object_get_int64 (json_object_object_get_ex j ''id'') (ct_id c)) (parse_tgevi_chat j c)"
proof -
  have priv: "keeps (\<lambda>c'. ct_id c' = ct_id c) (parse_chat_private j c)" for c
    unfolding parse_chat_private_def Let_def by (intro keeps_req keeps_Inr) simp_all
  have grp: "keeps (\<lambda>c'. ct_id c' = ct_id c) (parse_chat_group j c)" for c
    unfolding parse_chat_group_def by (intro keeps_seq keeps_req keeps_Inr) (auto intro!: keeps_req keeps_Inr)
  have branch: "keeps (\<lambda>c'. P (ct_id c')) (if b then parse_chat_private j c else parse_chat_group j c)" if "P (ct_id c)" for b c P
    using that priv [of c] grp [of c] unfolding keeps_def by (metis (full_types))
  show ?thesis
    unfolding parse_tgevi_chat_def Let_def
    by (intro keeps_member keeps_option keeps_seq branch keeps_Inr) (simp_all add: id_or_zero_def assms)
qed

lemma common_partial:
  assumes "tc_msg_id c = 0" "fr_id (tc_from c) = 0" "ct_id (tc_chat c) = 0"
  shows "keeps (partial_fields j) (parse_tgev_common j c)"
  unfolding parse_tgev_common_def Let_def
  by (intro keeps_member keeps_part [OF from_partial] keeps_part [OF optional_keeps(1)] keeps_part [OF optional_keeps(2)]
      keeps_part [OF chat_partial] keeps_part [OF optional_keeps(3)] keeps_Inr)
    (simp_all add: partial_fields_def id_or_zero_def assms json_path_single json_path_pair del: json_path.simps)

lemma unknown_partial: "parse_tgev_common j zero_unknown = Inr (ret, u) \<Longrightarrow> partial_fields j u"
  using common_partial [of zero_unknown j]
  by (simp add: keeps_def zero_unknown_def zero_common_def zero_from_def zero_chat_def tgev_common.defs)

lemma partial_fields_update [simp]: "partial_fields j (u\<lparr> uk_entity_c := c, uk_entities := es \<rparr>) = partial_fields j u"
  by (simp add: partial_fields_def)

section \<open>Kind and members of a message\<close>

definition kind_of :: "json \<Rightarrow> u64" where
  "kind_of j =
     (if json_object_object_get_ex j ''text'' \<noteq> None then TGEV_TEXT
      else if json_object_object_get_ex j ''photo'' \<noteq> None then TGEV_PHOTO
      else if json_object_object_get_ex j ''sticker'' \<noteq> None then TGEV_STICKER
      else if json_object_object_get_ex j ''animation'' \<noteq> None then TGEV_GIF
      else TGEV_UNKNOWN)"

text \<open>A message whose parser returns an error, for lack of a member or of memory.\<close>

definition reply_unread :: "json \<Rightarrow> bool" where
  "reply_unread j \<longleftrightarrow> (\<exists>m ret msg m'. parse_message_json_obj j m = Inr (ret, msg, m') \<and> ret \<noteq> 0)"

lemma reply_unreadI: "parse_message_json_obj j m = Inr (ret, msg, m') \<Longrightarrow> ret \<noteq> 0 \<Longrightarrow> reply_unread j"
  by (auto simp: reply_unread_def)

text \<open>
  The members that an event and the messages it replies to have from the document.
\<close>

primrec fields_ev :: "tgev \<Rightarrow> json \<Rightarrow> bool" and fields_msg :: "tgev_msg \<Rightarrow> json \<Rightarrow> bool" and fields_reply :: "reply \<Rightarrow> json \<Rightarrow> bool" where
  "fields_ev (Tgev json uid replied msg) j = (json = j \<and> msg_type msg = kind_of j \<and> fields_msg msg j)"
| "fields_msg NoMsg j = False"
| "fields_msg (MsgUnknown u r) j = partial_fields j u"
| "fields_msg (MsgText t r) j =
     (common_fields j t \<and> tx_text t = opt_string j ''text'' \<and> fields_reply r (reply_json j))"
| "fields_msg (MsgPhoto p r) j = (common_fields j p \<and> ph_caption p = opt_string j ''caption'' \<and> r = NullReply)"
| "fields_msg (MsgSticker s r) j = (common_fields j s \<and> fields_reply r (reply_json j))"
| "fields_msg (MsgGif g r) j = (common_fields j g \<and> gf_caption g = opt_string j ''caption'' \<and> r = NullReply)"
| "fields_reply NullReply j = (j \<noteq> None \<longrightarrow> reply_unread j)"
| "fields_reply (Reply a evt) j = (j \<noteq> None \<and> fields_ev evt j)"

definition read :: "json \<Rightarrow> int \<times> tgev_msg \<times> mem \<Rightarrow> bool" where
  "read j res \<longleftrightarrow> (case res of (ret, msg, m) \<Rightarrow> msg_type msg = kind_of j \<and> (ret = 0 \<longrightarrow> fields_msg msg j))"

lemma reply_to_fields:
  assumes "\<And>j m res. j \<noteq> None \<Longrightarrow> reply_json jmsg = j \<Longrightarrow> parse_message_json_obj j m = Inr res \<Longrightarrow> read j res"
    and "parse_reply_to parse_message_json_obj jmsg m = Inr (r, m')"
  shows "fields_reply r (reply_json jmsg)"
proof (cases "reply_json jmsg")
  case None
  then have "r = NullReply"
    using assms(2) by (auto simp: parse_reply_to_def reply_json_def split: option.splits)
  then show ?thesis using None by simp
next
  case (Some j)
  then have "parse_replied_msg parse_message_json_obj (Some j) m = Inr (r, m')"
    using assms(2) by (auto simp: parse_reply_to_def reply_json_def split: option.splits)
  then show ?thesis using assms(1) Some
    by (auto simp: parse_replied_msg_def read_def run_simps split: prod.splits option.splits if_splits intro: reply_unreadI)
qed

lemma common_read: "parse_tgev_common j c = Inr (0, c') \<Longrightarrow> common_fields j c'"
  using common_post [of j c] by (simp add: post_def)

lemma common_text_member: "parse_tgev_common j (t :: tgev_text) = Inr (ret, t') \<Longrightarrow> tx_text t' = tx_text t"
  by (drule common_more, cases t, cases t') simp

lemma common_fields_update [simp]:
  "common_fields j (t\<lparr> tx_entity_c := c, tx_entities := es \<rparr>) = common_fields j t"
  "common_fields j (q\<lparr> ph_caption := cap, ph_entity_c := c, ph_entities := es \<rparr>) = common_fields j q"
  "common_fields j (g\<lparr> gf_caption := cap, gf_entity_c := c, gf_entities := es \<rparr>) = common_fields j g"
  by (simp_all add: common_fields_def)

lemma caption_read: "load_caption j m = Inr (ret, cap, x) \<Longrightarrow> cap = opt_string j ''caption''"
  by (auto simp: load_caption_def opt_string_def run_simps split: option.splits)

lemma text_read:
  assumes p: "\<And>j m res. j \<noteq> None \<Longrightarrow> reply_json jmsg = j \<Longrightarrow> parse_message_json_obj j m = Inr res \<Longrightarrow> read j res"
    and k: "json_object_object_get_ex jmsg ''text'' = Some r"
    and run: "parse_event_text parse_message_json_obj jmsg m = Inr res"
  shows "read jmsg res"
proof -
  have kind: "kind_of jmsg = TGEV_TEXT" using k by (simp add: kind_of_def)
  obtain ret t where t: "parse_tgev_common jmsg (zero_text\<lparr> tx_text := json_object_get_string r \<rparr>) = Inr (ret, t)"
    using run k by (auto simp: parse_event_text_def run_simps)
  have tx: "tx_text t = opt_string jmsg ''text''" using common_text_member [OF t] k by (simp add: opt_string_def)
  show ?thesis
  proof (cases "ret = 0")
    case True
    then show ?thesis
      using run k t kind common_read [of jmsg _ t] tx
      by (auto simp: parse_event_text_def run_simps read_def Let_def split: if_splits simp del: fields_reply.simps intro: reply_to_fields [OF p])
  next
    case False
    then show ?thesis using run k t kind by (auto simp: parse_event_text_def read_def)
  qed
qed

lemma photo_read:
  assumes k: "json_object_object_get_ex jmsg ''text'' = None" "json_object_object_get_ex jmsg ''photo'' = Some r"
    and run: "parse_event_photo jmsg m = Inr res"
  shows "read jmsg res"
proof -
  have kind: "kind_of jmsg = TGEV_PHOTO" using k by (simp add: kind_of_def)
  obtain n ret fs m1 where f: "json_object_array_length r = Inr n" "parse_tgevi_photos r (word_of_nat n) m = Inr (ret, fs, m1)"
    using run k by (auto simp: parse_event_photo_def run_simps Let_def)
  show ?thesis
  proof (cases "ret < 0")
    case True
    then show ?thesis using run k f kind by (auto simp: parse_event_photo_def read_def)
  next
    case False
    then obtain ret' q where q: "parse_tgev_common jmsg (zero_photo\<lparr> ph_photo_c := word_of_nat n, ph_photo := fs \<rparr>) = Inr (ret', q)"
      using run k f by (auto simp: parse_event_photo_def run_simps Let_def)
    show ?thesis
    proof (cases "ret' = 0")
      case True
      then have c: "common_fields jmsg q" using common_read q by blast
      obtain ret2 cap c es m2 where e: "load_caption jmsg m1 = Inr (ret2, cap, c, es, m2)"
        using run k f q True False by (auto simp: parse_event_photo_def run_simps Let_def)
      show ?thesis using run k f q True False e kind c caption_read [OF e]
        by (auto simp: parse_event_photo_def Let_def read_def split: if_splits)
    qed (use run k f q False kind in \<open>auto simp: parse_event_photo_def read_def\<close>)
  qed
qed

lemma sticker_read:
  assumes p: "\<And>j m res. j \<noteq> None \<Longrightarrow> reply_json jmsg = j \<Longrightarrow> parse_message_json_obj j m = Inr res \<Longrightarrow> read j res"
    and k: "json_object_object_get_ex jmsg ''text'' = None" "json_object_object_get_ex jmsg ''photo'' = None"
      "json_object_object_get_ex jmsg ''sticker'' = Some r"
    and run: "parse_event_sticker parse_message_json_obj jmsg m = Inr res"
  shows "read jmsg res"
proof -
  have kind: "kind_of jmsg = TGEV_STICKER" using k by (simp add: kind_of_def)
  show ?thesis using run k kind
    by (auto simp: parse_event_sticker_def run_simps read_def Let_def split: if_splits simp del: fields_reply.simps intro: common_read reply_to_fields [OF p])
qed

lemma gif_read:
  assumes k: "json_object_object_get_ex jmsg ''text'' = None" "json_object_object_get_ex jmsg ''photo'' = None"
      "json_object_object_get_ex jmsg ''sticker'' = None" "json_object_object_get_ex jmsg ''animation'' = Some r"
    and run: "parse_event_gif jmsg m = Inr res"
  shows "read jmsg res"
proof -
  have kind: "kind_of jmsg = TGEV_GIF" using k by (simp add: kind_of_def)
  obtain ret a where a: "parse_tgevi_media r (gf_animation zero_gif) = Inr (ret, a)"
    using run k by (auto simp: parse_event_gif_def run_simps)
  show ?thesis
  proof (cases "ret = 0 \<and> json_object_object_get_ex jmsg ''document'' \<noteq> None")
    case False
    then show ?thesis using run k a kind by (cases "ret = 0") (auto simp: parse_event_gif_def Let_def read_def)
  next
    case True
    then obtain r' where r': "json_object_object_get_ex jmsg ''document'' = Some r'" "ret = 0" by auto
    then obtain u d where d: "parse_tgevi_file r' zero_file = Inr (u, d)"
      using run k a by (auto simp: parse_event_gif_def run_simps zero_document)
    then obtain ret1 g where g: "parse_tgev_common jmsg (zero_gif\<lparr> gf_animation := a, gf_document := d \<rparr>) = Inr (ret1, g)"
      using run k a r' by (auto simp: parse_event_gif_def run_simps zero_document Let_def)
    show ?thesis
    proof (cases "ret1 = 0")
      case r0: True
      then have c: "common_fields jmsg g" using common_read g by blast
      obtain ret2 cap c es m1 where e: "load_caption jmsg m = Inr (ret2, cap, c, es, m1)"
        using run k a r' d g r0 by (auto simp: parse_event_gif_def run_simps Let_def zero_document)
      show ?thesis using run k a r' d g r0 e kind c caption_read [OF e]
        by (auto simp: parse_event_gif_def Let_def zero_document read_def split: if_splits)
    qed (use run k a r' d g kind in \<open>auto simp: parse_event_gif_def Let_def zero_document read_def\<close>)
  qed
qed

lemma unknown_read:
  assumes k: "json_object_object_get_ex jmsg ''text'' = None" "json_object_object_get_ex jmsg ''photo'' = None"
      "json_object_object_get_ex jmsg ''sticker'' = None" "json_object_object_get_ex jmsg ''animation'' = None"
    and run: "parse_event_unknown p jmsg m = Inr (ret, msg, m')"
  shows "read jmsg (0, msg, m')"
proof -
  have "kind_of jmsg = TGEV_UNKNOWN" using k by (simp add: kind_of_def)
  then show ?thesis using run unknown_partial [of jmsg]
    by (auto simp: parse_event_unknown_def run_simps read_def Let_def split: if_splits)
qed

lemma cancelled:
  "json_object_object_get_ex jmsg ''text'' = None \<Longrightarrow> parse_event_text p jmsg m = Inr (- ECANCELED, NoMsg, m)"
  "json_object_object_get_ex jmsg ''photo'' = None \<Longrightarrow> parse_event_photo jmsg m = Inr (- ECANCELED, NoMsg, m)"
  "json_object_object_get_ex jmsg ''sticker'' = None \<Longrightarrow> parse_event_sticker p jmsg m = Inr (- ECANCELED, NoMsg, m)"
  "json_object_object_get_ex jmsg ''animation'' = None \<Longrightarrow> parse_event_gif jmsg m = Inr (- ECANCELED, NoMsg, m)"
  by (simp_all add: parse_event_text_def parse_event_photo_def parse_event_sticker_def parse_event_gif_def)

lemma or_else_cancelled: "or_else (Inr (- ECANCELED, msg, m)) k = k m"
  by (simp add: or_else_def)

lemma or_else_taken:
  "or_else r k = Inr res \<Longrightarrow> (\<And>msg m'. r = Inr (- ECANCELED, msg, m') \<Longrightarrow> False) \<Longrightarrow> r = Inr res"
  by (cases r) (auto simp: or_else_def split: if_splits)

lemma message_read: "parse_message_json_obj jmsg m = Inr res \<Longrightarrow> read jmsg res"
proof (induction "size_option size jmsg" arbitrary: jmsg m res rule: less_induct)
  case less
  have p: "read j r" if "j \<noteq> None" "reply_json jmsg = j" "parse_message_json_obj j m1 = Inr r" for j m1 r
  proof -
    have "json_object_object_get_ex jmsg ''reply_to_message'' = Some j"
      using that(1,2) by (auto simp: reply_json_def split: option.splits)
    then show ?thesis using less.hyps [of j m1 r] member_size [of jmsg] that by auto
  qed
  note run = less.prems [unfolded parse_message_json_obj.simps [of jmsg]]
  consider (t) r where "json_object_object_get_ex jmsg ''text'' = Some r"
    | (ph) r where "json_object_object_get_ex jmsg ''text'' = None" "json_object_object_get_ex jmsg ''photo'' = Some r"
    | (s) r where "json_object_object_get_ex jmsg ''text'' = None" "json_object_object_get_ex jmsg ''photo'' = None"
        "json_object_object_get_ex jmsg ''sticker'' = Some r"
    | (g) r where "json_object_object_get_ex jmsg ''text'' = None" "json_object_object_get_ex jmsg ''photo'' = None"
        "json_object_object_get_ex jmsg ''sticker'' = None" "json_object_object_get_ex jmsg ''animation'' = Some r"
    | (u) "json_object_object_get_ex jmsg ''text'' = None" "json_object_object_get_ex jmsg ''photo'' = None"
        "json_object_object_get_ex jmsg ''sticker'' = None" "json_object_object_get_ex jmsg ''animation'' = None"
    by (metis not_None_eq)
  then show ?case
  proof cases
    case t
    then have 1: "parse_event_text parse_message_json_obj jmsg m = Inr res"
      using or_else_taken [OF run] text_cancel by fastforce
    show ?thesis by (rule text_read [OF p t 1])
  next
    case ph
    then have 1: "parse_event_photo jmsg m = Inr res"
      using or_else_taken [OF run [unfolded cancelled(1) [OF ph(1)] or_else_cancelled]] photo_cancel by fastforce
    show ?thesis by (rule photo_read [OF ph 1])
  next
    case s
    then have 1: "parse_event_sticker parse_message_json_obj jmsg m = Inr res"
      using or_else_taken [OF run [unfolded cancelled(1) [OF s(1)] cancelled(2) [OF s(2)] or_else_cancelled]] sticker_cancel by fastforce
    show ?thesis by (rule sticker_read [OF p s 1])
  next
    case g
    then have 1: "parse_event_gif jmsg m = Inr res"
      using or_else_taken [OF run [unfolded cancelled(1) [OF g(1)] cancelled(2) [OF g(2)] cancelled(3) [OF g(3)] or_else_cancelled]]
        gif_cancel by fastforce
    show ?thesis by (rule gif_read [OF g 1])
  next
    case u
    then obtain ret msg m' where 1: "parse_event_unknown parse_message_json_obj jmsg m = Inr (ret, msg, m')" "res = (0, msg, m')"
      using run by (cases "parse_event_unknown parse_message_json_obj jmsg m") (auto simp: cancelled or_else_cancelled)
    show ?thesis unfolding 1(2) by (rule unknown_read [OF u 1(1)])
  qed
qed

section \<open>Faults\<close>

text \<open>
  \<open>runs P r\<close>: the run ends in a state that has \<open>P\<close>, or in an assertion of json-c or a null
  pointer; no buffer is overrun and nothing is used after it has been freed.
\<close>

definition runs :: "('s \<Rightarrow> bool) \<Rightarrow> (int \<times> 's) res \<Rightarrow> bool" where
  "runs P r \<longleftrightarrow> (case r of Inl e \<Rightarrow> e = AssertFail \<or> e = NullDeref | Inr (ret, s) \<Rightarrow> P s)"

lemma runs_simps [simp]: "runs P (Inl e) \<longleftrightarrow> e = AssertFail \<or> e = NullDeref" "runs P (Inr (ret, s)) \<longleftrightarrow> P s"
  by (simp_all add: runs_def)

lemma runs_cases: "runs P r \<Longrightarrow> (\<And>ret s. r = Inr (ret, s) \<Longrightarrow> P s \<Longrightarrow> thesis) \<Longrightarrow>
    (r = Inl AssertFail \<or> r = Inl NullDeref \<Longrightarrow> thesis) \<Longrightarrow> thesis"
  by (cases r) auto

lemma runs_req: "P s \<Longrightarrow> (\<And>r. runs P (k r)) \<Longrightarrow> runs P (req j key s k)"
  by (simp add: req_def split: option.split)

lemma runs_sub: "runs Q r \<Longrightarrow> (\<And>p. Q p \<Longrightarrow> P (put p)) \<Longrightarrow> (\<And>p. Q p \<Longrightarrow> runs P (k (put p))) \<Longrightarrow> runs P (sub_parse r put k)"
  by (erule runs_cases) (auto simp: sub_parse_def)

lemma runs_option: "runs P x \<Longrightarrow> (\<And>r. runs P (f r)) \<Longrightarrow> runs P (case o' of None \<Rightarrow> x | Some r \<Rightarrow> f r)"
  by (cases o') simp_all

lemma runs_if: "runs P x \<Longrightarrow> runs P y \<Longrightarrow> runs P (if b then x else y)"
  by simp

lemma runs_Inr: "P s \<Longrightarrow> runs P (Inr (ret, s))"
  by simp

lemma runs_weaken: "runs P r \<Longrightarrow> (\<And>s. P s \<Longrightarrow> Q s) \<Longrightarrow> runs Q r"
  by (erule runs_cases) auto

lemma runs_bind: "runs P r \<Longrightarrow> (\<And>ret s. P s \<Longrightarrow> runs Q (f (ret, s))) \<Longrightarrow> runs Q (ebind r f)"
  by (erule runs_cases) auto

lemmas runs_intros = runs_req runs_option runs_if runs_Inr

lemma runs_file: "runs (\<lambda>f. True) (parse_tgevi_file j f)"
  unfolding parse_tgevi_file_def Let_def by (intro runs_intros TrueI)

lemma runs_media: "runs (\<lambda>f. True) (parse_tgevi_media j f)"
  unfolding parse_tgevi_media_def Let_def
  by (intro runs_intros runs_sub [where Q = "\<lambda>f. True"] runs_file TrueI)

abbreviation lang_ok :: "tgevi_from \<Rightarrow> bool" where
  "lang_ok f \<equiv> length (fr_lang f) = 4"

lemma runs_lang:
  assumes "length l = 4" and "\<And>b. length b = 4 \<Longrightarrow> runs P (f b)"
  shows "runs P (ebind (case x of None \<Rightarrow> buf_set l 0 NUL | Some lang \<Rightarrow> sane_strncpy l lang 4) f)"
  using assms sane_strncpy_fits [of l 4 "the x"] by (cases x) auto

lemma runs_from:
  assumes "lang_ok f"
  shows "runs lang_ok (parse_tgevi_from j f)"
  unfolding parse_tgevi_from_def Let_def by (intro runs_req runs_lang runs_Inr) (simp_all add: assms)

lemma runs_chat: "runs (\<lambda>c. True) (parse_tgevi_chat j c)"
  unfolding parse_tgevi_chat_def parse_chat_private_def parse_chat_group_def Let_def
  by (intro runs_intros runs_sub [where Q = "\<lambda>f. True"] TrueI)

lemma runs_emoji:
  assumes "length l = 6" and "\<And>b. length b = 6 \<Longrightarrow> runs P (f b)"
  shows "runs P (ebind (case x of None \<Rightarrow> Inl NullDeref | Some e \<Rightarrow> sane_strncpy l e 6) f)"
  using assms sane_strncpy_fits [of l 6 "the x"] by (cases x) auto

lemma runs_sticker:
  assumes "length (sk_emoji st) = 6"
  shows "runs (\<lambda>s. True) (parse_tgevi_sticker j st)"
  unfolding parse_tgevi_sticker_def Let_def
  by (intro runs_req runs_emoji runs_sub [OF runs_file] runs_Inr TrueI) (simp add: assms)

lemma runs_common:
  assumes "lang_ok (tc_from c)" and "lang_ok (tc_forward_from c)"
  shows "runs (\<lambda>c. True) (parse_tgev_common j c)"
proof -
  have fwd: "runs (\<lambda>c. True) (parse_forward j c)" if "lang_ok (tc_forward_from c)" for c :: "'a tgev_common_scheme"
    unfolding parse_forward_def by (intro runs_intros runs_sub [OF runs_from] TrueI that)
  have date: "runs (\<lambda>c. True) (parse_forward_date j c)" for c :: "'a tgev_common_scheme"
    unfolding parse_forward_date_def by (intro runs_intros TrueI)
  have sc: "runs (\<lambda>c. True) (parse_sender_chat j c)" for c :: "'a tgev_common_scheme"
    unfolding parse_sender_chat_def by (intro runs_intros runs_sub [OF runs_chat] TrueI)
  show ?thesis unfolding parse_tgev_common_def Let_def
    by (intro runs_req runs_sub [OF runs_from] runs_sub [OF fwd] runs_sub [OF date] runs_sub [OF sc] runs_sub [OF runs_chat]
        runs_Inr TrueI) (simp_all add: assms)
qed

definition tame :: "'s res \<Rightarrow> bool" where
  "tame r \<longleftrightarrow> (\<forall>e. r = Inl e \<longrightarrow> e = AssertFail \<or> e = NullDeref)"

lemma tame_simps [simp]: "tame (Inl e) \<longleftrightarrow> e = AssertFail \<or> e = NullDeref" "tame (Inr x)"
  by (simp_all add: tame_def)

lemma tame_runs: "runs P r \<Longrightarrow> tame r"
  by (erule runs_cases) auto

lemma tame_bind: "tame r \<Longrightarrow> (\<And>x. r = Inr x \<Longrightarrow> tame (f x)) \<Longrightarrow> tame (ebind r f)"
  by (cases r) simp_all

lemma tame_if: "(b \<Longrightarrow> tame x) \<Longrightarrow> (\<not> b \<Longrightarrow> tame y) \<Longrightarrow> tame (if b then x else y)"
  by simp

lemma tame_option: "(o' = None \<Longrightarrow> tame x) \<Longrightarrow> (\<And>r. o' = Some r \<Longrightarrow> tame (f r)) \<Longrightarrow> tame (case o' of None \<Rightarrow> x | Some r \<Rightarrow> f r)"
  by (cases o') simp_all

lemma tame_prod: "(\<And>a b. p = (a, b) \<Longrightarrow> tame (f a b)) \<Longrightarrow> tame (case p of (a, b) \<Rightarrow> f a b)"
  by (cases p) simp

lemmas tame_intros = tame_bind tame_if tame_option tame_prod tame_simps(2)

lemma tame_array: "tame (json_object_array_length j)" "tame (json_object_array_get_idx j i)"
  by (cases j rule: json_object_array_length.cases; simp)+

lemma tame_map: "(\<And>x. tame (f x)) \<Longrightarrow> tame (map_res f xs)"
  by (induction xs) (auto intro!: tame_bind)

lemma tame_entities: "tame (load_entities j key m)"
  unfolding load_entities_def parse_tgevi_entities_def Let_def
  by (intro tame_intros tame_array tame_map)

lemma tame_caption: "tame (load_caption j m)"
  unfolding load_caption_def by (intro tame_intros tame_entities)

lemma tame_photos: "tame (parse_tgevi_photos j c m)"
  unfolding parse_tgevi_photos_def by (intro tame_intros tame_array tame_map tame_runs [OF runs_file])

lemma zero_bufs [simp]:
  "length (fr_lang (tc_from zero_text)) = 4" "length (fr_lang (tc_forward_from zero_text)) = 4"
  "length (fr_lang (tc_from zero_photo)) = 4" "length (fr_lang (tc_forward_from zero_photo)) = 4"
  "length (fr_lang (tc_from zero_stk)) = 4" "length (fr_lang (tc_forward_from zero_stk)) = 4"
  "length (fr_lang (tc_from zero_gif)) = 4" "length (fr_lang (tc_forward_from zero_gif)) = 4"
  "length (fr_lang (tc_from zero_unknown)) = 4" "length (fr_lang (tc_forward_from zero_unknown)) = 4"
  "length (sk_emoji (es_sticker zero_stk)) = 6"
  by (simp_all add: zero_text_def zero_photo_def zero_stk_def zero_gif_def zero_unknown_def zero_common_def zero_from_def
      zero_sticker_def tgev_common.defs tgev_text.defs tgev_photo.defs tgev_sticker.defs tgev_gif.defs tgev_unknown.defs)

lemma tame_common: "lang_ok (tc_from c) \<Longrightarrow> lang_ok (tc_forward_from c) \<Longrightarrow> tame (parse_tgev_common j c)"
  by (rule tame_runs [OF runs_common])

lemma parsed_live: "parsed j m (ret, msg, m') \<Longrightarrow> mm_live m \<subseteq> mm_live m'"
  by (auto simp: parsed_def grows_def)

definition tame_replies :: "msg_parser \<Rightarrow> json \<Rightarrow> bool" where
  "tame_replies p jmsg \<longleftrightarrow>
     (\<forall>j m. j \<noteq> None \<longrightarrow> reply_json jmsg = j \<longrightarrow> mem_ok m \<longrightarrow>
        tame (p j m) \<and> (\<forall>res. p j m = Inr res \<longrightarrow> parsed j m res))"

lemma tame_reply:
  assumes p: "tame_replies p jmsg" and m: "mem_ok m"
  shows "tame (parse_reply_to p jmsg m)"
proof (cases "reply_json jmsg")
  case None
  then show ?thesis by (auto simp: parse_reply_to_def reply_json_def split: option.splits)
next
  case (Some j)
  then have eq: "parse_reply_to p jmsg m = parse_replied_msg p (Some j) m"
    by (auto simp: parse_reply_to_def reply_json_def split: option.splits)
  obtain a m1 where a: "mem_alloc m = (a, m1)" by fastforce
  show ?thesis
  proof (cases a)
    case (Some b)
    then have g: "grows m m1 {b}" using alloc_grows [OF a] by simp
    then have ok: "mem_ok m1" and live: "b \<in> mm_live m1" using grows_ok [OF g m] by (simp_all add: grows_def)
    have t: "tame (p (Some j) m1)" "\<And>res. p (Some j) m1 = Inr res \<Longrightarrow> parsed (Some j) m1 res"
      using p ok \<open>reply_json jmsg = Some j\<close> by (auto simp: tame_replies_def)
    have "tame (mem_free (Some b) m2)" if "p (Some j) m1 = Inr (ret, msg, m2)" for ret msg m2
      using parsed_live [OF t(2) [OF that]] live by (auto simp: mem_free_def)
    then show ?thesis using a Some t(1) unfolding eq parse_replied_msg_def
      by (auto intro!: tame_intros)
  qed (simp add: eq parse_replied_msg_def a)
qed

lemma entities_ok: "mem_ok m \<Longrightarrow> load_entities j key m = Inr (ret, c, es, m') \<Longrightarrow> mem_ok m'"
  using load_entities_grows grows_ok by blast

lemma tame_events:
  assumes p: "tame_replies p jmsg" and m: "mem_ok m"
  shows "tame (parse_event_text p jmsg m)" "tame (parse_event_sticker p jmsg m)" "tame (parse_event_unknown p jmsg m)"
proof -
  show "tame (parse_event_text p jmsg m)" unfolding parse_event_text_def Let_def
    by (intro tame_intros tame_common tame_entities tame_reply p) (simp_all add: entities_ok [OF m])
  show "tame (parse_event_sticker p jmsg m)" unfolding parse_event_sticker_def Let_def
    by (intro tame_intros tame_common tame_runs [OF runs_sticker] tame_reply p m) simp_all
  show "tame (parse_event_unknown p jmsg m)" unfolding parse_event_unknown_def Let_def
    by (intro tame_intros tame_common tame_entities tame_reply p) (simp_all add: entities_ok [OF m])
qed

lemma tame_photo: "tame (parse_event_photo jmsg m)" unfolding parse_event_photo_def Let_def
  by (intro tame_intros tame_array tame_photos tame_common tame_caption) simp_all

lemma tame_gif: "tame (parse_event_gif jmsg m)" unfolding parse_event_gif_def Let_def
  by (intro tame_intros tame_runs [OF runs_media] tame_runs [OF runs_file] tame_common tame_caption) simp_all

lemma tame_or_else:
  "tame r \<Longrightarrow> (\<And>msg m'. r = Inr (- ECANCELED, msg, m') \<Longrightarrow> tame (k m')) \<Longrightarrow> tame (or_else r k)"
  by (cases r) (auto simp: or_else_def)


lemma tame_message: "mem_ok m \<Longrightarrow> tame (parse_message_json_obj jmsg m)"
proof (induction "size_option size jmsg" arbitrary: jmsg m rule: less_induct)
  case less
  have p: "tame_replies parse_message_json_obj jmsg"
    unfolding tame_replies_def
  proof (intro allI impI conjI)
    fix j m assume j: "j \<noteq> None" "reply_json jmsg = j" and m: "mem_ok m"
    then have "json_object_object_get_ex jmsg ''reply_to_message'' = Some j"
      by (auto simp: reply_json_def split: option.splits)
    then show "tame (parse_message_json_obj j m)" using less.hyps [of j m] member_size [of jmsg] j m by auto
    show "parsed j m res" if "parse_message_json_obj j m = Inr res" for res by (rule message_parsed [OF m that])
  qed
  note t = tame_events [OF p less.prems]
  have u: "tame (ebind (parse_event_unknown parse_message_json_obj jmsg m) (\<lambda>(ret, msg, m). Inr (0, msg, m)))"
    using t(3) by (auto intro!: tame_intros)
  show ?case unfolding parse_message_json_obj.simps [of jmsg]
    by (intro tame_or_else t(1) tame_photo)
      (auto dest!: text_cancel photo_cancel sticker_cancel gif_cancel intro!: tame_or_else tame_photo t(2) tame_gif u)
qed

text \<open>One round of the loop is enough for a text that ends in a null byte.\<close>

lemma feed_once:
  assumes "0 < n"
  shows "\<exists>j err. tokener_feed strtod n json_tokener_new (s @ [NUL]) = Inr (j, err) \<and> (err = json_tokener_success \<or> j = None)"
proof -
  obtain n' where "n = Suc n'" using assms by (cases n) auto
  then show ?thesis using parse_ex_decides [of strtod s] by auto
qed

lemma tame_load:
  assumes m: "mem_ok m" and n: "0 < je_fuel env"
  shows "tame (internal_tg_event_load_str env (s @ [NUL]) m)"
proof -
  obtain ret j m1 where 1: "tg_event_json_parse env (s @ [NUL]) m = Inr (ret, j, m1)"
    using feed_once [OF n, of "je_strtod env" s] by (cases "je_tok_ok env") (auto simp: tg_event_json_parse_def)
  have m1: "m1 = m\<lparr> mm_json := (if j = None then mm_json m else Suc (mm_json m)) \<rparr>" by (rule json_parse_counts [OF 1])
  then have ok: "mem_ok m1" using m by (simp add: mem_ok_def)
  have "parsed j m1 (- EINVAL, NoMsg, m1)" by (simp add: parsed_own)
  from destroy_top [OF ok this m1] have d1: "tame (tg_event_destroy (Tgev j uid False NoMsg) m1)" for uid
    by (metis tame_simps(2))
  have d2: "tame (tg_event_destroy (Tgev j uid False msg) m2)" if "parse_message j m1 = Inr (ret, msg, m2)" for ret msg m2 uid
    using destroy_top [OF ok parse_message_parsed [OF ok that] m1, of uid] by (metis tame_simps(2))
  have p: "tame (parse_message j m1)" unfolding parse_message_def by (intro tame_intros tame_message ok)
  show ?thesis unfolding internal_tg_event_load_str_def 1 ebind.simps prod.case
    by (intro tame_intros d1 p d2) simp_all
qed

section \<open>A document that ends too early\<close>

lemma blank_loop:
  "list_all isspace s \<Longrightarrow> tok_loop strtod json_tokener_new s = Inr (json_tokener_continue, False, json_tokener_new)"
proof (induction s)
  case (Cons c s)
  then have "tok_step strtod json_tokener_new c s = Next json_tokener_new"
    by (simp add: tok_step_def step_eatws_def json_tokener_new_def fresh_level_def)
  moreover have "c \<noteq> NUL" using Cons.prems by (auto simp: isspace_def NUL_def)
  ultimately show ?case using Cons by (simp add: tok_loop.simps)
qed (simp add: tok_loop.simps json_tokener_new_def fresh_level_def)

lemma blank_feed:
  assumes "list_all isspace s"
  shows "tokener_feed strtod n json_tokener_new s = Inl OutOfFuel"
proof (induction n)
  case (Suc n)
  have "json_tokener_new\<lparr> tk_obj := None \<rparr> = json_tokener_new" by (simp add: json_tokener_new_def)
  then show ?case using Suc blank_loop [OF assms] by (simp add: json_tokener_parse_ex_def)
qed simp

section \<open>Properties\<close>

lemma load_str_tokens:
  assumes "tg_event_load_str env (Some s) m = Inr (0, evt, m')"
  shows "json_tokener_parse (je_strtod env) s = Inr (ev_json evt) \<and>
    Some (ev_update_id evt) = map_option json_object_get_uint64 (json_object_object_get_ex (ev_json evt) ''update_id'') \<and>
    (\<exists>jmsg. json_object_object_get_ex (ev_json evt) ''message'' = Some jmsg \<and> msg_type (ev_msg evt) = kind_of jmsg \<and>
       fields_msg (ev_msg evt) jmsg)"
proof -
  note run = assms [unfolded tg_event_load_str_def option.case internal_tg_event_load_str_def]
  obtain ret1 j m1 where 1: "tg_event_json_parse env (cstr s @ [NUL]) m = Inr (ret1, j, m1)"
    using run by (auto simp: run_simps)
  obtain ret2 uid where 2: "parse_update_id j = (ret2, uid)" by fastforce
  have r2: "ret2 = 0" using run 1 2 by (cases "ret2 = 0") (auto simp: run_simps)
  obtain ret3 msg m2 where 3: "parse_message j m1 = Inr (ret3, msg, m2)"
    using run 1 2 r2 by (auto simp: run_simps)
  have evt: "evt = Tgev j uid False msg" "ret3 = 0" using run 1 2 r2 3 by (auto simp: run_simps split: if_splits)
  obtain r where r: "json_object_object_get_ex j ''update_id'' = Some r" "uid = json_object_get_uint64 r"
    using 2 r2 by (auto simp: parse_update_id_def split: option.splits)
  have "json_tokener_parse (je_strtod env) s = Inr j"
  proof -
    have ok: "je_tok_ok env" using 1 r(1) by (auto simp: tg_event_json_parse_def split: if_splits)
    obtain n where n: "je_fuel env = Suc n" using 1 ok by (cases "je_fuel env") (auto simp: tg_event_json_parse_def)
    obtain j' err tok where t: "json_tokener_parse_ex (je_strtod env) json_tokener_new (cstr s @ [NUL]) = Inr (j', err, tok)"
        "err \<noteq> json_tokener_continue" "err = json_tokener_success \<or> j' = None"
      using parse_ex_decides [of "je_strtod env" "cstr s"] by blast
    show ?thesis using 1 ok n t by (auto simp: tg_event_json_parse_def json_tokener_parse_def)
  qed
  moreover obtain jmsg where "json_object_object_get_ex j ''message'' = Some jmsg" "read jmsg (0, msg, m2)"
    using 3 evt(2) message_read by (auto simp: parse_message_def split: option.splits)
  ultimately show ?thesis using evt r by (simp add: read_def)
qed

definition demo_env :: json_env where
  "demo_env = \<lparr> je_strtod = (\<lambda>s. (NotANumber, 0)), je_tok_ok = True, je_fuel = 1 \<rparr>"

definition demo_mem :: mem where
  "demo_mem = \<lparr> mm_next = 0, mm_live = {}, mm_ok = (\<lambda>n. True), mm_json = 0 \<rparr>"

definition demo_text :: bytes where
  "demo_text = ''{\"update_id\":7,\"message\":{\"message_id\":5,\"from\":{\"id\":3,\"first_name\":\"a\"},\"chat\":{\"id\":-4,\"type\":\"supergroup\",\"title\":\"t\"},\"date\":1,\"text\":\"/hi\",\"entities\":[{\"offset\":0}],\"reply_to_message\":{\"message_id\":4,\"from\":{\"id\":2,\"first_name\":\"b\"},\"chat\":{\"id\":-4,\"type\":\"supergroup\",\"title\":\"t\"},\"date\":1,\"text\":\"x\"}}}''"

definition demo_unknown :: bytes where
  "demo_unknown = ''{\"update_id\":1,\"message\":{\"message_id\":1,\"from\":{\"id\":1,\"first_name\":\"a\"},\"chat\":{\"id\":1,\"type\":\"private\",\"first_name\":\"a\"},\"date\":1,\"entities\":[{}]}}''"

lemma demo_mem_ok: "mem_ok demo_mem"
  by (simp add: mem_ok_def demo_mem_def)

lemma demo_load:
  "\<exists>evt m. tg_event_load_str demo_env (Some demo_text) demo_mem = Inr (0, evt, m) \<and>
     tight_ev evt (message_json (ev_json evt)) \<and> mm_live m = {0, 1} \<and> ev_type evt = TGEV_TEXT \<and>
     tge_get_text evt = Some ''/hi'' \<and> tge_get_chat_id evt = -4 \<and> tge_get_user_id evt = 3"
proof -
  have "case tg_event_load_str demo_env (Some demo_text) demo_mem of
      Inl e \<Rightarrow> False
    | Inr (ret, evt, m) \<Rightarrow> ret = 0 \<and> tight_ev evt (message_json (ev_json evt)) \<and> mm_live m = {0, 1} \<and>
        ev_type evt = TGEV_TEXT \<and> tge_get_text evt = Some ''/hi'' \<and> tge_get_chat_id evt = -4 \<and> tge_get_user_id evt = 3"
    by code_simp
  then show ?thesis by (auto split: sum.splits)
qed

text \<open>
  C8. Releasing an event.  When \<open>tg_event_load_str\<close> succeeds, \<open>tg_event_destroy\<close> on its event
  runs without a double free, leaves every older block alive and gives the JSON document
  back; it restores the heap exactly when the event is tight (every reply of the document
  became an event, and no message of the unknown kind has entities or a reply).  When loading
  fails, the heap is exactly what it was before the call.
\<close>

theorem event_load_release:
  assumes "mem_ok m" and "tg_event_load_str env json_str m = Inr (ret, evt, m')"
  shows "if ret = 0
    then \<exists>m''. tg_event_destroy evt m' = Inr m'' \<and> released m (tight_ev evt (message_json (ev_json evt))) m''
    else released m True m'"
proof (cases json_str)
  case None
  then show ?thesis using assms by (auto simp: tg_event_load_str_def released_def)
next
  case (Some s)
  then show ?thesis using load_released [OF assms(1), of env "cstr s @ [NUL]" ret evt m'] assms(2)
    by (simp add: tg_event_load_str_def)
qed

theorem event_load_release_witness:
  "\<exists>evt m m'. tg_event_load_str demo_env (Some demo_text) demo_mem = Inr (0, evt, m) \<and> mm_live m = {0, 1} \<and>
     tg_event_destroy evt m = Inr m' \<and> mm_live m' = {} \<and> mm_json m' = 0"
proof -
  obtain evt m where l: "tg_event_load_str demo_env (Some demo_text) demo_mem = Inr (0, evt, m)"
      "tight_ev evt (message_json (ev_json evt))" "mm_live m = {0, 1}"
    using demo_load by blast
  from event_load_release [OF demo_mem_ok l(1)] l(2) obtain m' where
      "tg_event_destroy evt m = Inr m'" "released demo_mem True m'" by auto
  then show ?thesis using l by (auto simp: released_def demo_mem_def)
qed

text \<open>
  What the accessors say of an event, in terms of its message: the type is that of the first of the members
  \<open>text\<close>, \<open>photo\<close>, \<open>sticker\<close>, \<open>animation\<close> that the message has; the identities are its members, or may be 0
  for an event of the unknown kind, whose parser may have stopped; the text is the text or the caption.
\<close>

definition accessors_read :: "tgev \<Rightarrow> json \<Rightarrow> bool" where
  "accessors_read evt jmsg \<longleftrightarrow>
     ev_type evt = kind_of jmsg \<and>
     (if ev_type evt = TGEV_UNKNOWN
      then id_or_zero json_object_get_uint64 (json_path jmsg [''message_id'']) (tge_get_msg_id evt) \<and>
           id_or_zero json_object_get_uint64 (json_path jmsg [''from'', ''id'']) (tge_get_user_id evt) \<and>
           id_or_zero json_object_get_int64 (json_path jmsg [''chat'', ''id'']) (tge_get_chat_id evt)
      else Some (tge_get_msg_id evt) = map_option json_object_get_uint64 (json_path jmsg [''message_id'']) \<and>
           Some (tge_get_user_id evt) = map_option json_object_get_uint64 (json_path jmsg [''from'', ''id'']) \<and>
           Some (tge_get_chat_id evt) = map_option json_object_get_int64 (json_path jmsg [''chat'', ''id''])) \<and>
     tge_get_text evt =
       (if ev_type evt = TGEV_TEXT then opt_string jmsg ''text''
        else if ev_type evt \<in> {TGEV_PHOTO, TGEV_GIF} then opt_string jmsg ''caption''
        else None)"

lemma common_ids:
  "common_fields jmsg c \<Longrightarrow>
      Some (tc_msg_id c) = map_option json_object_get_uint64 (json_path jmsg [''message_id'']) \<and>
      Some (fr_id (tc_from c)) = map_option json_object_get_uint64 (json_path jmsg [''from'', ''id'']) \<and>
      Some (ct_id (tc_chat c)) = map_option json_object_get_int64 (json_path jmsg [''chat'', ''id''])"
  by (auto simp: common_fields_def from_fields_def chat_fields_def split: option.splits)

lemma fields_accessors:
  assumes "msg_type (ev_msg evt) = kind_of jmsg" and "fields_msg (ev_msg evt) jmsg"
  shows "accessors_read evt jmsg"
  using assms
  by (cases "ev_msg evt")
    (auto simp: accessors_read_def ev_type_def tge_get_msg_id_def tge_get_user_id_def tge_get_chat_id_def tge_get_from_def
      tge_get_text_def partial_fields_def simp del: json_path.simps dest!: common_ids)

text \<open>
  C9. What a loaded event says.  The event holds the document that json-c makes of the text, and its
  update id; of the type, the identities and the text \<open>accessors_read\<close> says how they come from the
  member \<open>message\<close>.  An event that has none of the members \<open>text\<close>, \<open>photo\<close>, \<open>sticker\<close> and \<open>animation\<close> is loaded even when a
  required member is missing, and each of its three identities is that of the document or 0.  The
  message that a text replies to is an event of the member \<open>reply_to_message\<close>, of which the
  accessors say the same, and null only when that member is missing or null or its parser returns an error; for the other types \<open>tge_get_reply_to\<close> is not covered, because it reads
  another member of the union.
\<close>

theorem event_members:
  assumes "tg_event_load_str env (Some s) m = Inr (0, evt, m')"
  shows "json_tokener_parse (je_strtod env) s = Inr (ev_json evt) \<and>
    Some (ev_update_id evt) = map_option json_object_get_uint64 (json_path (ev_json evt) [''update_id'']) \<and>
    (\<exists>jmsg. json_path (ev_json evt) [''message''] = Some jmsg \<and> accessors_read evt jmsg \<and>
       (ev_type evt = TGEV_TEXT \<longrightarrow>
          (case tge_get_reply_to evt of
             EvNull \<Rightarrow> reply_json jmsg = None \<or> reply_unread (reply_json jmsg)
           | EvAt a target \<Rightarrow> reply_json jmsg \<noteq> None \<and> ev_json target = reply_json jmsg \<and> accessors_read target (reply_json jmsg)
           | _ \<Rightarrow> False)))"
proof -
  obtain jmsg where j: "json_object_object_get_ex (ev_json evt) ''message'' = Some jmsg"
      "msg_type (ev_msg evt) = kind_of jmsg" "fields_msg (ev_msg evt) jmsg"
    using load_str_tokens [OF assms] by blast
  have "reply_json jmsg \<noteq> None \<and> ev_json target = reply_json jmsg \<and> accessors_read target (reply_json jmsg)"
    if "ev_msg evt = MsgText t (Reply a target)" for t a target
    using j(3) that by (cases target) (simp add: fields_accessors)
  then have "case tge_get_reply_to evt of EvNull \<Rightarrow> reply_json jmsg = None \<or> reply_unread (reply_json jmsg)
      | EvAt a target \<Rightarrow> reply_json jmsg \<noteq> None \<and> ev_json target = reply_json jmsg \<and> accessors_read target (reply_json jmsg)
      | _ \<Rightarrow> False" if "ev_type evt = TGEV_TEXT"
    using that j(3) by (cases "ev_msg evt") (auto simp: ev_type_def tge_get_reply_to_def split: evptr.split elim!: reply_ptr.elims)
  then show ?thesis using load_str_tokens [OF assms] j fields_accessors [OF j(2,3)] by (auto simp: json_path_single simp del: json_path.simps)
qed

theorem event_members_witness:
  "\<exists>evt m. tg_event_load_str demo_env (Some demo_text) demo_mem = Inr (0, evt, m) \<and>
     json_tokener_parse (je_strtod demo_env) demo_text = Inr (ev_json evt) \<and>
     (\<exists>jmsg. json_path (ev_json evt) [''message''] = Some jmsg \<and> kind_of jmsg = TGEV_TEXT \<and>
        opt_string jmsg ''text'' = Some ''/hi'')"
proof -
  obtain evt m where l: "tg_event_load_str demo_env (Some demo_text) demo_mem = Inr (0, evt, m)"
      "ev_type evt = TGEV_TEXT" "tge_get_text evt = Some ''/hi''"
    using demo_load by blast
  show ?thesis using l event_members [OF l(1)] by (intro exI [of _ evt] exI [of _ m]) (auto simp: accessors_read_def)
qed

text \<open>
  C14. Loading cannot corrupt memory.  Whatever the text is, \<open>tg_event_load_str\<close> returns or
  stops at one of two faults, an assertion of json-c (a member that should be an array is
  not) or a null pointer (a null emoji, or no memory for a reply): the fixed buffers for the
  language code and the emoji are never overrun, nothing is freed twice, and one round of the
  tokener loop is enough.
\<close>

theorem event_load_faults:
  assumes "mem_ok m" and "0 < je_fuel env" and "tg_event_load_str env json_str m = Inl e"
  shows "e = AssertFail \<or> e = NullDeref"
proof (cases json_str)
  case (Some s)
  then show ?thesis using tame_load [OF assms(1,2), of "cstr s"] assms(3)
    by (simp add: tg_event_load_str_def)
qed (use assms(3) in \<open>simp add: tg_event_load_str_def\<close>)

definition demo_null_entities :: bytes where
  "demo_null_entities = ''{\"update_id\":7,\"message\":{\"message_id\":5,\"from\":{\"id\":3,\"first_name\":\"a\"},\"chat\":{\"id\":4,\"type\":\"supergroup\",\"title\":\"t\"},\"date\":1,\"text\":\"/hi\",\"entities\":null}}''"

theorem event_load_faults_witness:
  "\<exists>e. tg_event_load_str demo_env (Some demo_null_entities) demo_mem = Inl e \<and> (e = AssertFail \<or> e = NullDeref)"
proof -
  have fuel: "0 < je_fuel demo_env" by (simp add: demo_env_def)
  have "\<not> isl (tg_event_load_str demo_env (Some demo_null_entities) demo_mem) \<Longrightarrow> False" by code_simp
  then obtain e where e: "tg_event_load_str demo_env (Some demo_null_entities) demo_mem = Inl e" by (auto simp: isl_def)
  show ?thesis using e event_load_faults [OF demo_mem_ok fuel e] by blast
qed

text \<open>
  A text message whose member \<open>entities\<close> is there but is not an array, \<open>null\<close> for
  instance, brings the process down: the length of the array is asked for before its type is
  checked, and json-c asserts.
\<close>

theorem entities_not_array_aborts:
  assumes "json_object_object_get_ex jmsg ''text'' = Some r"
    and "parse_tgev_common jmsg (zero_text\<lparr> tx_text := json_object_get_string r \<rparr>) = Inr (0, t)"
    and "json_object_object_get_ex jmsg ''entities'' = Some v" and "\<forall>xs. v \<noteq> Some (JArr xs)"
  shows "parse_message_json_obj jmsg m = Inl AssertFail"
proof -
  have "json_object_array_length v = Inl AssertFail"
    using assms(4) by (cases v rule: json_object_array_length.cases) auto
  then show ?thesis using assms(1-3)
    by (simp add: parse_message_json_obj.simps [of jmsg] parse_event_text_def load_entities_def or_else_def)
qed

text \<open>The witness is the message of \<open>demo_null_entities\<close>.\<close>

definition demo_message :: json where
  "demo_message = Some (JObj [(''message_id'', Some (JInt64 5)),
     (''from'', Some (JObj [(''id'', Some (JInt64 3)), (''first_name'', Some (JStr ''a''))])),
     (''chat'', Some (JObj [(''id'', Some (JInt64 4)), (''type'', Some (JStr ''supergroup'')), (''title'', Some (JStr ''t''))])),
     (''date'', Some (JInt64 1)), (''text'', Some (JStr ''/hi'')), (''entities'', None)])"

theorem entities_not_array_aborts_witness: "parse_message_json_obj demo_message demo_mem = Inl AssertFail"
proof -
  have "case parse_tgev_common demo_message (zero_text\<lparr> tx_text := json_object_get_string (Some (JStr ''/hi'')) \<rparr>) of
      Inl e \<Rightarrow> False | Inr (ret, t) \<Rightarrow> ret = 0" by code_simp
  then obtain t where t: "parse_tgev_common demo_message (zero_text\<lparr> tx_text := json_object_get_string (Some (JStr ''/hi'')) \<rparr>) = Inr (0, t)"
    by (auto split: sum.splits)
  have "json_object_object_get_ex demo_message ''text'' = Some (Some (JStr ''/hi''))" by code_simp
  moreover have "json_object_object_get_ex demo_message ''entities'' = Some None" by code_simp
  ultimately show ?thesis using entities_not_array_aborts t by blast
qed

text \<open>
  \<open>tg_event_load_str_len\<close> on a text that has no end: the tokener asks for more, and the loop
  feeds it the same bytes again.  For a text of white space (the empty text too) it goes on
  forever: no number of rounds is enough.
\<close>

theorem load_str_len_never_returns:
  assumes "je_tok_ok env" and "list_all isspace (take len s)"
  shows "\<forall>n. tg_event_load_str_len (env\<lparr> je_fuel := n \<rparr>) (Some s) len m = Inl OutOfFuel"
  using assms by (simp add: tg_event_load_str_len_def internal_tg_event_load_str_def tg_event_json_parse_def blank_feed)

theorem load_str_len_never_returns_witness:
  "\<forall>n. tg_event_load_str_len (demo_env\<lparr> je_fuel := n \<rparr>) (Some ''  {'') 2 demo_mem = Inl OutOfFuel"
  using load_str_len_never_returns [of demo_env 2 "''  {''"] by (simp add: demo_env_def isspace_def numeral_2_eq_2)

text \<open>An event of the unknown kind that has entities: they stay allocated.\<close>

lemma unknown_event_leaks:
  "\<exists>evt m m'. tg_event_load_str demo_env (Some demo_unknown) demo_mem = Inr (0, evt, m) \<and>
     tg_event_destroy evt m = Inr m' \<and> mm_live demo_mem = {} \<and> mm_live m' = {0}"
proof -
  have "case tg_event_load_str demo_env (Some demo_unknown) demo_mem of
      Inl e \<Rightarrow> False
    | Inr (ret, evt, m) \<Rightarrow> ret = 0 \<and> (case tg_event_destroy evt m of Inl e \<Rightarrow> False | Inr m' \<Rightarrow> mm_live m' = {0})"
    by code_simp
  then obtain evt m where l: "tg_event_load_str demo_env (Some demo_unknown) demo_mem = Inr (0, evt, m)"
      "case tg_event_destroy evt m of Inl e \<Rightarrow> False | Inr m' \<Rightarrow> mm_live m' = {0}"
    by (auto split: sum.splits)
  then show ?thesis by (cases "tg_event_destroy evt m") (auto simp: demo_mem_def)
qed

end
