(* ===== verification/Event_Handler.thy ===== *)
theory Event_Handler
  imports Tg_Event_Load Server_State
begin

text \<open>
  \<open>core/event_handler.c\<close> with \<open>module_table.h\<close> and \<open>module.h\<close>: the table of modules, their
  start and stop, and the handler that a worker calls with its packet.  The functions of a
  module are members of its table entry; the world \<open>'w\<close> is what they change.
\<close>

unbundle bit_operations_syntax

section \<open>Module table\<close>

record 'w module_entry =
  mod_name :: "bytes option"
  mod_startup :: "('w \<Rightarrow> (int \<times> 'w) res) option"
  mod_shutdown :: "('w \<Rightarrow> (int \<times> 'w) res) option"
  mod_entry :: "(gwbot_thread \<Rightarrow> tgev \<Rightarrow> 'w \<Rightarrow> (int \<times> 'w) res) option"
  mod_event_mask :: u64

text \<open>The description and the three functions that \<open>GWMOD_REG\<close> finds by the name of a module.\<close>

record 'w module_ops =
  mo_name :: bytes
  mo_startup :: "'w \<Rightarrow> (int \<times> 'w) res"
  mo_shutdown :: "'w \<Rightarrow> (int \<times> 'w) res"
  mo_entry :: "gwbot_thread \<Rightarrow> tgev \<Rightarrow> 'w \<Rightarrow> (int \<times> 'w) res"

definition GWMOD_REG :: "(bytes \<Rightarrow> 'w module_ops) \<Rightarrow> bytes \<Rightarrow> u64 \<Rightarrow> 'w module_entry" where
  "GWMOD_REG modules name evmask =
     (let ops = modules name in
     \<lparr> mod_name = Some (mo_name ops), mod_startup = Some (mo_startup ops), mod_shutdown = Some (mo_shutdown ops),
       mod_entry = Some (mo_entry ops), mod_event_mask = evmask \<rparr>)"

definition GWMOD_REG_END :: "'w module_entry" where
  "GWMOD_REG_END =
     \<lparr> mod_name = None, mod_startup = None, mod_shutdown = None, mod_entry = None, mod_event_mask = 0 \<rparr>"

definition mod_tbl :: "(bytes \<Rightarrow> 'w module_ops) \<Rightarrow> 'w module_entry list" where
  "mod_tbl ops =
     [GWMOD_REG ops ''000_debug'' (TGEV_TEXT OR TGEV_PHOTO),
      GWMOD_REG ops ''001_standard'' (TGEV_TEXT OR TGEV_PHOTO),
      GWMOD_REG ops ''002_translate'' (TGEV_TEXT OR TGEV_PHOTO),
      GWMOD_REG ops ''003_admin'' (TGEV_TEXT OR TGEV_PHOTO),
      GWMOD_REG_END]"

section \<open>Start and stop\<close>

fun startup_loop :: "'w module_entry list \<Rightarrow> 'w \<Rightarrow> (int \<times> 'w) res" where
  "startup_loop [] w = Inr (0, w)"
| "startup_loop (me # tbl) w =
     (case mod_startup me of
        None \<Rightarrow> startup_loop tbl w
      | Some f \<Rightarrow> ebind (f w) (\<lambda>(ret, w). if ret \<noteq> 0 then Inr (ret, w) else startup_loop tbl w))"

text \<open>The flag is the static variable \<open>is_mod_initialized\<close>.\<close>

definition gwbot_module_startup :: "'w module_entry list \<Rightarrow> bool \<Rightarrow> 'w \<Rightarrow> (int \<times> bool \<times> 'w) res" where
  "gwbot_module_startup tbl is_mod_initialized w =
     (if is_mod_initialized then Inr (0, is_mod_initialized, w)
      else ebind (startup_loop tbl w) (\<lambda>(ret, w).
        if ret \<noteq> 0 then Inr (ret, is_mod_initialized, w) else Inr (0, True, w)))"

fun shutdown_loop :: "'w module_entry list \<Rightarrow> 'w \<Rightarrow> 'w res" where
  "shutdown_loop [] w = Inr w"
| "shutdown_loop (me # tbl) w =
     (case mod_shutdown me of
        None \<Rightarrow> shutdown_loop tbl w
      | Some f \<Rightarrow> ebind (f w) (\<lambda>(ret, w). shutdown_loop tbl w))"

definition gwbot_module_shutdown :: "'w module_entry list \<Rightarrow> bool \<Rightarrow> 'w \<Rightarrow> (int \<times> bool \<times> 'w) res" where
  "gwbot_module_shutdown tbl is_mod_initialized w =
     (if \<not> is_mod_initialized then Inr (0, is_mod_initialized, w)
      else ebind (shutdown_loop tbl w) (\<lambda>w. Inr (0, False, w)))"

section \<open>Handling an event\<close>

text \<open>
  Where the text of the event is: in the node that came from the queue, or in the packet of
  the thread; in both behind the length field.  A string without its null byte is read out
  of bounds.
\<close>

definition string_at :: "bytes \<Rightarrow> bytes res" where
  "string_at s = (if NUL \<in> set s then Inr s else Inl OutOfBounds)"

definition event_json_str :: "heap \<Rightarrow> gwbot_thread \<Rightarrow> bytes res" where
  "event_json_str h th =
     (if th_from_sqe th
      then ebind (node_at h (th_sqe_node th)) (\<lambda>node. string_at (drop 2 (qn_data node)))
      else string_at (drop DATA_OFF (th_raw th)))"

fun run_entries :: "'w module_entry list \<Rightarrow> u64 \<Rightarrow> gwbot_thread \<Rightarrow> tgev \<Rightarrow> int \<Rightarrow> 'w \<Rightarrow> (int \<times> 'w) res" where
  "run_entries [] evt_in th evt ret w = Inr (ret, w)"
| "run_entries (me # tbl) evt_in th evt ret w =
     (if mod_event_mask me AND evt_in = 0 then run_entries tbl evt_in th evt ret w
      else
        (case mod_entry me of
           None \<Rightarrow> run_entries tbl evt_in th evt ret w
         | Some f \<Rightarrow>
             ebind (f th evt w) (\<lambda>(ret, w).
               if ret \<noteq> - ECANCELED then Inr (ret, w) else run_entries tbl evt_in th evt ret w)))"

definition gwbot_event_handler ::
  "json_env \<Rightarrow> 'w module_entry list \<Rightarrow> heap \<Rightarrow> gwbot_thread \<Rightarrow> mem \<Rightarrow> 'w \<Rightarrow> (int \<times> mem \<times> 'w) res" where
  "gwbot_event_handler env tbl h th m w =
     ebind (event_json_str h th) (\<lambda>json_str.
     ebind (tg_event_load_str env (Some json_str) m) (\<lambda>(ret, evt, m).
     if ret \<noteq> 0 then Inr (ret, m, w)
     else
       ebind (run_entries tbl (ev_type evt) th evt ret w) (\<lambda>(ret, w).
       ebind (tg_event_destroy evt m) (\<lambda>m.
       Inr (ret, m, w)))))"

section \<open>Dispatch\<close>

text \<open>The specification of the dispatch: ask one after the other until one does not decline.\<close>

fun ask_in_order ::
  "(gwbot_thread \<Rightarrow> tgev \<Rightarrow> 'w \<Rightarrow> (int \<times> 'w) res) list \<Rightarrow> gwbot_thread \<Rightarrow> tgev \<Rightarrow> 'w \<Rightarrow> (int \<times> 'w) res" where
  "ask_in_order [] th evt w = Inr (- ECANCELED, w)"
| "ask_in_order (f # fs) th evt w =
     ebind (f th evt w) (\<lambda>(ret, w). if ret = - ECANCELED then ask_in_order fs th evt w else Inr (ret, w))"

lemma run_entries_asks:
  assumes "\<forall>me \<in> set tbl. mod_event_mask me AND evt_in \<noteq> 0 \<and> mod_entry me \<noteq> None"
  shows "run_entries (tbl @ [GWMOD_REG_END]) evt_in th evt ret w =
    (if tbl = [] then Inr (ret, w) else ask_in_order (map (\<lambda>me. the (mod_entry me)) tbl) th evt w)"
  using assms
proof (induction tbl arbitrary: ret w)
  case (Cons me tbl)
  then obtain f where f: "mod_entry me = Some f" by auto
  have "run_entries (tbl @ [GWMOD_REG_END]) evt_in th evt (- ECANCELED) w' =
      ask_in_order (map (\<lambda>me. the (mod_entry me)) tbl) th evt w'" for w'
    using Cons by (cases tbl) simp_all
  then show ?case using f Cons.prems by (cases "f th evt w") auto
qed (simp add: GWMOD_REG_END_def)

lemma run_entries_skips:
  "\<forall>me \<in> set tbl. mod_event_mask me AND evt_in = 0 \<Longrightarrow> run_entries tbl evt_in th evt ret w = Inr (ret, w)"
  by (induction tbl) simp_all

definition table_entries :: "(bytes \<Rightarrow> 'w module_ops) \<Rightarrow> (gwbot_thread \<Rightarrow> tgev \<Rightarrow> 'w \<Rightarrow> (int \<times> 'w) res) list" where
  "table_entries ops = map (\<lambda>name. mo_entry (ops name)) [''000_debug'', ''001_standard'', ''002_translate'', ''003_admin'']"

lemma mod_tbl_runs:
  assumes "ev_type evt \<in> {0, TGEV_UNKNOWN, TGEV_TEXT, TGEV_PHOTO, TGEV_STICKER, TGEV_GIF}"
  shows "run_entries (mod_tbl ops) (ev_type evt) th evt ret w =
    (if ev_type evt \<in> {TGEV_TEXT, TGEV_PHOTO} then ask_in_order (table_entries ops) th evt w else Inr (ret, w))"
proof (cases "ev_type evt \<in> {TGEV_TEXT, TGEV_PHOTO}")
  case True
  let ?reg = "\<lambda>name. GWMOD_REG ops name (TGEV_TEXT OR TGEV_PHOTO)"
  let ?t = "map ?reg [''000_debug'', ''001_standard'', ''002_translate'', ''003_admin'']"
  have "(TGEV_TEXT OR TGEV_PHOTO) AND ev_type evt \<noteq> 0" using True by auto
  then have "run_entries (?t @ [GWMOD_REG_END]) (ev_type evt) th evt ret w =
      ask_in_order (map (\<lambda>me. the (mod_entry me)) ?t) th evt w"
    by (subst run_entries_asks) (auto simp: GWMOD_REG_def Let_def)
  then show ?thesis using True by (simp add: mod_tbl_def table_entries_def GWMOD_REG_def Let_def)
next
  case False
  then show ?thesis using assms
    by (subst run_entries_skips) (auto simp: mod_tbl_def GWMOD_REG_def GWMOD_REG_END_def Let_def)
qed

lemma ev_types: "ev_type evt \<in> {0, TGEV_UNKNOWN, TGEV_TEXT, TGEV_PHOTO, TGEV_STICKER, TGEV_GIF}"
  by (cases "ev_msg evt") (simp_all add: ev_type_def)

lemma load_str_released:
  assumes "mem_ok m" and "tg_event_load_str env (Some s) m = Inr (0, evt, m')"
  shows "\<exists>m''. tg_event_destroy evt m' = Inr m'' \<and> released m (tight_ev evt (message_json (ev_json evt))) m''"
  using load_released [OF assms(1), of env "cstr s @ [NUL]" 0 evt m'] assms(2) by (simp add: tg_event_load_str_def)

section \<open>Properties\<close>

text \<open>
  C10. The handler of a worker: an event that loads is offered to the modules debug, standard,
  translate and admin in this order until one of them does not answer \<open>-ECANCELED\<close>, when it
  is a text or a photo; no module sees another kind, and the handler returns 0.  In both cases
  the event is released, which frees what loading allocated and nothing else.
\<close>

theorem handler_asks_modules:
  assumes "mem_ok m" and "event_json_str h th = Inr s" and "tg_event_load_str env (Some s) m = Inr (0, evt, m')"
  shows "\<exists>m''. released m (tight_ev evt (message_json (ev_json evt))) m'' \<and>
    gwbot_event_handler env (mod_tbl ops) h th m w =
      ebind (if ev_type evt \<in> {TGEV_TEXT, TGEV_PHOTO} then ask_in_order (table_entries ops) th evt w else Inr (0, w))
        (\<lambda>(ret, w). Inr (ret, m'', w))"
proof -
  obtain m'' where m'': "tg_event_destroy evt m' = Inr m''" "released m (tight_ev evt (message_json (ev_json evt))) m''"
    using load_str_released [OF assms(1,3)] by blast
  then show ?thesis using assms(2,3)
    by (intro exI [of _ m'']) (simp add: gwbot_event_handler_def mod_tbl_runs [OF ev_types])
qed

text \<open>Four modules that note their names; the second one takes the event.\<close>

definition demo_ops :: "bytes \<Rightarrow> bytes list module_ops" where
  "demo_ops name =
     \<lparr> mo_name = name, mo_startup = (\<lambda>w. Inr (0, w)), mo_shutdown = (\<lambda>w. Inr (0, w)),
       mo_entry = (\<lambda>th evt w. Inr (if name = ''001_standard'' then 0 else - ECANCELED, w @ [name])) \<rparr>"

definition demo_thread :: gwbot_thread where
  "demo_thread = thread_zero\<lparr> th_has_event := True, th_raw := [NUL, NUL] @ demo_text @ [NUL] \<rparr>"

theorem handler_asks_modules_witness:
  "\<exists>m. gwbot_event_handler demo_env (mod_tbl demo_ops) fmempty demo_thread demo_mem [] =
      Inr (0, m, [''000_debug'', ''001_standard'']) \<and> mm_live m = {}"
proof -
  have str: "event_json_str fmempty demo_thread = Inr (demo_text @ [NUL])"
    by (simp add: event_json_str_def demo_thread_def string_at_def thread_zero_def)
  obtain evt m where l: "tg_event_load_str demo_env (Some demo_text) demo_mem = Inr (0, evt, m)"
      "tight_ev evt (message_json (ev_json evt))" "ev_type evt = TGEV_TEXT"
    using demo_load by blast
  then have load: "tg_event_load_str demo_env (Some (demo_text @ [NUL])) demo_mem = Inr (0, evt, m)"
    by (simp add: tg_event_load_str_def cstr_terminated)
  from handler_asks_modules [OF demo_mem_ok str load, of demo_ops "[]"] l(2,3) obtain m' where
      "released demo_mem True m'" "gwbot_event_handler demo_env (mod_tbl demo_ops) fmempty demo_thread demo_mem [] =
         ebind (ask_in_order (table_entries demo_ops) demo_thread evt []) (\<lambda>(ret, w). Inr (ret, m', w))"
    by auto
  then show ?thesis by (auto simp: table_entries_def demo_ops_def released_def demo_mem_def)
qed

end
