(* ===== verification/Tg_Api.thy ===== *)
theory Tg_Api
  imports Json_Roundtrip Gw_String
begin

text \<open>
  The Telegram API of \<open>lib/tg_api.c\<close>, \<open>lib/tg_api.h\<close> and the files below \<open>lib/tg_api/\<close>: the
  handle with its growing response buffer, the request that is posted, and one function per
  method that builds the body of its request.  libcurl is not modelled: what a transfer
  answers (the pieces that reach the write callback, and the final code) is data of the
  network, and every request is recorded there.
\<close>

section \<open>Handles\<close>

datatype content_type_t = APP_X_WWW_FORM_URLENCODED | APP_JSON

record tga_req_t =
  rq_method :: "bytes option"
  rq_body :: "bytes option"

record tga_res_t =
  rs_body :: "bytes option"
  rs_len :: nat
  rs_allocated :: nat

record tga_handle_t =
  hd_token :: "bytes option"
  hd_req :: tga_req_t
  hd_res :: tga_res_t
  hd_content_type :: content_type_t

definition res_zero :: tga_res_t where
  "res_zero = \<lparr> rs_body = None, rs_len = 0, rs_allocated = 0 \<rparr>"

definition tga_screate :: "bytes option \<Rightarrow> tga_handle_t" where
  "tga_screate token =
     \<lparr> hd_token = token, hd_req = \<lparr> rq_method = None, rq_body = None \<rparr>, hd_res = res_zero,
       hd_content_type = APP_X_WWW_FORM_URLENCODED \<rparr>"

text \<open>A handle on the heap; \<open>None\<close> is the null pointer.\<close>

definition tga_hcreate :: "bool \<Rightarrow> bytes option \<Rightarrow> tga_handle_t option" where
  "tga_hcreate malloc_ok token = (if \<not> malloc_ok then None else Some (tga_screate token))"

text \<open>Both ways to release a handle free the response and clear the structure.\<close>

definition tga_sdestroy :: "tga_handle_t \<Rightarrow> tga_handle_t" where
  "tga_sdestroy thandle =
     \<lparr> hd_token = None, hd_req = \<lparr> rq_method = None, rq_body = None \<rparr>, hd_res = res_zero,
       hd_content_type = APP_X_WWW_FORM_URLENCODED \<rparr>"

text \<open>The flag \<open>global_init\<close>; the second component tells whether libcurl is called.\<close>

definition tg_api_global_init :: "bool \<Rightarrow> bool \<times> bool" where
  "tg_api_global_init global_init = (if \<not> global_init then (True, True) else (global_init, False))"

definition tg_api_global_destroy :: "bool \<Rightarrow> bool \<times> bool" where
  "tg_api_global_destroy global_init = (if global_init then (False, True) else (global_init, False))"

definition tga_set_body :: "bytes \<Rightarrow> tga_handle_t \<Rightarrow> tga_handle_t" where
  "tga_set_body body handle = handle\<lparr> hd_req := (hd_req handle)\<lparr> rq_body := Some body \<rparr> \<rparr>"

definition tga_set_method :: "bytes \<Rightarrow> tga_handle_t \<Rightarrow> tga_handle_t" where
  "tga_set_method meth handle = handle\<lparr> hd_req := (hd_req handle)\<lparr> rq_method := Some meth \<rparr> \<rparr>"

definition tge_get_res_body :: "tga_handle_t \<Rightarrow> bytes option" where
  "tge_get_res_body handle = rs_body (hd_res handle)"

section \<open>Network\<close>

text \<open>
  The answer to one transfer: whether memory for the response and the curl handle could be
  had, what fresh memory holds, which sizes \<open>realloc\<close> can give, the pieces of the response and
  whether \<open>curl_easy_perform\<close> reports success when the callback takes all of them.
\<close>

record curl_reply =
  cr_malloc :: bool
  cr_init :: bool
  cr_fill :: char
  cr_realloc :: "nat \<Rightarrow> bool"
  cr_chunks :: "bytes list"
  cr_ok :: bool

record api_request =
  ap_url :: bytes
  ap_header :: bytes
  ap_post :: "bytes option"

record net =
  nt_calls :: nat
  nt_reply :: "nat \<Rightarrow> curl_reply"
  nt_sent :: "api_request list"

section \<open>The response buffer\<close>

text \<open>
  The sizes are natural numbers.  A \<open>size_t\<close> would wrap when twice the buffer and the new piece come to \<open>2 ^ 64\<close> bytes or more; there is
  no such buffer, because its length and that of the piece are those of objects in memory.
\<close>

definition write_callback :: "curl_reply \<Rightarrow> bytes \<Rightarrow> tga_res_t \<Rightarrow> (nat \<times> tga_res_t) res" where
  "write_callback env data res =
     (case rs_body res of
        None \<Rightarrow> Inl NullDeref
      | Some body \<Rightarrow>
          let add_len = length data; len = rs_len res; allocated = rs_allocated res;
              grow = allocated \<le> add_len + len + 2;
              allocated' = (if grow then allocated * 2 + add_len else allocated);
              body' = (if grow then take allocated' (body @ replicate (allocated' - length body) (cr_fill env)) else body)
          in if grow \<and> \<not> cr_realloc env allocated' then Inr (0, res)
             else
               ebind (buf_put body' len data) (\<lambda>body.
               ebind (buf_set body (len + add_len) NUL) (\<lambda>body.
               Inr (add_len, \<lparr> rs_body = Some body, rs_len = len + add_len, rs_allocated = allocated' \<rparr>))))"

text \<open>A callback that takes less than it is given ends the transfer with an error.\<close>

fun curl_deliver :: "curl_reply \<Rightarrow> bytes list \<Rightarrow> tga_res_t \<Rightarrow> (bool \<times> tga_res_t) res" where
  "curl_deliver env [] res = Inr (True, res)"
| "curl_deliver env (c # cs) res =
     ebind (write_callback env c res) (\<lambda>(n, res).
       if n \<noteq> length c then Inr (False, res) else curl_deliver env cs res)"

definition tg_api_allocate_res :: "curl_reply \<Rightarrow> tga_res_t \<Rightarrow> (int \<times> tga_res_t) res" where
  "tg_api_allocate_res env res =
     (case rs_body res of
        None \<Rightarrow>
          if \<not> cr_malloc env then Inr (- ENOMEM, res_zero)
          else Inr (0, \<lparr> rs_body = Some (replicate 4096 (cr_fill env)), rs_len = 0, rs_allocated = 4096 \<rparr>)
      | Some body \<Rightarrow>
          if rs_allocated res = 0 then Inl Aborted else Inr (0, res\<lparr> rs_len := 0 \<rparr>))"

section \<open>Posting\<close>

text \<open>The two copying loops for the URL; the flag tells that the array was full.\<close>

fun url_copy :: "bytes \<Rightarrow> bytes \<Rightarrow> (bool \<times> bytes) res" where
  "url_copy [] url = Inr (False, url)"
| "url_copy (c # cs) url =
     ebind (buf_app 512 url [c]) (\<lambda>url.
       if 510 \<le> length url then Inr (True, url) else url_copy cs url)"

text \<open>The string in the array: the null byte behind it must have room too.\<close>

definition url_end :: "bytes \<Rightarrow> bytes res" where
  "url_end url = ebind (buf_app 512 url [NUL]) (\<lambda>_. Inr url)"

definition api_url :: "bytes \<Rightarrow> bytes \<Rightarrow> bytes res" where
  "api_url token meth =
     ebind (buf_app 512 [] ''https://api.telegram.org/bot'') (\<lambda>url.
     ebind (url_copy (cstr token) url) (\<lambda>(full, url).
     if full then url_end url
     else
       ebind (buf_app 512 url ''/'') (\<lambda>url.
       ebind (url_copy (cstr meth) url) (\<lambda>(full, url). url_end url))))"

fun content_header :: "content_type_t \<Rightarrow> bytes" where
  "content_header APP_X_WWW_FORM_URLENCODED = ''Content-Type: application/x-www-form-urlencoded''"
| "content_header APP_JSON = ''Content-Type: application/json''"

definition tg_api_post :: "tga_handle_t \<Rightarrow> net \<Rightarrow> (int \<times> tga_handle_t \<times> net) res" where
  "tg_api_post handle nt =
     (let env = nt_reply nt (nt_calls nt); nt = nt\<lparr> nt_calls := Suc (nt_calls nt) \<rparr> in
      case (rq_method (hd_req handle), hd_token handle) of
        (None, _) \<Rightarrow> Inr (- EINVAL, handle, nt)
      | (Some meth, None) \<Rightarrow> Inr (- EINVAL, handle, nt)
      | (Some meth, Some token) \<Rightarrow>
          if cstr token = [] then Inr (- EINVAL, handle, nt)
          else
            ebind (tg_api_allocate_res env (hd_res handle)) (\<lambda>(ret, res).
            let handle = handle\<lparr> hd_res := res \<rparr> in
            if ret \<noteq> 0 then Inr (ret, handle, nt)
            else
              ebind (api_url token meth) (\<lambda>url.
              if \<not> cr_init env then Inr (- ENOMEM, handle, nt)
              else
                let r = \<lparr> ap_url = url, ap_header = content_header (hd_content_type handle),
                          ap_post = map_option cstr (rq_body (hd_req handle)) \<rparr>
                in ebind (curl_deliver env (cr_chunks env) res) (\<lambda>(taken, res).
                     Inr (if taken \<and> cr_ok env then 0 else - EBADMSG, handle\<lparr> hd_res := res \<rparr>,
                          nt\<lparr> nt_sent := nt_sent nt @ [r] \<rparr>)))))"

section \<open>Methods\<close>

text \<open>
  \<open>snprintf(buf + pos, space, ...)\<close>: at most \<open>space\<close> bytes with the null byte are written,
  the length of the whole text is returned.
\<close>

definition snprintf :: "bytes \<Rightarrow> nat \<Rightarrow> nat \<Rightarrow> bytes \<Rightarrow> (nat \<times> bytes) res" where
  "snprintf buf pos space t =
     (if space = 0 then Inr (length t, buf)
      else ebind (buf_put buf pos (take (space - 1) t @ [NUL])) (\<lambda>buf. Inr (length t, buf)))"

definition fmt_d64 :: "u64 \<Rightarrow> bytes" where "fmt_d64 w = show_int (sint w)"
definition fmt_u64 :: "u64 \<Rightarrow> bytes" where "fmt_u64 w = show_nat (unat w)"
definition fmt_flag :: "bool \<Rightarrow> bytes" where "fmt_flag b = (if b then ''1'' else ''0'')"
definition fmt_bool :: "bool \<Rightarrow> bytes" where "fmt_bool b = (if b then ''true'' else ''false'')"

text \<open>An array on the stack, which holds whatever was there.\<close>

definition stack_buf :: "net \<Rightarrow> nat \<Rightarrow> bytes" where
  "stack_buf nt n = replicate n (cr_fill (nt_reply nt (nt_calls nt)))"

text \<open>The end of every method: the body and the name are set, and the request is posted.\<close>

definition post_method :: "bytes \<Rightarrow> bytes \<Rightarrow> tga_handle_t \<Rightarrow> net \<Rightarrow> (int \<times> tga_handle_t \<times> net) res" where
  "post_method buf meth handle nt = tg_api_post (tga_set_method meth (tga_set_body buf handle)) nt"

datatype parse_mode_t = PARSE_MODE_OFF | PARSE_MODE_HTML | PARSE_MODE_MARKDOWN | PARSE_MODE_OTHER u32

record tga_send_msg_t =
  sg_chat_id :: u64
  sg_reply_to_msg_id :: u64
  sg_text :: bytes
  sg_parse_mode :: parse_mode_t

fun parse_mode_field :: "parse_mode_t \<Rightarrow> bytes option" where
  "parse_mode_field PARSE_MODE_OFF = Some []"
| "parse_mode_field PARSE_MODE_HTML = Some ''&parse_mode=html''"
| "parse_mode_field PARSE_MODE_MARKDOWN = Some ''&parse_mode=markdown''"
| "parse_mode_field (PARSE_MODE_OTHER n) = None"

text \<open>\<open>urlencode(buf + pos, s, len, true)\<close> inside an array.\<close>

definition urlencode_at :: "bytes \<Rightarrow> nat \<Rightarrow> bytes \<Rightarrow> nat \<Rightarrow> bytes res" where
  "urlencode_at buf pos s len =
     ebind (urlencode (Some (length buf - pos)) s len True) (\<lambda>out. buf_put buf pos out)"

definition tga_send_msg :: "tga_handle_t \<Rightarrow> tga_send_msg_t \<Rightarrow> net \<Rightarrow> (int \<times> tga_handle_t \<times> net) res" where
  "tga_send_msg handle ctx nt =
     (let space = 0x6500; buf = stack_buf nt space in
      ebind (snprintf buf 0 space (''chat_id='' @ fmt_d64 (sg_chat_id ctx))) (\<lambda>(pos, buf).
      ebind (if sg_reply_to_msg_id ctx \<noteq> 0
             then ebind (snprintf buf pos (space - pos) (''&reply_to_message_id='' @ fmt_u64 (sg_reply_to_msg_id ctx)))
                    (\<lambda>(n, buf). Inr (pos + n, buf))
             else Inr (pos, buf)) (\<lambda>(pos, buf).
      case parse_mode_field (sg_parse_mode ctx) of
        None \<Rightarrow> Inr (- EINVAL, handle, nt)
      | Some t \<Rightarrow>
          ebind (buf_put buf pos t) (\<lambda>buf.
          let pos = pos + length t in
          ebind (buf_put buf pos (''&text='' @ [NUL])) (\<lambda>buf.
          let pos = pos + 6; text_len = strnlen (sg_text ctx) ((space - pos) div 3 - 1) in
          ebind (urlencode_at buf pos (sg_text ctx) text_len) (\<lambda>buf.
          post_method buf ''sendMessage'' handle nt))))))"

record tga_delete_msg_t =
  dm_chat_id :: u64
  dm_message_id :: u64

definition tga_delete_msg :: "tga_handle_t \<Rightarrow> tga_delete_msg_t \<Rightarrow> net \<Rightarrow> (int \<times> tga_handle_t \<times> net) res" where
  "tga_delete_msg handle ctx nt =
     ebind (snprintf (stack_buf nt 128) 0 128
       (''chat_id='' @ fmt_d64 (dm_chat_id ctx) @ ''&message_id='' @ fmt_u64 (dm_message_id ctx))) (\<lambda>(_, buf).
     post_method buf ''deleteMessage'' handle nt)"

record tga_pin_cm_t =
  pn_chat_id :: u64
  pn_message_id :: u64
  pn_disable_notification :: bool

definition tga_pin_chat_msg :: "tga_handle_t \<Rightarrow> tga_pin_cm_t \<Rightarrow> net \<Rightarrow> (int \<times> tga_handle_t \<times> net) res" where
  "tga_pin_chat_msg handle ctx nt =
     ebind (snprintf (stack_buf nt 256) 0 256
       (''chat_id='' @ fmt_d64 (pn_chat_id ctx) @ ''&message_id='' @ fmt_u64 (pn_message_id ctx) @
        ''&disable_notification='' @ fmt_flag (pn_disable_notification ctx))) (\<lambda>(_, buf).
     post_method buf ''pinChatMessage'' handle nt)"

record tga_unpin_cm_t =
  up_chat_id :: u64
  up_message_id :: u64

definition tga_unpin_chat_msg :: "tga_handle_t \<Rightarrow> tga_unpin_cm_t \<Rightarrow> net \<Rightarrow> (int \<times> tga_handle_t \<times> net) res" where
  "tga_unpin_chat_msg handle ctx nt =
     ebind (snprintf (stack_buf nt 128) 0 128
       (''chat_id='' @ fmt_d64 (up_chat_id ctx) @ ''&message_id='' @ fmt_u64 (up_message_id ctx))) (\<lambda>(_, buf).
     post_method buf ''unpinChatMessage'' handle nt)"

record tga_unban_cm_t =
  ub_chat_id :: u64
  ub_user_id :: u64
  ub_only_if_banned :: bool

definition tga_unban_chat_member :: "tga_handle_t \<Rightarrow> tga_unban_cm_t \<Rightarrow> net \<Rightarrow> (int \<times> tga_handle_t \<times> net) res" where
  "tga_unban_chat_member handle ctx nt =
     ebind (snprintf (stack_buf nt 256) 0 256
       (''chat_id='' @ fmt_d64 (ub_chat_id ctx) @ ''&user_id='' @ fmt_u64 (ub_user_id ctx) @
        ''&only_if_banned='' @ fmt_flag (ub_only_if_banned ctx))) (\<lambda>(_, buf).
     post_method buf ''unbanChatMember'' handle nt)"

record tga_kick_cm_t =
  kc_chat_id :: u64
  kc_user_id :: u64
  kc_until_date :: u64
  kc_revoke_msg :: bool

definition tga_kick_chat_member :: "tga_handle_t \<Rightarrow> tga_kick_cm_t \<Rightarrow> net \<Rightarrow> (int \<times> tga_handle_t \<times> net) res" where
  "tga_kick_chat_member handle ctx nt =
     (let space = 512; buf = stack_buf nt space in
      ebind (snprintf buf 0 space (''chat_id='' @ fmt_d64 (kc_chat_id ctx) @ ''&user_id='' @ fmt_u64 (kc_user_id ctx))) (\<lambda>(pos, buf).
      ebind (if kc_until_date ctx \<noteq> 0
             then ebind (snprintf buf pos (space - pos) (''&until_date='' @ fmt_u64 (kc_until_date ctx)))
                    (\<lambda>(n, buf). Inr (pos + n, buf))
             else Inr (pos, buf)) (\<lambda>(pos, buf).
      ebind (if \<not> kc_revoke_msg ctx then buf_put buf pos (''&revoke_messages=0'' @ [NUL]) else Inr buf) (\<lambda>buf.
      post_method buf ''kickChatMember'' handle nt))))"

record tga_res_perm_t =
  pm_messages :: bool
  pm_media :: bool
  pm_polls :: bool
  pm_other :: bool
  pm_previews :: bool
  pm_info :: bool
  pm_invite :: bool
  pm_pin :: bool

record tga_restrict_cm_t =
  rc_chat_id :: u64
  rc_user_id :: u64
  rc_until_date :: u64
  rc_permissions :: tga_res_perm_t

definition restrict_json :: "tga_restrict_cm_t \<Rightarrow> bytes" where
  "restrict_json ctx =
     (let perm = rc_permissions ctx in
      ''{'' @
        ''\"user_id\":'' @ fmt_u64 (rc_user_id ctx) @ '','' @
        ''\"chat_id\":'' @ fmt_d64 (rc_chat_id ctx) @ '','' @
        ''\"until_date\":'' @ fmt_u64 (rc_until_date ctx) @ '','' @
        ''\"permissions\":{'' @
          ''\"can_send_messages\":'' @ fmt_bool (pm_messages perm) @ '','' @
          ''\"can_send_media_messages\":'' @ fmt_bool (pm_media perm) @ '','' @
          ''\"can_send_polls\":'' @ fmt_bool (pm_polls perm) @ '','' @
          ''\"can_send_other_messages\":'' @ fmt_bool (pm_other perm) @ '','' @
          ''\"can_add_web_page_previews\":'' @ fmt_bool (pm_previews perm) @ '','' @
          ''\"can_change_info\":'' @ fmt_bool (pm_info perm) @ '','' @
          ''\"can_invite_users\":'' @ fmt_bool (pm_invite perm) @ '','' @
          ''\"can_pin_messages\":'' @ fmt_bool (pm_pin perm) @
        ''}'' @
      ''}'')"

definition tga_restrict_chat_member ::
  "tga_handle_t \<Rightarrow> tga_restrict_cm_t \<Rightarrow> net \<Rightarrow> (int \<times> tga_handle_t \<times> net) res" where
  "tga_restrict_chat_member handle ctx nt =
     ebind (snprintf (stack_buf nt 512) 0 512 (restrict_json ctx)) (\<lambda>(_, buf).
     post_method buf ''restrictChatMember'' (handle\<lparr> hd_content_type := APP_JSON \<rparr>) nt)"

section \<open>Administrators of a chat\<close>

record tga_user =
  us_id :: u64
  us_first_name :: "bytes option"
  us_last_name :: "bytes option"
  us_username :: "bytes option"
  us_is_bot :: bool
  us_lang :: bytes

datatype chmem_status_t = NOP_STATUS | CREATOR | ADMINISTRATOR | MEMBER | RESTRICTED | LEFT | KICKED

record tga_chat_member =
  cm_user :: tga_user
  cm_status :: chmem_status_t

definition member_zero :: tga_chat_member where
  "member_zero =
     \<lparr> cm_user = \<lparr> us_id = 0, us_first_name = None, us_last_name = None, us_username = None, us_is_bot = False,
                  us_lang = replicate 4 NUL \<rparr>, cm_status = NOP_STATUS \<rparr>"

definition tga_get_chat_admins :: "tga_handle_t \<Rightarrow> u64 \<Rightarrow> net \<Rightarrow> (int \<times> tga_handle_t \<times> net) res" where
  "tga_get_chat_admins handle chat_id nt =
     ebind (snprintf (stack_buf nt 64) 0 64 (''chat_id='' @ fmt_d64 chat_id)) (\<lambda>(_, buf).
     post_method buf ''getChatAdministrators'' handle nt)"

definition map_to_status :: "bytes option \<Rightarrow> chmem_status_t" where
  "map_to_status sta =
     (case sta of
        None \<Rightarrow> NOP_STATUS
      | Some sta \<Rightarrow>
          if strneq ''creator'' sta 7 then CREATOR
          else if strneq ''administrator'' sta 13 then ADMINISTRATOR
          else if strneq ''member'' sta 6 then MEMBER
          else if strneq ''restricted'' sta 10 then RESTRICTED
          else if strneq ''left'' sta 4 then CREATOR
          else if strneq ''kicked'' sta 6 then KICKED
          else NOP_STATUS)"

text \<open>\<open>json_object_object_get_ex(obj, key, &tmp) && tmp\<close>\<close>

definition get_some :: "json \<Rightarrow> bytes \<Rightarrow> json" where
  "get_some j key = (case json_object_object_get_ex j key of None \<Rightarrow> None | Some v \<Rightarrow> v)"

text \<open>One element of the array; \<open>None\<close> when the loop goes on to the next one.\<close>

definition admin_element :: "json \<Rightarrow> tga_chat_member \<Rightarrow> tga_chat_member option res" where
  "admin_element subres_obj a =
     (let user_obj = get_some subres_obj ''user'' in
      if subres_obj = None \<or> user_obj = None \<or> get_some user_obj ''id'' = None then Inr None
      else
        let u = (cm_user a)\<lparr> us_id := json_object_get_uint64 (get_some user_obj ''id'') \<rparr>;
            u = (case get_some user_obj ''is_bot'' of None \<Rightarrow> u | Some t \<Rightarrow> u\<lparr> us_is_bot := json_object_get_boolean (Some t) \<rparr>);
            u = (case get_some user_obj ''first_name'' of None \<Rightarrow> u | Some t \<Rightarrow> u\<lparr> us_first_name := json_object_get_string (Some t) \<rparr>);
            u = (case get_some user_obj ''username'' of None \<Rightarrow> u | Some t \<Rightarrow> u\<lparr> us_username := json_object_get_string (Some t) \<rparr>)
        in ebind (case json_object_get_string (get_some user_obj ''lang'') of
                    None \<Rightarrow> Inr (us_lang u)
                  | Some lang \<Rightarrow> ebind (strncpy (us_lang u) lang 3) (\<lambda>l. buf_set l 3 NUL)) (\<lambda>lang.
           Inr (Some (a\<lparr> cm_user := u\<lparr> us_lang := lang \<rparr>,
             cm_status := (case get_some subres_obj ''status'' of
                             None \<Rightarrow> cm_status a
                           | Some t \<Rightarrow> map_to_status (json_object_get_string (Some t))) \<rparr>))))"

text \<open>The loop writes the next free entry of the array that \<open>calloc\<close> has zeroed.\<close>

fun admin_loop :: "json \<Rightarrow> nat list \<Rightarrow> nat \<Rightarrow> tga_chat_member list \<Rightarrow> tga_chat_member list res" where
  "admin_loop res [] j arr = Inr arr"
| "admin_loop res (i # is) j arr =
     ebind (json_object_array_get_idx res i) (\<lambda>subres_obj.
     ebind (guard (j < length arr) OutOfBounds) (\<lambda>_.
     ebind (admin_element subres_obj (arr ! j)) (\<lambda>a.
       case a of
         None \<Rightarrow> admin_loop res is j arr
       | Some a \<Rightarrow> admin_loop res is (Suc j) (arr[j := a]))))"

definition parse_tga_admins :: "bool \<Rightarrow> json \<Rightarrow> (int \<times> tga_chat_member list \<times> nat) res" where
  "parse_tga_admins calloc_ok obj =
     (if get_some obj ''ok'' = None then Inr (- EINVAL, [], 0)
      else if \<not> json_object_get_boolean (get_some obj ''ok'') then Inr (- EBADMSG, [], 0)
      else if get_some obj ''result'' = None then Inr (- EINVAL, [], 0)
      else
        ebind (json_object_array_length (get_some obj ''result'')) (\<lambda>admin_c.
        if \<not> calloc_ok then Inr (- ENOMEM, [], 0)
        else
          ebind (admin_loop (get_some obj ''result'') [0..<admin_c] 0 (replicate (admin_c + 1) member_zero)) (\<lambda>arr.
          Inr (0, arr, admin_c))))"

section \<open>The response is collected\<close>

text \<open>
  The buffer is as large as the record says and has room behind the text; \<open>holds res t\<close> says
  that the text is there, with its null byte once the callback has run.
\<close>

definition res_ok :: "tga_res_t \<Rightarrow> bool" where
  "res_ok res \<longleftrightarrow> (\<exists>body. rs_body res = Some body \<and> length body = rs_allocated res \<and> rs_len res < rs_allocated res)"

definition holds :: "tga_res_t \<Rightarrow> bytes \<Rightarrow> bool \<Rightarrow> bool" where
  "holds res t terminated \<longleftrightarrow>
     rs_len res = length t \<and>
     (\<exists>body. rs_body res = Some body \<and> take (length t) body = t \<and> (terminated \<longrightarrow> body ! length t = NUL))"

lemma put_terminated:
  assumes "length t + length d < length body" and "take (length t) body = t"
  shows "\<exists>b. ebind (buf_put body (length t) d) (\<lambda>b. buf_set b (length t + length d) NUL) = Inr b \<and>
    length b = length body \<and> take (length (t @ d)) b = t @ d \<and> b ! length (t @ d) = NUL"
  using assms by (simp add: nth_append)

lemma write_callback_ok:
  assumes ok: "res_ok res" and t: "holds res t b"
  shows "\<exists>n res'. write_callback env d res = Inr (n, res') \<and> res_ok res' \<and>
    (if n = length d then d = [] \<and> res' = res \<or> holds res' (t @ d) True else n = 0 \<and> \<not> (\<forall>k. cr_realloc env k))"
proof -
  obtain body where body: "rs_body res = Some body" "length body = rs_allocated res" "length t < rs_allocated res"
      "rs_len res = length t" "take (length t) body = t"
    using ok t by (auto simp: res_ok_def holds_def)
  define grow where "grow \<longleftrightarrow> rs_allocated res \<le> length d + length t + 2"
  define al where "al = (if grow then rs_allocated res * 2 + length d else rs_allocated res)"
  define body' where "body' = (if grow then take al (body @ replicate (al - length body) (cr_fill env)) else body)"
  have run: "write_callback env d res =
      (if grow \<and> \<not> cr_realloc env al then Inr (0, res)
       else ebind (buf_put body' (length t) d) (\<lambda>body. ebind (buf_set body (length t + length d) NUL) (\<lambda>body.
         Inr (length d, \<lparr> rs_body = Some body, rs_len = length t + length d, rs_allocated = al \<rparr>))))"
    unfolding write_callback_def body(1,4) Let_def option.case body'_def al_def grow_def ..
  show ?thesis
  proof (cases "grow \<and> \<not> cr_realloc env al")
    case True
    then have "write_callback env d res = Inr (0, res)" by (simp add: run)
    then show ?thesis using ok True by auto
  next
    case False
    have len: "length body' = al" "length t + length d < length body'" "take (length t) body' = t"
      using body by (auto simp: body'_def al_def grow_def min_def)
    then obtain b' where b': "ebind (buf_put body' (length t) d) (\<lambda>b. buf_set b (length t + length d) NUL) = Inr b'"
        "length b' = length body'" "take (length (t @ d)) b' = t @ d" "b' ! length (t @ d) = NUL"
      using put_terminated by blast
    then have "write_callback env d res = Inr (length d, \<lparr> rs_body = Some b', rs_len = length t + length d, rs_allocated = al \<rparr>)"
      using False by (auto simp: run run_simps)
    then show ?thesis using b' len by (auto simp: res_ok_def holds_def)
  qed
qed


lemma holds_weaken: "holds res t True \<Longrightarrow> holds res t b"
  by (auto simp: holds_def)

lemma deliver_ok:
  assumes "res_ok res" and "holds res t b"
  shows "\<exists>taken res'. curl_deliver env cs res = Inr (taken, res') \<and> res_ok res' \<and>
    (taken \<longrightarrow> holds res' (t @ concat cs) (b \<or> concat cs \<noteq> [])) \<and> (taken \<or> \<not> (\<forall>k. cr_realloc env k))"
  using assms
proof (induction cs arbitrary: res t b)
  case (Cons c cs)
  obtain n res' where w: "write_callback env c res = Inr (n, res')" "res_ok res'"
      "if n = length c then c = [] \<and> res' = res \<or> holds res' (t @ c) True else n = 0 \<and> \<not> (\<forall>k. cr_realloc env k)"
    using write_callback_ok [OF Cons.prems] by blast
  show ?case
  proof (cases "n = length c")
    case True
    then consider "c = []" "res' = res" | "holds res' (t @ c) True" using w(3) by auto
    then show ?thesis
    proof cases
      case 1
      then show ?thesis using Cons.IH [OF Cons.prems] w True by simp
    next
      case 2
      then show ?thesis using Cons.IH [OF w(2) 2] w True by (auto intro: holds_weaken)
    qed
  next
    case False
    then show ?thesis using w by auto
  qed
qed auto

lemma allocate_ok:
  assumes "rs_body res = None \<or> res_ok res"
  shows "\<exists>ret res'. tg_api_allocate_res env res = Inr (ret, res') \<and>
    (ret = 0 \<and> res_ok res' \<and> holds res' [] False \<or> ret = - ENOMEM \<and> \<not> cr_malloc env)"
  using assms
  by (cases "rs_body res") (auto simp: tg_api_allocate_res_def res_ok_def holds_def)

section \<open>The URL\<close>

lemma url_copy_ok:
  "length url \<le> 510 \<Longrightarrow> \<exists>full url'. url_copy s url = Inr (full, url') \<and> length url' \<le> 511 \<and>
     (\<not> full \<longrightarrow> url' = url @ s \<and> (length url < 510 \<longrightarrow> length url' < 510)) \<and> (full \<longrightarrow> 510 \<le> length (url @ s))"
proof (induction s arbitrary: url)
  case (Cons c s)
  show ?case
  proof (cases "510 \<le> Suc (length url)")
    case False
    then show ?thesis using Cons.IH [of "url @ [c]"] Cons.prems by auto
  qed (use Cons.prems in auto)
qed auto

text \<open>Building the URL never leaves the array, and gives the whole URL when it is short enough.\<close>

lemma url_end_ok: "length url < 512 \<Longrightarrow> url_end url = Inr url"
  by (simp add: url_end_def)

definition api_base :: bytes where "api_base = ''https://api.telegram.org/bot''"

lemma length_api_base [simp]: "length api_base = 28"
  by (simp add: api_base_def)

lemma api_url_ok:
  "\<exists>url. api_url token meth = Inr url \<and> length url \<le> 511 \<and>
     (28 + length (cstr token) + 1 + length (cstr meth) < 510 \<longrightarrow> url = api_base @ cstr token @ ''/'' @ cstr meth)"
proof -
  obtain full url where 1: "url_copy (cstr token) api_base = Inr (full, url)" "length url \<le> 511"
      "\<not> full \<longrightarrow> url = api_base @ cstr token \<and> length url < 510" "full \<longrightarrow> 510 \<le> length (api_base @ cstr token)"
    using url_copy_ok [of api_base "cstr token"] by auto
  have run: "api_url token meth = (if full then url_end url else
      ebind (buf_app 512 url ''/'') (\<lambda>url. ebind (url_copy (cstr meth) url) (\<lambda>(full, url). url_end url)))"
    using 1(1) by (simp add: api_url_def api_base_def [symmetric])
  show ?thesis
  proof (cases full)
    case True
    then show ?thesis using 1 by (simp add: run url_end_ok)
  next
    case False
    then have u: "url = api_base @ cstr token" "length url < 510" using 1(3) by auto
    then obtain full' url' where "url_copy (cstr meth) (url @ ''/'') = Inr (full', url')" "length url' \<le> 511"
        "\<not> full' \<longrightarrow> url' = (url @ ''/'') @ cstr meth" "full' \<longrightarrow> 510 \<le> length ((url @ ''/'') @ cstr meth)"
      using url_copy_ok [of "url @ ''/''" "cstr meth"] by auto
    then show ?thesis using u False by (cases full') (simp_all add: run url_end_ok)
  qed
qed

section \<open>Posting a method\<close>

text \<open>
  A call that reaches the network records its request; the response is in the handle.
\<close>

definition request_of :: "tga_handle_t \<Rightarrow> bytes \<Rightarrow> bytes \<Rightarrow> api_request \<Rightarrow> bool" where
  "request_of handle meth post r \<longleftrightarrow>
     (\<exists>token. hd_token handle = Some token \<and> api_url token meth = Inr (ap_url r)) \<and>
     ap_header r = content_header (hd_content_type handle) \<and> ap_post r = Some post"

definition next_reply :: "net \<Rightarrow> curl_reply" where
  "next_reply nt = nt_reply nt (nt_calls nt)"

definition called :: "net \<Rightarrow> net \<Rightarrow> api_request list \<Rightarrow> bool" where
  "called nt nt' rs \<longleftrightarrow>
     nt_calls nt' = Suc (nt_calls nt) \<and> nt_reply nt' = nt_reply nt \<and> nt_sent nt' = nt_sent nt @ rs"

text \<open>A call reaches the network when there is a token, memory and a curl handle.\<close>

definition reaches :: "tga_handle_t \<Rightarrow> net \<Rightarrow> bool" where
  "reaches handle nt \<longleftrightarrow>
     (\<exists>token. hd_token handle = Some token \<and> cstr token \<noteq> []) \<and> cr_malloc (next_reply nt) \<and> cr_init (next_reply nt)"

lemma post_method_ok:
  assumes "rs_body (hd_res handle) = None"
  shows "\<exists>ret handle' nt' rs. post_method buf meth handle nt = Inr (ret, handle', nt') \<and> called nt nt' rs \<and>
    (\<forall>r \<in> set rs. request_of handle meth (cstr buf) r) \<and> length rs \<le> 1 \<and> (reaches handle nt \<longrightarrow> length rs = 1) \<and>
    (ret = 0 \<longrightarrow> length rs = 1 \<and> cr_ok (next_reply nt) \<and>
       holds (hd_res handle') (concat (cr_chunks (next_reply nt))) (concat (cr_chunks (next_reply nt)) \<noteq> []))"
proof -
  let ?env = "nt_reply nt (nt_calls nt)"
  consider "hd_token handle = None" | token where "hd_token handle = Some token" "cstr token = []"
    | token where "hd_token handle = Some token" "cstr token \<noteq> []"
    by (cases "hd_token handle") auto
  then show ?thesis
  proof cases
    case 3
    obtain ret res where a: "tg_api_allocate_res ?env (hd_res handle) = Inr (ret, res)"
        "ret = 0 \<and> res_ok res \<and> holds res [] False \<or> ret = - ENOMEM \<and> \<not> cr_malloc ?env"
      using allocate_ok assms by blast
    obtain url where u: "api_url token meth = Inr url" using api_url_ok by blast
    show ?thesis
    proof (cases "ret = 0 \<and> cr_init ?env")
      case True
      then have "res_ok res" "holds res [] False" using a(2) by auto
      then obtain taken res' where d: "curl_deliver ?env (cr_chunks ?env) res = Inr (taken, res')"
          "taken \<longrightarrow> holds res' (concat (cr_chunks ?env)) (concat (cr_chunks ?env) \<noteq> [])"
        using deliver_ok [of res "[]" False] by (metis append_Nil)
      show ?thesis using 3 a u d True
        by (auto simp: post_method_def tga_set_method_def tga_set_body_def tg_api_post_def Let_def called_def request_of_def next_reply_def reaches_def)
    next
      case False
      then show ?thesis using 3 a u
        by (auto simp: post_method_def tga_set_method_def tga_set_body_def tg_api_post_def Let_def called_def reaches_def next_reply_def)
    qed
  qed (auto simp: post_method_def tga_set_method_def tga_set_body_def tg_api_post_def Let_def called_def reaches_def next_reply_def)
qed

section \<open>The forms\<close>

lemma put_after: "length u \<le> length rest \<Longrightarrow> buf_put (t @ rest) (length t) u = Inr ((t @ u) @ drop (length u) rest)"
  by simp

lemma snprintf_after:
  "length u < space \<Longrightarrow> length u < length rest \<Longrightarrow>
     snprintf (t @ rest) (length t) space u = Inr (length u, (t @ u) @ NUL # drop (Suc (length u)) rest)"
  by (simp add: snprintf_def)

lemma snprintf_start:
  "length u < length buf \<Longrightarrow> snprintf buf 0 (length buf) u = Inr (length u, u @ NUL # drop (Suc (length u)) buf)"
  using snprintf_after [of u "length buf" buf "[]"] by simp

lemma length_stack_buf [simp]: "length (stack_buf nt n) = n"
  by (simp add: stack_buf_def)

lemma length_fmt: "length (fmt_d64 w) \<le> 20" "length (fmt_u64 w) \<le> 20" "length (fmt_flag b) = 1" "length (fmt_bool b) \<le> 5"
  by (simp_all add: fmt_d64_def fmt_u64_def fmt_flag_def fmt_bool_def length_show_u64 length_show_s64)

lemma digit_not_NUL: "is_digit c \<Longrightarrow> c \<noteq> NUL"
  by (auto simp: is_digit_def NUL_def)

lemma fmt_no_NUL [simp]: "NUL \<notin> set (fmt_d64 w)" "NUL \<notin> set (fmt_u64 w)" "NUL \<notin> set (fmt_flag b)" "NUL \<notin> set (fmt_bool b)"
proof -
  have n: "NUL \<notin> set (show_nat n)" for n using show_nat_digits [of NUL n] digit_not_NUL by blast
  show "NUL \<notin> set (fmt_d64 w)" "NUL \<notin> set (fmt_u64 w)"
    using n by (auto simp: fmt_d64_def fmt_u64_def show_int_def NUL_def)
  show "NUL \<notin> set (fmt_flag b)" "NUL \<notin> set (fmt_bool b)"
    by (simp_all add: fmt_flag_def fmt_bool_def NUL_def)
qed

definition send_head :: "tga_send_msg_t \<Rightarrow> bytes" where
  "send_head ctx =
     ''chat_id='' @ fmt_d64 (sg_chat_id ctx) @
     (if sg_reply_to_msg_id ctx \<noteq> 0 then ''&reply_to_message_id='' @ fmt_u64 (sg_reply_to_msg_id ctx) else []) @
     (case parse_mode_field (sg_parse_mode ctx) of None \<Rightarrow> [] | Some t \<Rightarrow> t) @ ''&text=''"

text \<open>How much of the text is sent.\<close>

definition sent_text :: "tga_send_msg_t \<Rightarrow> bytes" where
  "sent_text ctx = take ((0x6500 - length (send_head ctx)) div 3 - 1) (cstr (sg_text ctx))"

lemma parse_mode_length: "parse_mode_field m = Some t \<Longrightarrow> length t \<le> 20 \<and> NUL \<notin> set t"
  by (cases m) (auto simp: NUL_def)

lemma urlencode_after:
  assumes "len \<le> length s" and "3 * len < length rest"
  shows "urlencode_at (t @ rest) (length t) s len =
    Inr (t @ urlenc True (take len s) @ NUL # drop (Suc (length (urlenc True (take len s)))) rest)"
proof -
  have fits: "length (urlenc True (take len s)) < length rest"
    using length_urlenc [of True "take len s"] assms by simp
  then have "urlencode (Some (length rest)) s len True = Inr (urlenc True (take len s) @ [NUL])"
    using assms(1) by (intro urlencode_eq) simp_all
  then show ?thesis using fits by (simp add: urlencode_at_def)
qed

lemma send_head_steps:
  assumes "parse_mode_field (sg_parse_mode ctx) = Some m"
  shows "\<exists>a b. send_head ctx = a @ b @ m @ ''&text='' \<and> a = ''chat_id='' @ fmt_d64 (sg_chat_id ctx) \<and>
     b = (if sg_reply_to_msg_id ctx \<noteq> 0 then ''&reply_to_message_id='' @ fmt_u64 (sg_reply_to_msg_id ctx) else []) \<and>
     length a \<le> 28 \<and> length b \<le> 41 \<and> length m \<le> 20"
  using assms length_fmt(1) [of "sg_chat_id ctx"] length_fmt(2) [of "sg_reply_to_msg_id ctx"] parse_mode_length [OF assms]
  by (simp add: send_head_def)

lemma reply_field_step:
  assumes r: "length r = 0x6500 - length a" and len: "length a \<le> 28" "length b \<le> 41"
    and b: "b = (if sg_reply_to_msg_id ctx \<noteq> 0 then ''&reply_to_message_id='' @ fmt_u64 (sg_reply_to_msg_id ctx) else [])"
  shows "\<exists>r2. (if sg_reply_to_msg_id ctx \<noteq> 0
      then ebind (snprintf (a @ r) (length a) (0x6500 - length a) (''&reply_to_message_id='' @ fmt_u64 (sg_reply_to_msg_id ctx)))
        (\<lambda>(n, buf). Inr (length a + n, buf))
      else Inr (length a, a @ r)) = Inr (length (a @ b), (a @ b) @ r2) \<and> length r2 = 0x6500 - length (a @ b)"
proof (cases "sg_reply_to_msg_id ctx = 0")
  case False
  then have "snprintf (a @ r) (length a) (0x6500 - length a) (''&reply_to_message_id='' @ fmt_u64 (sg_reply_to_msg_id ctx)) =
      Inr (length b, (a @ b) @ NUL # drop (Suc (length b)) r)"
    using snprintf_after [of b "0x6500 - length a" r a] r len b by simp
  then show ?thesis using False r len by (intro exI [of _ "NUL # drop (Suc (length b)) r"]) simp
qed (use r b in simp)

lemma send_msg_posts:
  assumes m: "parse_mode_field (sg_parse_mode ctx) = Some m"
  shows "\<exists>buf. tga_send_msg handle ctx nt = post_method buf ''sendMessage'' handle nt \<and>
    cstr buf = send_head ctx @ urlenc True (sent_text ctx)"
proof -
  obtain a b where ab: "send_head ctx = a @ b @ m @ ''&text=''" "a = ''chat_id='' @ fmt_d64 (sg_chat_id ctx)"
      "b = (if sg_reply_to_msg_id ctx \<noteq> 0 then ''&reply_to_message_id='' @ fmt_u64 (sg_reply_to_msg_id ctx) else [])"
      and len: "length a \<le> 28" "length b \<le> 41" "length m \<le> 20"
    using send_head_steps [OF m] by blast
  let ?n = "0x6500 :: nat"
  obtain r1 where 1: "snprintf (stack_buf nt ?n) 0 ?n a = Inr (length a, a @ r1)" "length r1 = ?n - length a"
    using snprintf_start [of a "stack_buf nt ?n"] len by auto
  obtain r2 where 2: "(if sg_reply_to_msg_id ctx \<noteq> 0
      then ebind (snprintf (a @ r1) (length a) (?n - length a) (''&reply_to_message_id='' @ fmt_u64 (sg_reply_to_msg_id ctx)))
        (\<lambda>(n, buf). Inr (length a + n, buf))
      else Inr (length a, a @ r1)) = Inr (length (a @ b), (a @ b) @ r2)" "length r2 = ?n - length (a @ b)"
    using reply_field_step [OF 1(2) len(1,2) ab(3)] by blast
  have 3: "buf_put ((a @ b) @ r2) (length (a @ b)) m = Inr ((a @ b @ m) @ drop (length m) r2)"
    using 2(2) len by (subst put_after) simp_all
  let ?r3 = "drop (length m) r2"
  have 4: "buf_put ((a @ b @ m) @ ?r3) (length (a @ b) + length m) (''&text='' @ [NUL]) =
      Inr (send_head ctx @ NUL # drop 7 ?r3)"
    using put_after [of "''&text='' @ [NUL]" ?r3 "a @ b @ m"] 2(2) len ab(1) by (simp add: add.assoc)
  let ?len = "strnlen (sg_text ctx) ((?n - (length (a @ b) + length m + 6)) div 3 - 1)"
  have hd: "length (send_head ctx) = length (a @ b) + length m + 6" using ab(1) by simp
  have sent: "take ?len (sg_text ctx) = sent_text ctx"
    by (simp add: sent_text_def hd strnlen_eq take_strlen)
  have fits: "?len \<le> length (sg_text ctx)" "3 * ?len < length (NUL # drop 7 ?r3)"
    using 2(2) len length_cstr_le [of "sg_text ctx"] by (simp_all add: strnlen_eq)
  note 5 = urlencode_after [OF fits, of "send_head ctx", unfolded sent hd]
  let ?buf = "send_head ctx @ urlenc True (sent_text ctx) @ NUL # drop (Suc (length (urlenc True (sent_text ctx)))) (NUL # drop 7 ?r3)"
  have "tga_send_msg handle ctx nt = post_method ?buf ''sendMessage'' handle nt"
    unfolding tga_send_msg_def Let_def ab(2) [symmetric] 1(1) ebind.simps prod.case 2(1) m option.case 3 4 5 ..
  moreover have "NUL \<notin> set (send_head ctx)" using parse_mode_length [OF m] by (auto simp: send_head_def m NUL_def fmt_no_NUL [unfolded NUL_def])
  ultimately show ?thesis by (intro exI [of _ ?buf]) (simp add: cstr_append_NUL [of "send_head ctx @ urlenc True (sent_text ctx)", simplified])
qed

end
