(* ===== verification/Tg_Api_Forms.thy ===== *)
theory Tg_Api_Forms
  imports Tg_Api
begin

text \<open>
  What the requests of \<open>lib/tg_api/\<close> say: the body of every form is read back by a form
  decoder, and the body of \<open>restrictChatMember\<close> by the JSON parser.
\<close>

section \<open>A form decoder\<close>

fun split_on :: "char \<Rightarrow> bytes \<Rightarrow> bytes list" where
  "split_on d [] = [[]]"
| "split_on d (c # cs) =
     (if c = d then [] # split_on d cs
      else (case split_on d cs of [] \<Rightarrow> [[c]] | w # ws \<Rightarrow> (c # w) # ws))"

definition form_field :: "bytes \<Rightarrow> (bytes \<times> bytes) option" where
  "form_field s =
     (case (url_decode (takeWhile (\<lambda>c. c \<noteq> CHR ''='') s), url_decode (tl (dropWhile (\<lambda>c. c \<noteq> CHR ''='') s))) of
        (Some k, Some v) \<Rightarrow> Some (k, v)
      | _ \<Rightarrow> None)"

definition form_decode :: "bytes \<Rightarrow> (bytes \<times> bytes) list option" where
  "form_decode s = those (map form_field (split_on (CHR ''&'') s))"

lemma split_on_plain: "d \<notin> set s \<Longrightarrow> split_on d s = [s]"
  by (induction s) auto

lemma split_on_append: "d \<notin> set s \<Longrightarrow> split_on d (s @ d # t) = s # split_on d t"
  by (induction s) auto

text \<open>A name or a value that the encoder can have written, with what it says.\<close>

definition form_word :: "bytes \<Rightarrow> bytes \<Rightarrow> bool" where
  "form_word w t \<longleftrightarrow> CHR ''&'' \<notin> set w \<and> CHR ''='' \<notin> set w \<and> url_decode w = Some t"

lemma split_at: "d \<notin> set k \<Longrightarrow> takeWhile (\<lambda>c. c \<noteq> d) (k @ d # v) = k \<and> dropWhile (\<lambda>c. c \<noteq> d) (k @ d # v) = d # v"
  by (induction k) auto

lemma form_field_word:
  assumes "form_word k k'" "form_word v v'"
  shows "form_field (k @ CHR ''='' # v) = Some (k', v')"
proof -
  have "CHR ''='' \<notin> set k" using assms(1) by (simp add: form_word_def)
  then show ?thesis using split_at [of "CHR ''=''" k v] assms by (simp add: form_field_def form_word_def)
qed

lemma form_decode_last:
  assumes "form_word k k'" "form_word v v'"
  shows "form_decode (k @ CHR ''='' # v) = Some [(k', v')]"
proof -
  have "CHR ''&'' \<notin> set (k @ CHR ''='' # v)" using assms by (simp add: form_word_def)
  then show ?thesis using form_field_word [OF assms] by (simp add: form_decode_def split_on_plain)
qed

lemma form_decode_more:
  assumes "form_word k k'" "form_word v v'"
  shows "form_decode (k @ CHR ''='' # v @ CHR ''&'' # rest) = map_option ((#) (k', v')) (form_decode rest)"
proof -
  have "CHR ''&'' \<notin> set (k @ CHR ''='' # v)" using assms by (simp add: form_word_def)
  then have "split_on (CHR ''&'') ((k @ CHR ''='' # v) @ CHR ''&'' # rest) = (k @ CHR ''='' # v) # split_on (CHR ''&'') rest"
    by (rule split_on_append)
  then show ?thesis using form_field_word [OF assms] by (simp add: form_decode_def)
qed

text \<open>The text of a form, from its fields.\<close>

fun form_text :: "(bytes \<times> bytes) list \<Rightarrow> bytes" where
  "form_text [] = []"
| "form_text [(k, v)] = k @ CHR ''='' # v"
| "form_text ((k, v) # fs) = k @ CHR ''='' # v @ CHR ''&'' # form_text fs"

lemma form_decode_text:
  assumes "list_all2 (\<lambda>(k, v) (k', v'). form_word k k' \<and> form_word v v') fs fs'" and "fs \<noteq> []"
  shows "form_decode (form_text fs) = Some fs'"
  using assms
proof (induction fs arbitrary: fs' rule: form_text.induct)
  case (2 k v)
  then obtain k' v' where "fs' = [(k', v')]" "form_word k k'" "form_word v v'" by (auto simp: list_all2_Cons1)
  then show ?case by (simp add: form_decode_last)
next
  case (3 k v f fs)
  then obtain k' v' gs where g: "fs' = (k', v') # gs" "form_word k k'" "form_word v v'"
      "list_all2 (\<lambda>(k, v) (k', v'). form_word k k' \<and> form_word v v') (f # fs) gs"
    by (auto simp: list_all2_Cons1)
  then show ?case using "3.IH" by (simp add: form_decode_more)
qed auto

lemma url_decode_plain: "\<forall>c \<in> set s. c \<noteq> CHR ''%'' \<and> c \<noteq> CHR ''+'' \<Longrightarrow> url_decode s = Some s"
  by (induction s) auto

lemma form_word_plain:
  "\<forall>c \<in> set s. c \<noteq> CHR ''%'' \<and> c \<noteq> CHR ''+'' \<and> c \<noteq> CHR ''&'' \<and> c \<noteq> CHR ''='' \<Longrightarrow> form_word s s"
  by (auto simp: form_word_def url_decode_plain)

lemma digit_plain: "is_digit c \<Longrightarrow> c \<noteq> CHR ''%'' \<and> c \<noteq> CHR ''+'' \<and> c \<noteq> CHR ''&'' \<and> c \<noteq> CHR ''=''"
  by (auto simp: is_digit_def)

lemma form_word_fmt [simp]: "form_word (fmt_u64 w) (fmt_u64 w)" "form_word (fmt_d64 w) (fmt_d64 w)" "form_word (fmt_flag b) (fmt_flag b)"
  by (rule form_word_plain; use show_nat_digits digit_plain in
    \<open>fastforce simp: fmt_u64_def fmt_d64_def fmt_flag_def show_int_def split: if_splits\<close>)+

lemma form_word_urlenc [simp]: "form_word (urlenc True s) s"
proof -
  have "c \<noteq> CHR ''&'' \<and> c \<noteq> CHR ''=''" if "c \<in> set (urlenc True s)" for c
    using urlenc_safe [OF that] by (auto simp: url_safe_def)
  then show ?thesis by (auto simp: form_word_def url_decode_urlenc)
qed

section \<open>What the methods post\<close>

lemma NUL_literal: "NUL = Char a b c d e f g h \<longleftrightarrow> \<not> (a \<or> b \<or> c \<or> d \<or> e \<or> f \<or> g \<or> h)"
  by (simp add: NUL_def)

definition posts :: "(int \<times> tga_handle_t \<times> net) res \<Rightarrow> tga_handle_t \<Rightarrow> bytes \<Rightarrow> net \<Rightarrow> bytes \<Rightarrow> bool" where
  "posts run handle meth nt body \<longleftrightarrow> (\<exists>buf. run = post_method buf meth handle nt \<and> cstr buf = body)"

lemma snprintf_posts:
  assumes "length t < n" and "NUL \<notin> set t" and "body = t"
  shows "posts (ebind (snprintf (stack_buf nt n) 0 n t) (\<lambda>(_, buf). post_method buf meth handle nt)) handle meth nt body"
proof -
  have "snprintf (stack_buf nt n) 0 n t = Inr (length t, t @ NUL # drop (Suc (length t)) (stack_buf nt n))"
    using snprintf_start [of t "stack_buf nt n"] assms(1) by simp
  then show ?thesis using assms(2,3) by (auto simp: posts_def)
qed

definition send_fields :: "tga_send_msg_t \<Rightarrow> (bytes \<Rightarrow> bytes) \<Rightarrow> (bytes \<times> bytes) list" where
  "send_fields ctx enc =
     [(''chat_id'', fmt_d64 (sg_chat_id ctx))] @
     (if sg_reply_to_msg_id ctx \<noteq> 0 then [(''reply_to_message_id'', fmt_u64 (sg_reply_to_msg_id ctx))] else []) @
     (case sg_parse_mode ctx of
        PARSE_MODE_HTML \<Rightarrow> [(''parse_mode'', ''html'')]
      | PARSE_MODE_MARKDOWN \<Rightarrow> [(''parse_mode'', ''markdown'')]
      | _ \<Rightarrow> []) @
     [(''text'', enc (sent_text ctx))]"

lemma send_msg_form:
  assumes "parse_mode_field (sg_parse_mode ctx) = Some m"
  shows "posts (tga_send_msg handle ctx nt) handle ''sendMessage'' nt (form_text (send_fields ctx (urlenc True)))"
proof -
  have "send_head ctx @ urlenc True (sent_text ctx) = form_text (send_fields ctx (urlenc True))"
    using assms by (cases "sg_parse_mode ctx") (simp_all add: send_head_def send_fields_def)
  then show ?thesis using send_msg_posts [OF assms, of handle nt] by (auto simp: posts_def)
qed

definition delete_fields :: "tga_delete_msg_t \<Rightarrow> (bytes \<times> bytes) list" where
  "delete_fields ctx = [(''chat_id'', fmt_d64 (dm_chat_id ctx)), (''message_id'', fmt_u64 (dm_message_id ctx))]"

definition pin_fields :: "tga_pin_cm_t \<Rightarrow> (bytes \<times> bytes) list" where
  "pin_fields ctx =
     [(''chat_id'', fmt_d64 (pn_chat_id ctx)), (''message_id'', fmt_u64 (pn_message_id ctx)),
      (''disable_notification'', fmt_flag (pn_disable_notification ctx))]"

definition unpin_fields :: "tga_unpin_cm_t \<Rightarrow> (bytes \<times> bytes) list" where
  "unpin_fields ctx = [(''chat_id'', fmt_d64 (up_chat_id ctx)), (''message_id'', fmt_u64 (up_message_id ctx))]"

definition unban_fields :: "tga_unban_cm_t \<Rightarrow> (bytes \<times> bytes) list" where
  "unban_fields ctx =
     [(''chat_id'', fmt_d64 (ub_chat_id ctx)), (''user_id'', fmt_u64 (ub_user_id ctx)),
      (''only_if_banned'', fmt_flag (ub_only_if_banned ctx))]"

definition kick_fields :: "tga_kick_cm_t \<Rightarrow> (bytes \<times> bytes) list" where
  "kick_fields ctx =
     [(''chat_id'', fmt_d64 (kc_chat_id ctx)), (''user_id'', fmt_u64 (kc_user_id ctx))] @
     (if kc_until_date ctx \<noteq> 0 then [(''until_date'', fmt_u64 (kc_until_date ctx))] else []) @
     (if \<not> kc_revoke_msg ctx then [(''revoke_messages'', ''0'')] else [])"

lemmas fields_defs = delete_fields_def pin_fields_def unpin_fields_def unban_fields_def kick_fields_def send_fields_def

lemma delete_msg_form: "posts (tga_delete_msg handle ctx nt) handle ''deleteMessage'' nt (form_text (delete_fields ctx))"
  using length_fmt(1) [of "dm_chat_id ctx"] length_fmt(2) [of "dm_message_id ctx"]
  unfolding tga_delete_msg_def by (intro snprintf_posts) (simp_all add: fields_defs NUL_literal)

lemma pin_chat_msg_form: "posts (tga_pin_chat_msg handle ctx nt) handle ''pinChatMessage'' nt (form_text (pin_fields ctx))"
  using length_fmt(1) [of "pn_chat_id ctx"] length_fmt(2) [of "pn_message_id ctx"]
  unfolding tga_pin_chat_msg_def by (intro snprintf_posts) (simp_all add: fields_defs NUL_literal length_fmt(3))

lemma unpin_chat_msg_form: "posts (tga_unpin_chat_msg handle ctx nt) handle ''unpinChatMessage'' nt (form_text (unpin_fields ctx))"
  using length_fmt(1) [of "up_chat_id ctx"] length_fmt(2) [of "up_message_id ctx"]
  unfolding tga_unpin_chat_msg_def by (intro snprintf_posts) (simp_all add: fields_defs NUL_literal)

lemma unban_chat_member_form: "posts (tga_unban_chat_member handle ctx nt) handle ''unbanChatMember'' nt (form_text (unban_fields ctx))"
  using length_fmt(1) [of "ub_chat_id ctx"] length_fmt(2) [of "ub_user_id ctx"]
  unfolding tga_unban_chat_member_def by (intro snprintf_posts) (simp_all add: fields_defs NUL_literal length_fmt(3))

lemma get_chat_admins_form: "posts (tga_get_chat_admins handle chat_id nt) handle ''getChatAdministrators'' nt (form_text [(''chat_id'', fmt_d64 chat_id)])"
  using length_fmt(1) [of chat_id]
  unfolding tga_get_chat_admins_def by (intro snprintf_posts) (simp_all add: NUL_literal)

lemma kick_chat_member_form: "posts (tga_kick_chat_member handle ctx nt) handle ''kickChatMember'' nt (form_text (kick_fields ctx))"
proof -
  define a where "a = ''chat_id='' @ fmt_d64 (kc_chat_id ctx) @ ''&user_id='' @ fmt_u64 (kc_user_id ctx)"
  define u where "u = ''&until_date='' @ fmt_u64 (kc_until_date ctx)"
  define v where "v = ''&revoke_messages=0''"
  define b where "b = a @ (if kc_until_date ctx \<noteq> 0 then u else [])"
  define body where "body = b @ (if \<not> kc_revoke_msg ctx then v else [])"
  have len: "length a \<le> 60" "length u \<le> 40" "length v \<le> 20"
    using length_fmt(1) [of "kc_chat_id ctx"] length_fmt(2) [of "kc_user_id ctx"] length_fmt(2) [of "kc_until_date ctx"]
    by (simp_all add: a_def u_def v_def)
  have NULs: "NUL \<notin> set a" "NUL \<notin> set u" "NUL \<notin> set v" by (simp_all add: a_def u_def v_def NUL_literal)
  obtain r where 1: "snprintf (stack_buf nt 512) 0 512 a = Inr (length a, a @ NUL # r)" "length r = 511 - length a"
    using snprintf_start [of a "stack_buf nt 512"] len by auto
  have "snprintf (a @ NUL # r) (length a) (512 - length a) u = Inr (length u, (a @ u) @ NUL # drop (length u) r)"
    using snprintf_after [of u "512 - length a" "NUL # r" a] len 1(2) by simp
  then obtain r2 where 2: "(if kc_until_date ctx \<noteq> 0
      then ebind (snprintf (a @ NUL # r) (length a) (512 - length a) u) (\<lambda>(n, buf). Inr (length a + n, buf))
      else Inr (length a, a @ NUL # r)) = Inr (length b, b @ NUL # r2)" "length r2 = 511 - length b"
    using 1(2) len by (cases "kc_until_date ctx = 0") (auto simp: b_def)
  have "buf_put (b @ NUL # r2) (length b) (v @ [NUL]) = Inr ((b @ v @ [NUL]) @ drop (length v) r2)"
    using put_after [of "v @ [NUL]" "NUL # r2" b] 2(2) len by (simp add: b_def)
  then obtain r3 where 3: "(if \<not> kc_revoke_msg ctx then buf_put (b @ NUL # r2) (length b) (v @ [NUL]) else Inr (b @ NUL # r2)) = Inr (body @ NUL # r3)"
    by (cases "kc_revoke_msg ctx") (auto simp: body_def)
  have "tga_kick_chat_member handle ctx nt = post_method (body @ NUL # r3) ''kickChatMember'' handle nt"
    unfolding tga_kick_chat_member_def Let_def a_def [symmetric] u_def [symmetric] v_def [symmetric] 1(1) ebind.simps prod.case 2(1) 3 ..
  moreover have "NUL \<notin> set body" using NULs by (simp add: body_def b_def)
  moreover have "body = form_text (kick_fields ctx)" by (simp add: body_def b_def a_def u_def v_def fields_defs)
  ultimately show ?thesis by (auto simp: posts_def)
qed

section \<open>The permissions document\<close>

definition number :: "u64 \<Rightarrow> json" where
  "number w = Some (if unat w < 2 ^ 63 then JInt64 w else JUint64 w)"

definition restrict_doc :: "tga_restrict_cm_t \<Rightarrow> json" where
  "restrict_doc ctx =
     (let perm = rc_permissions ctx; flag = (\<lambda>b. Some (JBool b)) in
      Some (JObj
        [(''user_id'', number (rc_user_id ctx)), (''chat_id'', Some (JInt64 (rc_chat_id ctx))),
         (''until_date'', number (rc_until_date ctx)),
         (''permissions'', Some (JObj
            [(''can_send_messages'', flag (pm_messages perm)), (''can_send_media_messages'', flag (pm_media perm)),
             (''can_send_polls'', flag (pm_polls perm)), (''can_send_other_messages'', flag (pm_other perm)),
             (''can_add_web_page_previews'', flag (pm_previews perm)), (''can_change_info'', flag (pm_info perm)),
             (''can_invite_users'', flag (pm_invite perm)), (''can_pin_messages'', flag (pm_pin perm))]))]))"

definition plain_flags :: jflags where
  "plain_flags = \<lparr> JSON_C_TO_STRING_SPACED = False, JSON_C_TO_STRING_PRETTY = False,
     JSON_C_TO_STRING_PRETTY_TAB = False, JSON_C_TO_STRING_NOSLASHESCAPE = False \<rparr>"

definition key_char :: "char \<Rightarrow> bool" where
  "key_char c \<longleftrightarrow> c = CHR ''_'' \<or> 97 \<le> byte c \<and> byte c \<le> (122 :: nat)"

lemma escape_key: "\<forall>c \<in> set k. key_char c \<Longrightarrow> json_escape_str fl k = k"
proof (induction k)
  case (Cons c k)
  then have "key_char c" by simp
  then have c: "95 \<le> (byte c :: nat)" "c \<noteq> CHR 0x5C" by (auto simp: key_char_def)
  then have "c \<notin> snd ` simple_escapes" by (auto simp: simple_escapes_def)
  then have "json_escape_char fl c = [c]" using c(1) by (simp add: escape_other)
  then show ?case using Cons by (simp add: json_escape_str_def)
qed (simp add: json_escape_str_def)

lemma print_number: "to_json_ptr fl n (number w) = fmt_u64 w"
proof (cases "unat w < 2 ^ 63")
  case True
  then have "uint w < 2 ^ 63" by (metis of_nat_less_iff of_nat_unat of_nat_numeral of_nat_power)
  then show ?thesis using True by (simp add: number_def fmt_u64_def show_int_def sint_u64 nat_uint_eq)
qed (simp add: number_def fmt_u64_def)

lemma plain_members:
  "to_json_members plain_flags n had [] = []"
  "\<forall>c \<in> set k. key_char c \<Longrightarrow> to_json_members plain_flags n had ((k, v) # es) =
     (if had then '','' else []) @ [CHR 0x22] @ k @ [CHR 0x22, CHR '':''] @ to_json_ptr plain_flags (n + 1) v @ to_json_members plain_flags n True es"
  by (simp_all add: print_sep_def indent_def plain_flags_def escape_key)

lemma plain_object: "to_json_ptr plain_flags n (Some (JObj es)) = ''{'' @ to_json_members plain_flags n False es @ ''}''"
  by (simp add: print_open_def print_close_def plain_flags_def)

lemma restrict_json_print: "restrict_json ctx = json_object_to_json_string_ext (restrict_doc ctx) plain_flags"
proof -
  have flag: "to_json_ptr plain_flags n (Some (JBool b)) = fmt_bool b" for n b by (simp add: fmt_bool_def)
  have id: "to_json_ptr plain_flags n (Some (JInt64 w)) = fmt_d64 w" for n w by (simp add: fmt_d64_def)
  show ?thesis
    unfolding restrict_json_def restrict_doc_def json_object_to_json_string_ext_def Let_def plain_object
    by (simp add: plain_members key_char_def print_number plain_object flag id del: to_json_members.simps to_json_string.simps to_json_ptr.simps)
qed

lemma restrict_doc_ok: "json_ptr_ok (restrict_doc ctx)" "json_ptr_depth (restrict_doc ctx) < 32"
proof -
  have number: "json_ptr_ok (number w)" "json_ptr_depth (number w) = 0" for w
    by (auto simp: number_def word_less_nat_alt)
  show "json_ptr_ok (restrict_doc ctx)" "json_ptr_depth (restrict_doc ctx) < 32"
    by (simp_all add: restrict_doc_def Let_def number NUL_literal)
qed

lemma restrict_form: "posts (tga_restrict_chat_member handle ctx nt) (handle\<lparr> hd_content_type := APP_JSON \<rparr>) ''restrictChatMember'' nt (restrict_json ctx)"
proof -
  have "length (restrict_json ctx) < 512"
    using length_fmt(1) [of "rc_chat_id ctx"] length_fmt(2) [of "rc_user_id ctx"] length_fmt(2) [of "rc_until_date ctx"]
      length_fmt(4) [of "pm_messages (rc_permissions ctx)"]
      length_fmt(4) [of "pm_media (rc_permissions ctx)"]
      length_fmt(4) [of "pm_polls (rc_permissions ctx)"]
      length_fmt(4) [of "pm_other (rc_permissions ctx)"]
      length_fmt(4) [of "pm_previews (rc_permissions ctx)"]
      length_fmt(4) [of "pm_info (rc_permissions ctx)"]
      length_fmt(4) [of "pm_invite (rc_permissions ctx)"]
      length_fmt(4) [of "pm_pin (rc_permissions ctx)"]
    by (simp add: restrict_json_def Let_def)
  moreover have "NUL \<notin> set (restrict_json ctx)"
    using print_string [OF restrict_doc_ok(1)] by (simp add: restrict_json_print)
  ultimately show ?thesis unfolding tga_restrict_chat_member_def by (intro snprintf_posts) simp_all
qed

section \<open>Properties\<close>

text \<open>
  C18. A message is sent as it was given: \<open>tga_send_msg\<close> makes at most one request, exactly one
  when it reports success or has a token, memory and a curl handle, and a form decoder reads from its body the chat, the message that
  is replied to (when there is one), the parse mode and the text, whatever bytes the text
  has.  Text that does not fit into the buffer is cut at its end, and 8000 bytes always fit;
  nothing is written outside the buffer.
\<close>

theorem send_msg_decodes:
  assumes "rs_body (hd_res handle) = None" and "sg_parse_mode ctx \<in> {PARSE_MODE_OFF, PARSE_MODE_HTML, PARSE_MODE_MARKDOWN}"
  shows "\<exists>ret handle' nt' rs. tga_send_msg handle ctx nt = Inr (ret, handle', nt') \<and> called nt nt' rs \<and>
    length rs \<le> 1 \<and> (ret = 0 \<or> reaches handle nt \<longrightarrow> length rs = 1) \<and>
    (\<forall>r \<in> set rs. \<exists>post. request_of handle ''sendMessage'' post r \<and> form_decode post = Some (send_fields ctx (\<lambda>t. t))) \<and>
    (length (cstr (sg_text ctx)) \<le> 8000 \<longrightarrow> sent_text ctx = cstr (sg_text ctx))"
proof -
  obtain m where m: "parse_mode_field (sg_parse_mode ctx) = Some m" using assms(2) by auto
  obtain buf where buf: "tga_send_msg handle ctx nt = post_method buf ''sendMessage'' handle nt"
      "cstr buf = form_text (send_fields ctx (urlenc True))"
    using send_msg_form [OF m, of handle nt] by (auto simp: posts_def)
  have "form_decode (cstr buf) = Some (send_fields ctx (\<lambda>t. t))"
    unfolding buf(2) by (rule form_decode_text)
      (auto simp: send_fields_def form_word_plain split: parse_mode_t.splits)
  moreover have "length (send_head ctx) \<le> 100" using send_head_steps [OF m] by auto
  then have "sent_text ctx = cstr (sg_text ctx)" if "length (cstr (sg_text ctx)) \<le> 8000"
    using that by (simp add: sent_text_def)
  moreover obtain ret handle' nt' rs where "post_method buf ''sendMessage'' handle nt = Inr (ret, handle', nt')"
      "called nt nt' rs" "\<forall>r \<in> set rs. request_of handle ''sendMessage'' (cstr buf) r" "length rs \<le> 1"
      "reaches handle nt \<longrightarrow> length rs = 1" "ret = 0 \<longrightarrow> length rs = 1"
    using post_method_ok [OF assms(1), of buf "''sendMessage''" nt] by auto
  ultimately show ?thesis unfolding buf(1) by blast
qed

definition demo_reply :: "bytes list \<Rightarrow> curl_reply" where
  "demo_reply cs = \<lparr> cr_malloc = True, cr_init = True, cr_fill = CHR ''x'', cr_realloc = (\<lambda>_. True), cr_chunks = cs, cr_ok = True \<rparr>"

definition demo_net :: "bytes list \<Rightarrow> net" where
  "demo_net cs = \<lparr> nt_calls = 0, nt_reply = (\<lambda>_. demo_reply cs), nt_sent = [] \<rparr>"

definition demo_msg :: tga_send_msg_t where
  "demo_msg = \<lparr> sg_chat_id = - 100, sg_reply_to_msg_id = 7, sg_text = ''a&b=c'', sg_parse_mode = PARSE_MODE_HTML \<rparr>"

theorem send_msg_decodes_witness:
  "rs_body (hd_res (tga_screate (Some ''t''))) = None \<and>
   (\<exists>ret handle' nt' rs. tga_send_msg (tga_screate (Some ''t'')) demo_msg (demo_net []) = Inr (ret, handle', nt') \<and> called (demo_net []) nt' rs \<and>
     (\<forall>r \<in> set rs. \<exists>post. request_of (tga_screate (Some ''t'')) ''sendMessage'' post r \<and>
        form_decode post = Some (send_fields demo_msg (\<lambda>t. t))) \<and> sent_text demo_msg = ''a&b=c'')"
proof -
  have "rs_body (hd_res (tga_screate (Some ''t''))) = None" by (simp add: tga_screate_def res_zero_def)
  moreover have "sg_parse_mode demo_msg \<in> {PARSE_MODE_OFF, PARSE_MODE_HTML, PARSE_MODE_MARKDOWN}"
    "length (cstr (sg_text demo_msg)) \<le> 8000" "cstr (sg_text demo_msg) = ''a&b=c''"
    by (simp_all add: demo_msg_def cstr_def NUL_def)
  ultimately show ?thesis using send_msg_decodes [of "tga_screate (Some ''t'')" demo_msg "demo_net []"] by fastforce
qed

text \<open>
  \<open>tga_restrict_chat_member\<close> announces JSON, and json-c itself reads its body, which is
  printed with a format string, as the document with the user, the chat, the date and the
  eight permissions; the body always fits into the 512 bytes.
\<close>

theorem restrict_body_parses:
  assumes "rs_body (hd_res handle) = None"
  shows "\<exists>ret handle' nt' rs. tga_restrict_chat_member handle ctx nt = Inr (ret, handle', nt') \<and> called nt nt' rs \<and>
    length rs \<le> 1 \<and> (ret = 0 \<or> reaches handle nt \<longrightarrow> length rs = 1) \<and>
    (\<forall>r \<in> set rs. \<exists>post. request_of (handle\<lparr> hd_content_type := APP_JSON \<rparr>) ''restrictChatMember'' post r \<and>
       json_tokener_parse strtod post = Inr (restrict_doc ctx))"
proof -
  let ?handle = "handle\<lparr> hd_content_type := APP_JSON \<rparr>"
  obtain buf where buf: "tga_restrict_chat_member handle ctx nt = post_method buf ''restrictChatMember'' ?handle nt"
      "cstr buf = restrict_json ctx"
    using restrict_form [of handle ctx nt] by (auto simp: posts_def)
  have "json_tokener_parse strtod (cstr buf) = Inr (restrict_doc ctx)"
    using print_parse_ex [OF restrict_doc_ok, of strtod ctx plain_flags] print_string [OF restrict_doc_ok(1), of ctx plain_flags]
    by (auto simp: json_tokener_parse_def buf(2) restrict_json_print)
  moreover have "reaches ?handle nt = reaches handle nt" by (simp add: reaches_def)
  moreover obtain ret handle' nt' rs where "post_method buf ''restrictChatMember'' ?handle nt = Inr (ret, handle', nt')"
      "called nt nt' rs" "\<forall>r \<in> set rs. request_of ?handle ''restrictChatMember'' (cstr buf) r" "length rs \<le> 1"
      "reaches ?handle nt \<longrightarrow> length rs = 1" "ret = 0 \<longrightarrow> length rs = 1"
    using post_method_ok [of ?handle buf "''restrictChatMember''" nt] assms by auto
  ultimately show ?thesis unfolding buf(1) by blast
qed

definition demo_restrict :: tga_restrict_cm_t where
  "demo_restrict = \<lparr> rc_chat_id = - 100, rc_user_id = 0xFFFFFFFFFFFFFFFF, rc_until_date = 0,
     rc_permissions = \<lparr> pm_messages = True, pm_media = False, pm_polls = False, pm_other = False, pm_previews = False,
       pm_info = False, pm_invite = False, pm_pin = True \<rparr> \<rparr>"

theorem restrict_body_parses_witness:
  "rs_body (hd_res (tga_screate (Some ''t''))) = None \<and>
   (\<exists>ret handle' nt' rs. tga_restrict_chat_member (tga_screate (Some ''t'')) demo_restrict (demo_net []) = Inr (ret, handle', nt') \<and> called (demo_net []) nt' rs \<and>
     (\<forall>r \<in> set rs. \<exists>post. request_of (tga_screate (Some ''t'')\<lparr> hd_content_type := APP_JSON \<rparr>) ''restrictChatMember'' post r \<and>
        json_tokener_parse (\<lambda>s. (NotANumber, 0)) post = Inr (restrict_doc demo_restrict)))"
proof -
  have "rs_body (hd_res (tga_screate (Some ''t''))) = None" by (simp add: tga_screate_def res_zero_def)
  then show ?thesis
    using restrict_body_parses [of "tga_screate (Some ''t'')" demo_restrict "demo_net []" "\<lambda>s. (NotANumber, 0)"]
    by blast
qed

text \<open>
  C19. The response is collected whole: a call that reports success has made one request, the
  transfer has succeeded, and the handle holds the concatenation of all pieces that libcurl
  delivered, with a null byte behind it unless it is empty, whatever the sizes of the pieces
  are and however often the buffer had to grow.  No call writes outside the buffer; the only
  errors are a missing token, no memory, and a failed transfer.
\<close>

theorem response_collected:
  assumes "rs_body (hd_res handle) = None" and "nt_reply nt (nt_calls nt) = reply"
  shows "\<exists>ret handle' nt' rs. post_method buf meth handle nt = Inr (ret, handle', nt') \<and> called nt nt' rs \<and>
    ret \<in> {0, - EINVAL, - ENOMEM, - EBADMSG} \<and>
    (ret = 0 \<longrightarrow> length rs = 1 \<and> cr_ok reply \<and> holds (hd_res handle') (concat (cr_chunks reply)) (concat (cr_chunks reply) \<noteq> []))"
proof -
  obtain ret handle' nt' rs where run: "post_method buf meth handle nt = Inr (ret, handle', nt')" "called nt nt' rs"
      "ret = 0 \<longrightarrow> length rs = 1 \<and> cr_ok reply \<and> holds (hd_res handle') (concat (cr_chunks reply)) (concat (cr_chunks reply) \<noteq> [])"
    using post_method_ok [OF assms(1), of buf meth nt] assms(2) by (auto simp: next_reply_def)
  moreover have "ret \<in> {0, - EINVAL, - ENOMEM, - EBADMSG}" using run(1)
    by (auto simp: post_method_def tg_api_post_def tga_set_method_def tga_set_body_def Let_def run_simps tg_api_allocate_res_def
      split: option.splits if_splits)
  ultimately show ?thesis by blast
qed

theorem response_collected_witness:
  "rs_body (hd_res (tga_screate (Some ''t''))) = None \<and>
   (\<exists>ret handle' nt'. post_method ''chat_id=1'' ''getChat'' (tga_screate (Some ''t'')) (demo_net [''{'', ''}'']) = Inr (ret, handle', nt') \<and>
     ret = 0 \<and> holds (hd_res handle') ''{}'' True)"
proof -
  have 1: "rs_body (hd_res (tga_screate (Some ''t''))) = None" by (simp add: tga_screate_def res_zero_def)
  have 2: "nt_reply (demo_net [''{'', ''}'']) (nt_calls (demo_net [''{'', ''}''])) = demo_reply [''{'', ''}'']"
    by (simp add: demo_net_def)
  have "case post_method ''chat_id=1'' ''getChat'' (tga_screate (Some ''t'')) (demo_net [''{'', ''}'']) of
      Inl e \<Rightarrow> False | Inr (ret, handle', nt') \<Rightarrow> ret = 0" by code_simp
  then show ?thesis using response_collected [OF 1 2, of "''chat_id=1''" "''getChat''"] 1
    by (auto simp: demo_reply_def split: sum.splits)
qed

end
