(* ===== verification/Mod_Debug.thy ===== *)
theory Mod_Debug
  imports Event_Handler Tg_Api_Forms
begin

text \<open>
  What the modules share, and the first two of them: \<open>modules/000_debug/debug.c\<close>, which
  answers a \<open>/debug\<close> command with the update itself, and \<open>modules/001_standard/standard.c\<close>,
  which declines every event.  The world of a module is the network.
\<close>

section \<open>The surroundings of a module\<close>

text \<open>
  What a module reaches through the thread and the C library: the token of the
  configuration, \<open>strerror\<close>, \<open>strtod\<close>, whether \<open>calloc\<close> has memory, and the heap of the
  queue nodes.
\<close>

record bot_env =
  be_token :: "bytes option"
  be_strerror :: "int \<Rightarrow> bytes"
  be_strtod :: "bytes \<Rightarrow> dbl \<times> nat"
  be_calloc :: bool
  be_heap :: heap

text \<open>Following a pointer that is meant to point to an event.\<close>

fun deref_ev :: "evptr \<Rightarrow> tgev res" where
  "deref_ev EvNull = Inl NullDeref"
| "deref_ev (EvAt a evt) = Inr evt"
| "deref_ev (EvInt n) = Inl WildPointer"
| "deref_ev (EvString s) = Inl WildPointer"

text \<open>\<open>"(errno=%d) %s"\<close>\<close>

definition prerf :: "bot_env \<Rightarrow> int \<Rightarrow> bytes" where
  "prerf env e = ''(errno='' @ show_int e @ '') '' @ cstr (be_strerror env e)"

text \<open>
  \<open>json_tokener_parse\<close> on a pointer that must hold a C string, and \<open>htmlspecialchars\<close> into
  the middle of an array.
\<close>

definition parse_body :: "bot_env \<Rightarrow> bytes option \<Rightarrow> json res" where
  "parse_body env body =
     (case body of None \<Rightarrow> Inl NullDeref | Some b \<Rightarrow> ebind (string_at b) (json_tokener_parse (be_strtod env)))"

definition htmlspecialchars_at :: "bytes \<Rightarrow> nat \<Rightarrow> nat \<Rightarrow> bytes \<Rightarrow> nat \<Rightarrow> (nat \<times> bytes) res" where
  "htmlspecialchars_at buf pos outlen inp inlen =
     ebind (guard (pos \<le> length buf) OutOfBounds) (\<lambda>_.
     ebind (htmlspecialchars (drop pos buf) outlen inp inlen) (\<lambda>(n, out). Inr (n, take pos buf @ out)))"

text \<open>Subtraction in \<open>size_t\<close>.\<close>

definition size_sub :: "nat \<Rightarrow> nat \<Rightarrow> nat" where
  "size_sub a b = (if b \<le> a then a - b else a + 2 ^ 64 - b)"

section \<open>The debug module\<close>

definition send_debug_message :: "bot_env \<Rightarrow> bytes \<Rightarrow> tgev \<Rightarrow> net \<Rightarrow> (int \<times> net) res" where
  "send_debug_message env reply_text evt nt =
     ebind (tga_send_msg (tga_screate (be_token env))
       \<lparr> sg_chat_id = tge_get_chat_id evt, sg_reply_to_msg_id = tge_get_msg_id evt, sg_text = reply_text,
         sg_parse_mode = PARSE_MODE_HTML \<rparr> nt) (\<lambda>(ret, thandle, nt). Inr (0, nt))"

definition debug_flags :: jflags where
  "debug_flags = \<lparr> JSON_C_TO_STRING_SPACED = False, JSON_C_TO_STRING_PRETTY = True,
     JSON_C_TO_STRING_PRETTY_TAB = False, JSON_C_TO_STRING_NOSLASHESCAPE = True \<rparr>"

abbreviation (input) DEBUG_HLEN :: nat where "DEBUG_HLEN \<equiv> 6141"

definition debug_entry :: "bot_env \<Rightarrow> gwbot_thread \<Rightarrow> tgev \<Rightarrow> net \<Rightarrow> (int \<times> net) res" where
  "debug_entry env thread evt nt =
     (case tge_get_text evt of
        None \<Rightarrow> Inr (- ECANCELED, nt)
      | Some t \<Rightarrow>
          if \<not> strneq t ''/debug'' 6 then Inr (- ECANCELED, nt)
          else
            ebind (event_json_str (be_heap env) thread) (\<lambda>json_str.
            ebind (json_tokener_parse (be_strtod env) json_str) (\<lambda>json_obj.
            let json_pretty = json_object_to_json_string_ext json_obj debug_flags in
            ebind (buf_put (stack_buf nt 0x9000) 0 ''<pre>'') (\<lambda>reply_text.
            ebind (htmlspecialchars_at reply_text 5 DEBUG_HLEN json_pretty (strnlen json_pretty DEBUG_HLEN)) (\<lambda>(len, reply_text).
            ebind (buf_put reply_text (5 + len - 1) (''</pre>'' @ [NUL])) (\<lambda>reply_text.
            ebind (string_at reply_text) (\<lambda>reply_text.
            send_debug_message env reply_text evt nt)))))))"

lemma hlen_value: "(0x9000 - length (''<pre>'' @ [NUL]) - length (''</pre>'' @ [NUL])) div 6 = DEBUG_HLEN"
  by simp

section \<open>The standard module\<close>

definition standard_entry :: "gwbot_thread \<Rightarrow> tgev \<Rightarrow> net \<Rightarrow> (int \<times> net) res" where
  "standard_entry thread evt nt = Inr (- ECANCELED, nt)"

text \<open>\<open>GWMOD_STARTUP_DEFINE\<close> and \<open>GWMOD_SHUTDOWN_DEFINE\<close> of all four modules.\<close>

definition module_nop :: "net \<Rightarrow> (int \<times> net) res" where
  "module_nop nt = Inr (0, nt)"

section \<open>What is sent\<close>

text \<open>
  The requests of a run: those sent after the state \<open>nt\<close>.  \<open>sends env ms nt nt'\<close> says that
  all of them call one of the methods \<open>ms\<close>.
\<close>

definition sends :: "bot_env \<Rightarrow> bytes set \<Rightarrow> net \<Rightarrow> net \<Rightarrow> bool" where
  "sends env ms nt nt' \<longleftrightarrow>
     (\<exists>rs. nt_sent nt' = nt_sent nt @ rs \<and>
       (\<forall>r \<in> set rs. \<exists>meth \<in> ms. \<exists>post ct. request_of ((tga_screate (be_token env))\<lparr> hd_content_type := ct \<rparr>) meth post r))"

lemma sends_refl: "sends env ms nt nt"
  by (simp add: sends_def)

lemma sends_trans: "sends env ms nt nt' \<Longrightarrow> sends env ms nt' nt'' \<Longrightarrow> sends env ms nt nt''"
  by (fastforce simp: sends_def)

lemma sends_mono: "sends env ms nt nt' \<Longrightarrow> ms \<subseteq> ms' \<Longrightarrow> sends env ms' nt nt'"
  by (fastforce simp: sends_def)

lemma screate_empty [simp]: "rs_body (hd_res (tga_screate token)) = None"
  by (simp add: tga_screate_def res_zero_def)

lemma screate_type [simp]: "(tga_screate token)\<lparr> hd_content_type := APP_X_WWW_FORM_URLENCODED \<rparr> = tga_screate token"
  by (simp add: tga_screate_def)

lemma posts_sends:
  assumes "posts run ((tga_screate (be_token env))\<lparr> hd_content_type := ct \<rparr>) meth nt body" and "meth \<in> ms"
  shows "\<exists>ret thandle nt'. run = Inr (ret, thandle, nt') \<and> sends env ms nt nt' \<and> nt_reply nt' = nt_reply nt \<and>
    nt_calls nt' = Suc (nt_calls nt)"
proof -
  let ?h = "(tga_screate (be_token env))\<lparr> hd_content_type := ct \<rparr>"
  obtain buf where buf: "run = post_method buf meth ?h nt" using assms(1) by (auto simp: posts_def)
  obtain ret thandle nt' rs where p: "post_method buf meth ?h nt = Inr (ret, thandle, nt')" "called nt nt' rs"
      "\<forall>r \<in> set rs. request_of ?h meth (cstr buf) r"
    using post_method_ok [of ?h buf meth nt] by auto
  then have "sends env ms nt nt'" using assms(2) by (fastforce simp: sends_def called_def)
  then show ?thesis using buf p by (auto simp: called_def)
qed

lemmas form_sends = posts_sends [where ct = APP_X_WWW_FORM_URLENCODED, simplified]

lemma send_msg_sends:
  assumes "parse_mode_field (sg_parse_mode ctx) = Some m" and "''sendMessage'' \<in> ms"
  shows "\<exists>ret thandle nt'. tga_send_msg (tga_screate (be_token env)) ctx nt = Inr (ret, thandle, nt') \<and> sends env ms nt nt' \<and>
    nt_reply nt' = nt_reply nt"
  using form_sends [OF send_msg_form [OF assms(1)] assms(2), of env nt] by blast

lemma posts_run:
  assumes "posts run handle meth nt body" and "rs_body (hd_res handle) = None"
  shows "\<exists>ret handle' nt' rs. run = Inr (ret, handle', nt') \<and> called nt nt' rs \<and> length rs \<le> 1 \<and>
    (reaches handle nt \<longrightarrow> length rs = 1) \<and> (\<forall>r \<in> set rs. request_of handle meth body r)"
proof -
  obtain buf where buf: "run = post_method buf meth handle nt" "cstr buf = body" using assms(1) by (auto simp: posts_def)
  then show ?thesis using post_method_ok [OF assms(2), of buf meth nt] by auto
qed

lemma send_fields_decode:
  assumes "parse_mode_field (sg_parse_mode ctx) = Some m"
  shows "form_decode (form_text (send_fields ctx (urlenc True))) = Some (send_fields ctx (\<lambda>t. t))"
  by (rule form_decode_text) (use assms in \<open>auto simp: send_fields_def form_word_plain split: parse_mode_t.splits\<close>)

lemma sent_whole:
  assumes "parse_mode_field (sg_parse_mode ctx) = Some m" and "length (cstr (sg_text ctx)) \<le> 8000"
  shows "sent_text ctx = cstr (sg_text ctx)"
proof -
  have "length (send_head ctx) \<le> 100" using send_head_steps [OF assms(1)] by auto
  then show ?thesis using assms(2) by (simp add: sent_text_def)
qed

section \<open>The reply of the debug module\<close>

definition debug_reply :: "bytes \<Rightarrow> bytes" where
  "debug_reply p = ''<pre>'' @ htmlenc p @ ''</pre>''"

lemma length_htmlenc_ge: "length p \<le> length (htmlenc p)"
proof (induction p)
  case (Cons c p)
  then show ?case using html_char_length(1) [of c] by simp
qed simp

text \<open>An opening tag, an escaped text and a closing tag, in a buffer with room for them.\<close>

lemma html_block:
  assumes e: "e = htmlenc p" "length e < H" "H < 2 ^ 64" and p: "NUL \<notin> set p"
    and n: "length a = n" "n + H + length z + 2 \<le> length buf"
  shows "\<exists>rt. ebind (buf_put buf 0 a) (\<lambda>b. ebind (htmlspecialchars_at b n H p (strnlen p H)) (\<lambda>(len, b).
      buf_put b (n + len - 1) (z @ [NUL]))) = Inr ((a @ e @ z) @ NUL # rt)"
proof -
  define out where "out = drop n buf"
  define rest where "rest = [out ! length e, NUL] @ drop (length e + 2) out"
  have "strnlen p H = length p" using length_htmlenc_ge [of p] e p by (simp add: strnlen_eq)
  moreover have "htmlspecialchars out H p (length p) = Inr (length e + 1, e @ rest)"
    using htmlspecialchars_eq [of "length p" p e H out] e n by (simp add: rest_def out_def)
  moreover have "buf_put buf 0 a = Inr (a @ out)" using n by (simp add: out_def)
  moreover have "length rest = length out - length e" using n e by (simp add: rest_def out_def)
  then have "buf_put ((a @ e) @ rest) (length (a @ e)) (z @ [NUL]) = Inr (((a @ e) @ z @ [NUL]) @ drop (length (z @ [NUL])) rest)"
    using n e by (intro put_after) (simp add: out_def)
  ultimately show ?thesis using n by (simp add: htmlspecialchars_at_def)
qed

lemma debug_buffer:
  assumes "length (htmlenc p) < DEBUG_HLEN" and "NUL \<notin> set p"
  shows "\<exists>rt. ebind (buf_put (stack_buf nt 0x9000) 0 ''<pre>'') (\<lambda>reply_text.
      ebind (htmlspecialchars_at reply_text 5 DEBUG_HLEN p (strnlen p DEBUG_HLEN)) (\<lambda>(len, reply_text).
      buf_put reply_text (5 + len - 1) (''</pre>'' @ [NUL]))) = Inr (debug_reply p @ NUL # rt)"
  unfolding debug_reply_def by (rule html_block [OF refl assms(1) _ assms(2)]) simp_all

lemma NUL_html [simp]: "NUL \<notin> set p \<Longrightarrow> NUL \<notin> set (htmlenc p)"
  by (induction p) (auto simp: html_char_def html_map_def NUL_def split: if_splits)

section \<open>Properties\<close>

text \<open>
  C17. The debug module shows the update it was given: a message that starts with \<open>/debug\<close> is
  answered with one HTML message, in reply to it, that is a preformatted block, and an HTML
  reader finds in the block a text that json-c parses as the document of the packet.  This
  holds for every document without doubles whose escaped text is shorter than 6141 bytes.
\<close>

theorem debug_shows_update:
  assumes cmd: "tge_get_text evt = Some t" "strneq t ''/debug'' 6"
    and packet: "event_json_str (be_heap env) thread = Inr s" "json_tokener_parse (be_strtod env) s = Inr doc"
    and doc: "json_ptr_ok doc" "json_ptr_depth doc < 32"
    and p: "p = json_object_to_json_string_ext doc debug_flags" "length (htmlenc p) < 6141"
    and net: "reaches (tga_screate (be_token env)) nt"
  shows "\<exists>nt' r post. debug_entry env thread evt nt = Inr (0, nt') \<and> called nt nt' [r] \<and>
    request_of (tga_screate (be_token env)) ''sendMessage'' post r \<and>
    form_decode post = Some
      ([(''chat_id'', fmt_d64 (tge_get_chat_id evt))] @
       (if tge_get_msg_id evt \<noteq> 0 then [(''reply_to_message_id'', fmt_u64 (tge_get_msg_id evt))] else []) @
       [(''parse_mode'', ''html''), (''text'', ''<pre>'' @ htmlenc p @ ''</pre>'')]) \<and>
    html_decode (htmlenc p) = Some p \<and> json_tokener_parse strtod p = Inr doc"
proof -
  have NULs: "NUL \<notin> set p" using print_string [OF doc(1), of debug_flags] p(1) by simp
  obtain rt where rt: "ebind (buf_put (stack_buf nt 0x9000) 0 ''<pre>'') (\<lambda>reply_text.
      ebind (htmlspecialchars_at reply_text 5 DEBUG_HLEN p (strnlen p DEBUG_HLEN)) (\<lambda>(len, reply_text).
      buf_put reply_text (5 + len - 1) (''</pre>'' @ [NUL]))) = Inr (debug_reply p @ NUL # rt)"
    using debug_buffer [OF p(2) NULs, of nt] by blast
  define buf where "buf = debug_reply p @ NUL # rt"
  let ?ctx = "\<lparr> sg_chat_id = tge_get_chat_id evt, sg_reply_to_msg_id = tge_get_msg_id evt, sg_text = buf, sg_parse_mode = PARSE_MODE_HTML \<rparr>"
  have cs: "cstr buf = debug_reply p" unfolding buf_def
    using NULs by (intro cstr_append_NUL) (simp add: debug_reply_def NUL_literal)
  have run: "debug_entry env thread evt nt = send_debug_message env buf evt nt"
  proof -
    have "debug_entry env thread evt nt =
        ebind (ebind (buf_put (stack_buf nt 0x9000) 0 ''<pre>'') (\<lambda>reply_text.
          ebind (htmlspecialchars_at reply_text 5 DEBUG_HLEN p (strnlen p DEBUG_HLEN)) (\<lambda>(len, reply_text).
          buf_put reply_text (5 + len - 1) (''</pre>'' @ [NUL])))) (\<lambda>reply_text.
        ebind (string_at reply_text) (\<lambda>reply_text. send_debug_message env reply_text evt nt))"
      using cmd packet p(1) by (simp add: debug_entry_def ebind_assoc split_def Let_def)
    then show ?thesis unfolding rt by (simp add: buf_def string_at_def)
  qed
  have pm: "parse_mode_field (sg_parse_mode ?ctx) = Some ''&parse_mode=html''" by simp
  obtain ret handle' nt' rs where send: "tga_send_msg (tga_screate (be_token env)) ?ctx nt = Inr (ret, handle', nt')"
      "called nt nt' rs" "length rs = 1"
      "\<forall>r \<in> set rs. request_of (tga_screate (be_token env)) ''sendMessage'' (form_text (send_fields ?ctx (urlenc True))) r"
    using posts_run [OF send_msg_form [OF pm] screate_empty] net by blast
  then obtain r where r: "rs = [r]" by (auto simp: length_Suc_conv)
  have "length (debug_reply p) \<le> 8000" using p(2) by (simp add: debug_reply_def)
  then have "sent_text ?ctx = debug_reply p" using sent_whole [OF pm] cs by simp
  then have fields: "send_fields ?ctx (\<lambda>t. t) = [(''chat_id'', fmt_d64 (tge_get_chat_id evt))] @
       (if tge_get_msg_id evt \<noteq> 0 then [(''reply_to_message_id'', fmt_u64 (tge_get_msg_id evt))] else []) @
       [(''parse_mode'', ''html''), (''text'', ''<pre>'' @ htmlenc p @ ''</pre>'')]"
    unfolding send_fields_def by (simp add: debug_reply_def)
  have "json_tokener_parse strtod p = Inr doc"
    using print_parse_ex [OF doc, of strtod debug_flags] NULs p(1) by (auto simp: json_tokener_parse_def)
  moreover have "debug_entry env thread evt nt = Inr (0, nt')" using send(1) by (simp add: run send_debug_message_def)
  ultimately show ?thesis using send(2,4) r html_decode_htmlenc [of p] send_fields_decode [OF pm]
    unfolding fields by (intro exI [of _ nt'] exI [of _ r] exI [of _ "form_text (send_fields ?ctx (urlenc True))"]) simp
qed

definition demo_bot :: bot_env where
  "demo_bot = \<lparr> be_token = Some ''t'', be_strerror = (\<lambda>e. ''e''), be_strtod = (\<lambda>s. (NotANumber, 0)), be_calloc = True, be_heap = fmempty \<rparr>"

definition text_event :: "bytes \<Rightarrow> reply \<Rightarrow> tgev" where
  "text_event t r = Tgev None 1 False (MsgText (zero_text\<lparr> tx_text := Some t, tc_msg_id := 5 \<rparr>) r)"

definition debug_doc :: json where
  "debug_doc = Some (JObj [(''a<b'', Some (JInt64 7))])"

definition debug_thread :: gwbot_thread where
  "debug_thread = thread_zero\<lparr> th_raw := [NUL, NUL] @ ''{\"a<b\":7}'' @ [NUL] \<rparr>"

theorem debug_shows_update_witness:
  "\<exists>nt' r post p. debug_entry demo_bot debug_thread (text_event ''/debug'' NullReply) (demo_net []) = Inr (0, nt') \<and>
     nt_sent nt' = [r] \<and> request_of (tga_screate (Some ''t'')) ''sendMessage'' post r \<and>
     map_option last (form_decode post) = Some (''text'', ''<pre>'' @ htmlenc p @ ''</pre>'') \<and>
     html_decode (htmlenc p) = Some p \<and> json_tokener_parse (\<lambda>s. (NotANumber, 0)) p = Inr debug_doc"
proof -
  have 1: "tge_get_text (text_event ''/debug'' NullReply) = Some ''/debug''" by (simp add: text_event_def tge_get_text_def)
  have 2: "strneq ''/debug'' ''/debug'' 6" by (simp add: strneq_def)
  have 3: "event_json_str (be_heap demo_bot) debug_thread = Inr (''{\"a<b\":7}'' @ [NUL])"
    by (simp add: event_json_str_def debug_thread_def thread_zero_def string_at_def)
  have 4: "json_tokener_parse (be_strtod demo_bot) (''{\"a<b\":7}'' @ [NUL]) = Inr debug_doc" by code_simp
  have 5: "json_ptr_ok debug_doc" "json_ptr_depth debug_doc < 32" by (simp_all add: debug_doc_def NUL_literal)
  have 6: "length (htmlenc (json_object_to_json_string_ext debug_doc debug_flags)) < 6141" by code_simp
  have 7: "reaches (tga_screate (be_token demo_bot)) (demo_net [])"
    by (simp add: reaches_def next_reply_def demo_bot_def demo_net_def demo_reply_def tga_screate_def cstr_def NUL_def)
  from debug_shows_update [OF 1 2 3 4 5 refl 6 7, of "\<lambda>s. (NotANumber, 0)"]
  obtain nt' r post where "debug_entry demo_bot debug_thread (text_event ''/debug'' NullReply) (demo_net []) = Inr (0, nt')"
      "called (demo_net []) nt' [r]" "request_of (tga_screate (be_token demo_bot)) ''sendMessage'' post r"
      "map_option last (form_decode post) = Some (''text'', ''<pre>'' @ htmlenc (json_object_to_json_string_ext debug_doc debug_flags) @ ''</pre>'')"
      "json_tokener_parse (\<lambda>s. (NotANumber, 0)) (json_object_to_json_string_ext debug_doc debug_flags) = Inr debug_doc"
    by auto
  moreover from this have "nt_sent nt' = [r]" by (simp add: called_def demo_net_def)
  moreover have "be_token demo_bot = Some ''t''" by (simp add: demo_bot_def)
  ultimately show ?thesis using html_decode_htmlenc by metis
qed

end
