(* ===== verification/Mod_Translate.thy ===== *)
theory Mod_Translate
  imports Mod_Debug
begin

text \<open>
  \<open>modules/002_translate/translate.c\<close>: the command \<open>tr\<close> (or \<open>tl\<close>) with up to two language codes
  and a text, or a replied message, becomes a form that is posted to the translation service,
  and the answer is sent back.
\<close>

section \<open>Parsing the command\<close>

abbreviation (input) CODE_BUFFER_SIZE :: nat where "CODE_BUFFER_SIZE \<equiv> 0x20"
abbreviation (input) TEXT_BUFFER_SIZE :: nat where "TEXT_BUFFER_SIZE \<equiv> 0x8000"
abbreviation (input) CURL_BUFFER_SIZE :: nat where "CURL_BUFFER_SIZE \<equiv> 0x9000"

definition my_tolower :: "char \<Rightarrow> char" where
  "my_tolower c = (if 65 \<le> byte c \<and> byte c \<le> (90 :: nat) then char_of (byte c + 32 :: nat) else c)"

definition is_ws :: "char \<Rightarrow> bool" where
  "is_ws c \<longleftrightarrow> c = CHR '' '' \<or> c = CHR 0x0A \<or> c = CHR 0x09 \<or> c = CHR 0x0D"

fun ev_null :: "evptr \<Rightarrow> bool" where
  "ev_null EvNull = True"
| "ev_null _ = False"

text \<open>The first byte of a C string, and the string behind it.\<close>

definition head :: "bytes \<Rightarrow> char" where
  "head s = (case s of [] \<Rightarrow> NUL | c # cs \<Rightarrow> c)"

definition skip_ws :: "bytes \<Rightarrow> bytes" where
  "skip_ws s = dropWhile is_ws s"

text \<open>The loop that takes a language code; \<open>None\<close> when it is too long.\<close>

fun take_code :: "nat \<Rightarrow> bytes \<Rightarrow> bytes \<Rightarrow> (bytes \<times> bytes) option" where
  "take_code rcx acc [] = Some (acc, [])"
| "take_code rcx acc (c # cs) =
     (if is_ws c then Some (acc, c # cs)
      else if CODE_BUFFER_SIZE \<le> Suc rcx then None
      else take_code (Suc rcx) (acc @ [c]) cs)"

text \<open>\<open>urlencode(payload_ptr, s, len, true); payload_ptr += strlen(payload_ptr);\<close>\<close>

definition put_encoded :: "bytes \<Rightarrow> nat \<Rightarrow> bytes \<Rightarrow> nat \<Rightarrow> (nat \<times> bytes) res" where
  "put_encoded payload pos s len =
     ebind (urlencode_at payload pos s len) (\<lambda>payload. Inr (pos + length (cstr (drop pos payload)), payload))"

type_synonym command_result = "(int \<times> bytes \<times> nat \<times> tgev) res"

definition cancel :: "bytes \<Rightarrow> tgev \<Rightarrow> command_result" where
  "cancel payload evt = Inr (- ECANCELED, payload, 0, evt)"

text \<open>The code from \<open>out_replied_2_arg\<close>, \<open>out_replied_1_arg\<close> and \<open>out_replied_0_arg\<close> on.\<close>

definition out_replied_2_arg :: "bytes option \<Rightarrow> tgev \<Rightarrow> nat \<Rightarrow> bytes \<Rightarrow> command_result" where
  "out_replied_2_arg rt_text evt pos payload =
     (case rt_text of
        None \<Rightarrow> cancel payload evt
      | Some rt \<Rightarrow>
          let rt_text_len = strnlen rt (TEXT_BUFFER_SIZE div 4) in
          if TEXT_BUFFER_SIZE div 4 - 1 < rt_text_len then cancel payload evt
          else
            ebind (buf_put payload pos (''&text='' @ [NUL, NUL])) (\<lambda>payload.
            ebind (put_encoded payload (pos + 6) rt rt_text_len) (\<lambda>(pos, payload).
            ebind (deref_ev (tge_get_reply_to evt)) (\<lambda>reply_to.
            Inr (0, payload, pos, reply_to)))))"

definition out_replied_1_arg :: "bytes option \<Rightarrow> tgev \<Rightarrow> nat \<Rightarrow> bytes \<Rightarrow> command_result" where
  "out_replied_1_arg rt_text evt pos payload =
     ebind (buf_put payload pos ''&fr=auto'') (\<lambda>payload. out_replied_2_arg rt_text evt (pos + 8) payload)"

definition out_replied_0_arg :: "bytes option \<Rightarrow> tgev \<Rightarrow> nat \<Rightarrow> bytes \<Rightarrow> command_result" where
  "out_replied_0_arg rt_text evt pos payload =
     ebind (buf_put payload pos (''to=en'' @ [NUL, NUL, NUL])) (\<lambda>payload. out_replied_1_arg rt_text evt (pos + 5) payload)"

text \<open>The arguments: \<open>s\<close> starts with the target language code, or with the source code.\<close>

definition parse_target :: "bytes \<Rightarrow> bytes option \<Rightarrow> tgev \<Rightarrow> nat \<Rightarrow> bytes \<Rightarrow> command_result" where
  "parse_target s rt_text evt pos payload =
     (case take_code 0 [] s of
        None \<Rightarrow> cancel payload evt
      | Some (code, s) \<Rightarrow>
          ebind (buf_put payload pos ''&to='') (\<lambda>payload.
          ebind (put_encoded payload (pos + 4) code (length code)) (\<lambda>(pos, payload).
          let s = skip_ws s in
          if s = [] then out_replied_2_arg rt_text evt pos payload
          else
            ebind (buf_put payload pos (''&text='' @ [NUL, NUL])) (\<lambda>payload.
            ebind (put_encoded payload (pos + 6) s (length s)) (\<lambda>(pos, payload).
            Inr (0, payload, pos, evt))))))"

definition parse_args :: "bytes \<Rightarrow> bytes option \<Rightarrow> tgev \<Rightarrow> bytes \<Rightarrow> command_result" where
  "parse_args s rt_text evt payload =
     (case take_code 0 [] s of
        None \<Rightarrow> cancel payload evt
      | Some (code, s) \<Rightarrow>
          ebind (buf_put payload 0 (''fr='' @ [NUL])) (\<lambda>payload.
          ebind (put_encoded payload 3 code (length code)) (\<lambda>(pos, payload).
          let s = skip_ws s in
          if s = [] then
            ebind (buf_put payload 0 ''to'') (\<lambda>payload. out_replied_1_arg rt_text evt pos payload)
          else parse_target s rt_text evt pos payload)))"

text \<open>\<open>t\<close> starts with the name of the command, after the prefix.\<close>

definition parse_name :: "bytes \<Rightarrow> bytes \<Rightarrow> tgev \<Rightarrow> command_result" where
  "parse_name t payload evt =
     (if my_tolower (head t) \<noteq> CHR ''t'' then cancel payload evt
      else
        let t = tl t in
        if my_tolower (head t) \<noteq> CHR ''r'' \<and> my_tolower (head t) \<noteq> CHR ''l'' then cancel payload evt
        else
          let t = tl t; reply_to = tge_get_reply_to evt in
          ebind (if ev_null reply_to then Inr None else ebind (deref_ev reply_to) (\<lambda>r. Inr (tge_get_text r))) (\<lambda>rt_text.
          if t = [] then out_replied_0_arg rt_text evt 0 payload
          else if \<not> is_ws (head t) then cancel payload evt
          else
            let s = skip_ws (tl t) in
            if s = [] then out_replied_0_arg rt_text evt 0 payload
            else parse_args s rt_text evt payload))"

definition parse_command :: "bytes \<Rightarrow> bytes \<Rightarrow> tgev \<Rightarrow> command_result" where
  "parse_command t payload evt =
     (if TEXT_BUFFER_SIZE div 4 - 1 < strnlen t (TEXT_BUFFER_SIZE div 4) then cancel payload evt
      else parse_name (if head (cstr t) \<in> set ''!./~'' then tl (cstr t) else cstr t) payload evt)"

section \<open>Asking the service\<close>

text \<open>The callback fills an array of fixed size and refuses what does not fit.\<close>

definition translate_write_callback :: "bytes \<Rightarrow> nat \<times> bytes \<Rightarrow> (nat \<times> nat \<times> bytes) res" where
  "translate_write_callback data mem =
     (case mem of (len, res_text) \<Rightarrow>
        if CURL_BUFFER_SIZE - 1 \<le> length data + len then Inr (0, len, res_text)
        else ebind (buf_put res_text len data) (\<lambda>res_text. Inr (length data, len + length data, res_text)))"

fun translate_deliver :: "bytes list \<Rightarrow> nat \<times> bytes \<Rightarrow> (bool \<times> nat \<times> bytes) res" where
  "translate_deliver [] mem = Inr (True, mem)"
| "translate_deliver (c # cs) mem =
     ebind (translate_write_callback c mem) (\<lambda>(n, mem).
       if n \<noteq> length c then Inr (False, mem) else translate_deliver cs mem)"

text \<open>The body is given with its length, so it is posted up to there.\<close>

definition fetch_api :: "nat \<times> bytes \<Rightarrow> bytes \<Rightarrow> nat \<Rightarrow> net \<Rightarrow> (int \<times> bytes \<times> net) res" where
  "fetch_api mem payload payload_len nt =
     (let env = nt_reply nt (nt_calls nt); nt = nt\<lparr> nt_calls := Suc (nt_calls nt) \<rparr> in
      if \<not> cr_init env then Inr (- ENOMEM, snd mem, nt)
      else
        ebind (guard (payload_len \<le> length payload) OutOfBounds) (\<lambda>_.
        let r = \<lparr> ap_url = ''https://api.gnuweeb.org/google_translate.php'', ap_header = [],
                  ap_post = Some (take payload_len payload) \<rparr>;
            nt = nt\<lparr> nt_sent := nt_sent nt @ [r] \<rparr>
        in ebind (translate_deliver (cr_chunks env) mem) (\<lambda>(taken, len, res_text).
             if taken \<and> cr_ok env
             then ebind (buf_set res_text len NUL) (\<lambda>res_text. Inr (0, res_text, nt))
             else Inr (- EBADMSG, res_text, nt))))"

definition send_reply_text :: "bot_env \<Rightarrow> bytes \<Rightarrow> tgev \<Rightarrow> net \<Rightarrow> (int \<times> net) res" where
  "send_reply_text env reply_text evt nt =
     ebind (tga_send_msg (tga_screate (be_token env))
       \<lparr> sg_chat_id = tge_get_chat_id evt, sg_reply_to_msg_id = tge_get_msg_id evt, sg_text = reply_text,
         sg_parse_mode = PARSE_MODE_OFF \<rparr> nt) (\<lambda>(ret, thandle, nt). Inr (0, nt))"

definition translate_reply :: "json \<Rightarrow> bytes" where
  "translate_reply obj =
     (case obj of
        None \<Rightarrow> ''Error: Invalid JSON data from API''
      | Some _ \<Rightarrow>
          (case json_object_object_get_ex obj ''result'' of
             Some res \<Rightarrow>
               (case json_object_get_string res of None \<Rightarrow> ''Error: `result` is NULL'' | Some s \<Rightarrow> s)
           | None \<Rightarrow>
               (case json_object_object_get_ex obj ''error'' of
                  Some res \<Rightarrow>
                    (case json_object_get_string res of None \<Rightarrow> ''Error: unknown error!'' | Some s \<Rightarrow> s)
                | None \<Rightarrow> ''Error: unknown error!'')))"

definition handle_translate_module :: "bot_env \<Rightarrow> bytes \<Rightarrow> nat \<Rightarrow> tgev \<Rightarrow> net \<Rightarrow> (int \<times> net) res" where
  "handle_translate_module env payload payload_len evt nt =
     ebind (fetch_api (0, stack_buf nt CURL_BUFFER_SIZE) payload payload_len nt) (\<lambda>(ret, res_text, nt).
     if ret \<noteq> 0 then Inr (ret, nt)
     else ebind (parse_body env (Some res_text)) (\<lambda>obj. send_reply_text env (translate_reply obj) evt nt))"

definition do_translate :: "bot_env \<Rightarrow> tgev \<Rightarrow> net \<Rightarrow> (int \<times> net) res" where
  "do_translate env evt nt =
     (case tge_get_text evt of
        None \<Rightarrow> Inr (- ECANCELED, nt)
      | Some t \<Rightarrow>
          ebind (parse_command t (stack_buf nt (TEXT_BUFFER_SIZE + CODE_BUFFER_SIZE * 2)) evt) (\<lambda>(ret, payload, payload_len, evt).
          if ret \<noteq> 0 then Inr (ret, nt)
          else handle_translate_module env payload payload_len evt nt))"

definition translate_entry :: "bot_env \<Rightarrow> gwbot_thread \<Rightarrow> tgev \<Rightarrow> net \<Rightarrow> (int \<times> net) res" where
  "translate_entry env thread evt nt = do_translate env evt nt"

section \<open>The specification of the command\<close>

text \<open>The arguments of a command: language codes of less than 32 bytes, then the rest.\<close>

definition word_of :: "bytes \<Rightarrow> bytes" where "word_of s = takeWhile (\<lambda>c. \<not> is_ws c) s"

definition after_word :: "bytes \<Rightarrow> bytes" where "after_word s = skip_ws (dropWhile (\<lambda>c. \<not> is_ws c) s)"

text \<open>The replied text, when there is one and it is not too long.\<close>

definition short_reply :: "bytes option \<Rightarrow> bytes option" where
  "short_reply rt = (case rt of None \<Rightarrow> None | Some r \<Rightarrow> if length (cstr r) < 8192 then Some (cstr r) else None)"

text \<open>The fields of the form that arguments and a replied text give.\<close>

definition tr_form :: "bytes \<Rightarrow> bytes option \<Rightarrow> (bytes \<times> bytes) list option" where
  "tr_form s rt =
     (let a = word_of s; s = after_word s; b = word_of s; c = after_word s; replied = short_reply rt
      in if a = [] then map_option (\<lambda>r. [(''to'', ''en''), (''fr'', ''auto''), (''text'', r)]) replied
         else if 32 \<le> length a \<or> 32 \<le> length b then None
         else if b = [] then map_option (\<lambda>r. [(''to'', a), (''fr'', ''auto''), (''text'', r)]) replied
         else if c = [] then map_option (\<lambda>r. [(''fr'', a), (''to'', b), (''text'', r)]) replied
         else Some [(''fr'', a), (''to'', b), (''text'', c)])"

text \<open>What follows the name of the command, when the text is one.\<close>

fun tr_name :: "bytes \<Rightarrow> bytes option" where
  "tr_name (c # d # s) =
     (if my_tolower c = CHR ''t'' \<and> my_tolower d \<in> set ''rl'' \<and> (s = [] \<or> is_ws (head s)) then Some (skip_ws s) else None)"
| "tr_name _ = None"

definition tr_command :: "bytes \<Rightarrow> bytes option" where
  "tr_command t = tr_name (if head t \<in> set ''!./~'' then tl t else t)"

section \<open>The payload\<close>

text \<open>The array has the text \<open>w\<close> at its start and room for \<open>n\<close> bytes in all.\<close>

definition filled :: "bytes \<Rightarrow> bytes \<Rightarrow> nat \<Rightarrow> bool" where
  "filled buf w n \<longleftrightarrow> take (length w) buf = w \<and> length w \<le> n \<and> length buf = n"

lemma filled_start: "length buf = n \<Longrightarrow> filled buf [] n"
  by (simp add: filled_def)

lemma filled_put:
  assumes "filled buf w n" and "pos = length w" and "length w + length (u @ z) \<le> n"
  shows "\<exists>buf'. buf_put buf pos (u @ z) = Inr buf' \<and> filled buf' (w @ u) n"
proof -
  have "buf = w @ drop (length w) buf" using assms(1) by (metis append_take_drop_id filled_def)
  then show ?thesis using assms by (auto simp: filled_def)
qed

lemma filled_encoded:
  assumes "filled buf w n" and "pos = length w" and "len \<le> length s" and "length w + 3 * len < n"
  shows "\<exists>buf'. put_encoded buf pos s len = Inr (length (w @ urlenc True (take len s)), buf') \<and> filled buf' (w @ urlenc True (take len s)) n"
proof -
  let ?e = "urlenc True (take len s)"
  have buf: "buf = w @ drop (length w) buf" using assms(1) by (metis append_take_drop_id filled_def)
  have fits: "3 * len < length (drop (length w) buf)" "length ?e \<le> 3 * len"
    using assms length_urlenc [of True "take len s"] by (auto simp: filled_def)
  have run: "urlencode_at buf pos s len = Inr (w @ ?e @ NUL # drop (Suc (length ?e)) (drop (length w) buf))"
    using urlencode_after [OF assms(3) fits(1), of w] buf assms(2) by simp
  moreover have "filled (w @ ?e @ NUL # drop (Suc (length ?e)) (drop (length w) buf)) (w @ ?e) n"
    using assms fits by (simp add: filled_def)
  ultimately show ?thesis using assms(2) by (simp add: put_encoded_def)
qed

lemma take_code_eq:
  "take_code rcx acc s = (if rcx + length (word_of s) < 32 \<or> word_of s = [] then Some (acc @ word_of s, dropWhile (\<lambda>c. \<not> is_ws c) s) else None)"
proof (induction s arbitrary: rcx acc)
  case (Cons c s)
  then show ?case by (auto simp: word_of_def)
qed (simp add: word_of_def)

text \<open>
  The outcome of the parser: it declines, or it leaves a form in the payload and tells which
  event is to be answered.
\<close>

definition yields :: "command_result \<Rightarrow> bytes option \<Rightarrow> tgev \<Rightarrow> bool" where
  "yields res w target \<longleftrightarrow>
     (case w of
        None \<Rightarrow> (\<exists>payload len evt. res = Inr (- ECANCELED, payload, len, evt))
      | Some w \<Rightarrow> (\<exists>payload. res = Inr (0, payload, length w, target) \<and> take (length w) payload = w))"

lemma yields_cancel: "yields (cancel payload evt) None target"
  by (simp add: yields_def cancel_def)

definition tr_text :: "(bytes \<times> bytes) list \<Rightarrow> bytes" where
  "tr_text fs = form_text (map (\<lambda>(k, v). (k, urlenc True v)) fs)"

abbreviation (input) PAYLOAD :: nat where "PAYLOAD \<equiv> 0x8040"

lemma replied_2_yields:
  assumes w: "filled payload w PAYLOAD" "length w \<le> 250" "pos = length w" and r: "rt \<noteq> None \<Longrightarrow> deref_ev (tge_get_reply_to evt) = Inr target"
  shows "yields (out_replied_2_arg rt evt pos payload) (map_option (\<lambda>r. w @ ''&text='' @ urlenc True r) (short_reply rt)) target"
proof (cases "short_reply rt")
  case None
  then have "out_replied_2_arg rt evt pos payload = cancel payload evt"
    by (auto simp: out_replied_2_arg_def short_reply_def strnlen_eq split: option.splits if_splits)
  then show ?thesis using None by (simp add: yields_cancel)
next
  case (Some t)
  then obtain r' where r': "rt = Some r'" "t = cstr r'" "length (cstr r') < 8192"
    by (auto simp: short_reply_def split: option.splits if_splits)
  then have len: "strnlen r' 8192 = length t" "length t \<le> length r'" "take (length t) r' = t"
    using length_cstr_le [of r'] take_strlen [of "length t" r'] by (simp_all add: strnlen_eq)
  let ?text = "''&text=''"
  obtain b where b: "buf_put payload pos (?text @ [NUL, NUL]) = Inr b" "filled b (w @ ?text) PAYLOAD"
    using filled_put [OF w(1,3), of ?text "[NUL, NUL]"] w(2) by auto
  have six: "pos + 6 = length (w @ ?text)" using w(3) by simp
  obtain b' where b': "put_encoded b (pos + 6) r' (length t) = Inr (length ((w @ ?text) @ urlenc True (take (length t) r')), b')"
      "filled b' ((w @ ?text) @ urlenc True (take (length t) r')) PAYLOAD"
    using filled_encoded [OF b(2) six len(2)] w(2) r'(2,3) by auto
  have "out_replied_2_arg rt evt pos payload = Inr (0, b', length (w @ ?text @ urlenc True t), target)"
    using r' len r b(1) b'(1) by (simp add: out_replied_2_arg_def)
  then show ?thesis using Some b'(2) len(3) by (simp add: yields_def filled_def)
qed

lemma replied_1_yields:
  assumes w: "filled payload w PAYLOAD" "length w \<le> 200" "pos = length w" and r: "rt \<noteq> None \<Longrightarrow> deref_ev (tge_get_reply_to evt) = Inr target"
  shows "yields (out_replied_1_arg rt evt pos payload) (map_option (\<lambda>r. w @ ''&fr=auto&text='' @ urlenc True r) (short_reply rt)) target"
proof -
  let ?fr = "''&fr=auto''"
  obtain b where b: "buf_put payload pos (?fr @ []) = Inr b" "filled b (w @ ?fr) PAYLOAD"
    using filled_put [OF w(1,3), of ?fr "[]"] w(2) by auto
  have "yields (out_replied_2_arg rt evt (pos + 8) b) (map_option (\<lambda>r. (w @ ?fr) @ ''&text='' @ urlenc True r) (short_reply rt)) target"
    by (rule replied_2_yields [OF b(2) _ _ r]) (use w in simp_all)
  then show ?thesis using b(1) by (simp add: out_replied_1_arg_def)
qed

lemma replied_0_yields:
  assumes n: "length payload = PAYLOAD" and r: "rt \<noteq> None \<Longrightarrow> deref_ev (tge_get_reply_to evt) = Inr target"
  shows "yields (out_replied_0_arg rt evt 0 payload) (map_option (\<lambda>r. ''to=en&fr=auto&text='' @ urlenc True r) (short_reply rt)) target"
proof -
  let ?to = "''to=en''"
  obtain b where b: "buf_put payload 0 (?to @ [NUL, NUL, NUL]) = Inr b" "filled b ([] @ ?to) PAYLOAD"
    using filled_put [OF filled_start [OF n], of 0 ?to "[NUL, NUL, NUL]"] by auto
  have to: "filled b ?to PAYLOAD" using b(2) by simp
  have "yields (out_replied_1_arg rt evt 5 b) (map_option (\<lambda>r. ?to @ ''&fr=auto&text='' @ urlenc True r) (short_reply rt)) target"
    by (rule replied_1_yields [OF to _ _ r]) simp_all
  then show ?thesis using b(1) by (simp add: out_replied_0_arg_def)
qed

lemma take_code_word:
  "take_code 0 [] s = (if length (word_of s) < 32 then Some (word_of s, dropWhile (\<lambda>c. \<not> is_ws c) s) else None)"
  by (auto simp: take_code_eq)

lemma filled_word:
  assumes "filled buf w PAYLOAD" and "pos = length w" and "length w \<le> 200" and "length c < 32" and "length (u @ z) \<le> 8" and "k = length u"
  shows "\<exists>b b'. buf_put buf pos (u @ z) = Inr b \<and> put_encoded b (pos + k) c (length c) = Inr (length (w @ u @ urlenc True c), b') \<and>
    filled b' (w @ u @ urlenc True c) PAYLOAD"
proof -
  obtain b where b: "buf_put buf pos (u @ z) = Inr b" "filled b (w @ u) PAYLOAD"
    using filled_put [OF assms(1,2), of u z] assms by auto
  have k: "pos + k = length (w @ u)" using assms by simp
  then show ?thesis using b filled_encoded [OF b(2) k order_refl] assms by auto
qed

lemma word_Nil: "word_of (skip_ws s) = [] \<longleftrightarrow> skip_ws s = []"
  by (induction s) (auto simp: word_of_def skip_ws_def)

lemma after_word_Nil: "word_of (after_word s) = [] \<longleftrightarrow> after_word s = []"
  by (simp add: after_word_def word_Nil)

lemma word_of_Nil [simp]: "word_of [] = []" "after_word [] = []"
  by (simp_all add: word_of_def after_word_def skip_ws_def)

lemma length_after_word: "length (after_word s) \<le> length s"
  unfolding after_word_def skip_ws_def by (meson length_dropWhile_le order_trans)

lemma length_enc_word: "length c < 32 \<Longrightarrow> length (urlenc True c) \<le> 93"
  using length_urlenc [of True c] by simp

lemma urlenc_literals: "urlenc True ''en'' = ''en''" "urlenc True ''auto'' = ''auto''"
  by code_simp+

lemma tr_text_fields:
  "tr_text [(k, a), (l, b), (m, c)] = k @ CHR ''='' # urlenc True a @ CHR ''&'' # l @ CHR ''='' # urlenc True b @ CHR ''&'' # m @ CHR ''='' # urlenc True c"
  by (simp add: tr_text_def)

lemma put_to:
  assumes "filled b (''fr='' @ e) n" and "2 \<le> n"
  shows "\<exists>b'. buf_put b 0 ''to'' = Inr b' \<and> filled b' (''to='' @ e) n"
proof -
  obtain z where b: "b = ''fr='' @ e @ z" using assms(1) by (metis append.assoc append_take_drop_id filled_def)
  then have "buf_put b 0 ''to'' = Inr (''to='' @ e @ z)" by (simp add: buf_put_def)
  then show ?thesis using assms(1) b by (simp add: filled_def)
qed

lemma parse_target_yields:
  assumes w: "filled payload w PAYLOAD" "length w \<le> 100" "pos = length w" and s: "length s < 8192"
    and r: "rt \<noteq> None \<Longrightarrow> deref_ev (tge_get_reply_to evt) = Inr target"
  shows "yields (parse_target s rt evt pos payload)
    (if 32 \<le> length (word_of s) then None
     else if after_word s = [] then map_option (\<lambda>r. w @ ''&to='' @ urlenc True (word_of s) @ ''&text='' @ urlenc True r) (short_reply rt)
     else Some (w @ ''&to='' @ urlenc True (word_of s) @ ''&text='' @ urlenc True (after_word s)))
    (if after_word s = [] then target else evt)"
proof (cases "length (word_of s) < 32")
  case False
  then show ?thesis by (simp add: parse_target_def take_code_word yields_cancel)
next
  case a: True
  define A where "A = urlenc True (word_of s)"
  have A: "length A \<le> 93" unfolding A_def by (rule length_enc_word [OF a])
  define v where "v = w @ ''&to='' @ A"
  obtain b b' where 1: "buf_put payload pos ''&to='' = Inr b" "put_encoded b (pos + 4) (word_of s) (length (word_of s)) = Inr (length v, b')"
      "filled b' v PAYLOAD"
    using filled_word [OF w(1,3) _ a, of "''&to=''" "[]" 4] w(2) by (auto simp: A_def v_def)
  have v: "length v \<le> 200" using A w(2) by (simp add: v_def)
  have run: "parse_target s rt evt pos payload =
      (if after_word s = [] then out_replied_2_arg rt evt (length v) b'
       else ebind (buf_put b' (length v) (''&text='' @ [NUL, NUL])) (\<lambda>payload.
            ebind (put_encoded payload (length v + 6) (after_word s) (length (after_word s))) (\<lambda>(pos, payload).
            Inr (0, payload, pos, evt))))"
    using a 1(1,2) by (simp add: parse_target_def take_code_word after_word_def Let_def)
  show ?thesis
  proof (cases "after_word s = []")
    case True
    have "yields (out_replied_2_arg rt evt (length v) b') (map_option (\<lambda>r. v @ ''&text='' @ urlenc True r) (short_reply rt)) target"
      by (rule replied_2_yields [OF 1(3) _ refl r]) (use v in simp_all)
    then show ?thesis using True a by (simp add: run v_def A_def)
  next
    case False
    let ?text = "''&text=''"
    obtain c where c: "buf_put b' (length v) (?text @ [NUL, NUL]) = Inr c" "filled c (v @ ?text) PAYLOAD"
      using filled_put [OF 1(3) refl, of ?text "[NUL, NUL]"] v by auto
    have six: "length v + 6 = length (v @ ?text)" by simp
    obtain c' where "put_encoded c (length v + 6) (after_word s) (length (after_word s)) =
        Inr (length ((v @ ?text) @ urlenc True (take (length (after_word s)) (after_word s))), c')"
        "filled c' ((v @ ?text) @ urlenc True (take (length (after_word s)) (after_word s))) PAYLOAD"
      using filled_encoded [OF c(2) six order_refl, of "after_word s"] v s length_after_word [of s] by auto
    then show ?thesis using False a c(1) by (simp add: run yields_def filled_def v_def A_def)
  qed
qed

lemma parse_args_yields:
  assumes n: "length payload = PAYLOAD" and s: "word_of s \<noteq> []" "length s < 8192"
    and r: "rt \<noteq> None \<Longrightarrow> deref_ev (tge_get_reply_to evt) = Inr target"
  shows "yields (parse_args s rt evt payload) (map_option tr_text (tr_form s rt)) (if after_word (after_word s) = [] then target else evt)"
proof (cases "length (word_of s) < 32")
  case False
  then show ?thesis using s(1) by (simp add: parse_args_def take_code_word tr_form_def Let_def yields_cancel)
next
  case a: True
  define A where "A = urlenc True (word_of s)"
  define w where "w = ''fr='' @ A"
  obtain b b' where 1: "buf_put payload 0 (''fr='' @ [NUL]) = Inr b" "put_encoded b 3 (word_of s) (length (word_of s)) = Inr (length w, b')"
      "filled b' w PAYLOAD"
    using filled_word [OF filled_start [OF n] _ _ a, of 0 "''fr=''" "[NUL]" 3] by (auto simp: A_def w_def)
  have A: "length A \<le> 93" unfolding A_def by (rule length_enc_word [OF a])
  then have w: "length w \<le> 100" by (simp add: w_def)
  have run: "parse_args s rt evt payload =
      (if after_word s = [] then ebind (buf_put b' 0 ''to'') (\<lambda>payload. out_replied_1_arg rt evt (length w) payload)
       else parse_target (after_word s) rt evt (length w) b')"
    using a 1(1,2) by (simp add: parse_args_def take_code_word after_word_def)
  show ?thesis
  proof (cases "after_word s = []")
    case True
    obtain c where c: "buf_put b' 0 ''to'' = Inr c" "filled c (''to='' @ A) PAYLOAD"
      using put_to [of b' A PAYLOAD] 1(3) by (auto simp: w_def)
    have "yields (out_replied_1_arg rt evt (length w) c) (map_option (\<lambda>r. (''to='' @ A) @ ''&fr=auto&text='' @ urlenc True r) (short_reply rt)) target"
      by (rule replied_1_yields [OF c(2) _ _ r]) (use A in \<open>simp_all add: w_def\<close>)
    moreover have "after_word (after_word s) = []" using True by simp
    ultimately show ?thesis using True a s(1) c(1)
      by (cases "short_reply rt") (simp_all add: run tr_form_def tr_text_fields urlenc_literals A_def)
  next
    case False
    have "length (after_word s) < 8192" using length_after_word [of s] s(2) by simp
    then show ?thesis
      using parse_target_yields [where s = "after_word s" and rt = rt and evt = evt, OF 1(3) w refl _ r] False a s(1) after_word_Nil [of s]
      by (cases "short_reply rt") (simp_all add: run tr_form_def Let_def tr_text_fields A_def w_def split: if_splits)
  qed
qed

lemma command_head:
  assumes "my_tolower c = CHR ''t'' \<or> my_tolower c \<in> set ''rl''"
  shows "c \<noteq> NUL"
  using assms by (auto simp: my_tolower_def NUL_def split: if_splits)

lemma parse_command_yields:
  assumes n: "length payload = PAYLOAD" and r: "tge_get_reply_to evt = EvNull \<and> rt = None \<or>
      tge_get_reply_to evt = EvAt a target \<and> rt = tge_get_text target"
  shows "yields (parse_command t payload evt)
    (if 8192 \<le> length (cstr t) then None
     else case tr_command (cstr t) of None \<Rightarrow> None | Some s \<Rightarrow> map_option tr_text (tr_form s rt))
    (case tr_command (cstr t) of None \<Rightarrow> evt | Some s \<Rightarrow> if after_word (after_word s) = [] then target else evt)"
proof (cases "8192 \<le> length (cstr t)")
  case True
  then show ?thesis by (simp add: parse_command_def strnlen_eq yields_cancel)
next
  case False
  define u where "u = (if head (cstr t) \<in> set ''!./~'' then tl (cstr t) else cstr t)"
  have run_name: "parse_command t payload evt = parse_name u payload evt"
    using False by (simp add: parse_command_def strnlen_eq u_def)
  have rt: "(if ev_null (tge_get_reply_to evt) then Inr None else ebind (deref_ev (tge_get_reply_to evt)) (\<lambda>r. Inr (tge_get_text r))) = Inr rt"
    and d: "rt \<noteq> None \<Longrightarrow> deref_ev (tge_get_reply_to evt) = Inr target"
    using r by auto
  show ?thesis
  proof (cases "\<exists>c d s. u = c # d # s \<and> my_tolower c = CHR ''t'' \<and> my_tolower d \<in> set ''rl''")
    case no: False
    have "u = c # d # s" if "head u = c" "c \<noteq> NUL" "head (tl u) = d" "d \<noteq> NUL" "tl (tl u) = s" for c d s
      using that by (cases u; cases "tl u") (auto simp: head_def)
    then have "my_tolower (head u) \<noteq> CHR ''t'' \<or> my_tolower (head (tl u)) \<notin> set ''rl''"
      using no command_head [of "head u"] command_head [of "head (tl u)"] by blast
    then have "parse_command t payload evt = cancel payload evt"
      unfolding run_name by (auto simp: parse_name_def Let_def)
    moreover have "tr_command (cstr t) = None"
      unfolding tr_command_def u_def [symmetric] using no by (cases u rule: tr_name.cases) auto
    ultimately show ?thesis by (simp add: yields_cancel)
  next
    case True
    then obtain c d s where u: "u = c # d # s" "my_tolower c = CHR ''t''" "my_tolower d \<in> set ''rl''" by blast
    have "length u \<le> length (cstr t)" by (simp add: u_def)
    then have len: "length s < 8192" using False u(1) by simp
    have run: "parse_command t payload evt =
        (if s = [] then out_replied_0_arg rt evt 0 payload
         else if \<not> is_ws (head s) then cancel payload evt
         else if skip_ws (tl s) = [] then out_replied_0_arg rt evt 0 payload
         else parse_args (skip_ws (tl s)) rt evt payload)"
      unfolding run_name parse_name_def u(1) Let_def rt head_def using u(2,3) by auto
    have cmd: "tr_command (cstr t) = (if s = [] \<or> is_ws (head s) then Some (skip_ws s) else None)"
      unfolding tr_command_def u_def [symmetric] using u by simp
    have skip: "skip_ws s = skip_ws (tl s)" if "is_ws (head s)"
      using that by (cases s) (auto simp: skip_ws_def head_def)
    have none: "yields (out_replied_0_arg rt evt 0 payload) (map_option tr_text (tr_form [] rt)) target"
      using replied_0_yields [where rt = rt and evt = evt, OF n d] by (cases "short_reply rt") (simp_all add: tr_form_def Let_def tr_text_fields urlenc_literals)
    have "length (skip_ws (tl s)) < 8192" using len length_dropWhile_le [of is_ws "tl s"] by (simp add: skip_ws_def)
    then show ?thesis
      using run cmd skip none parse_args_yields [where s = "skip_ws (tl s)" and rt = rt and evt = evt, OF n _ _ d] word_Nil [of "tl s"] False
      by (auto simp: yields_cancel skip_ws_def [of "[]"])
  qed
qed

lemma tr_form_decodes:
  assumes "tr_form s rt = Some fs"
  shows "form_decode (tr_text fs) = Some fs"
proof -
  obtain k a l b m c where fs: "fs = [(k, a), (l, b), (m, c)]" "k \<in> {''fr'', ''to''}" "l \<in> {''fr'', ''to''}" "m = ''text''"
    using assms by (auto simp: tr_form_def Let_def split: if_splits)
  then have "form_word k k" "form_word l l" "form_word m m" by (auto intro!: form_word_plain)
  then show ?thesis using form_decode_text [of "map (\<lambda>(k, v). (k, urlenc True v)) fs" fs] fs(1) by (simp add: tr_text_def)
qed

section \<open>Properties\<close>



end
