(* ===== verification/Mod_Admin.thy ===== *)
theory Mod_Admin
  imports Mod_Translate
begin

text \<open>
  \<open>modules/003_admin/admin.c\<close>: commands of the administrators of a chat (ban, kick, mute, pin,
  delete) and the report to them.  \<open>reply_text\<close> is an array of \<open>RTB_SIZE\<close> bytes on the stack;
  what is sent from it is the C string at its start, which must be terminated.
\<close>

abbreviation (input) RTB_SIZE :: nat where "RTB_SIZE \<equiv> 0x400"

datatype mod_cmd_t = CMD_NOP | ADM_CMD_BAN | ADM_CMD_SBAN | ADM_CMD_UNBAN | ADM_CMD_KICK | ADM_CMD_SKICK
  | ADM_CMD_WARN | ADM_CMD_MUTE | ADM_CMD_TMUTE | ADM_CMD_UNMUTE | ADM_CMD_PIN | ADM_CMD_UNPIN | ADM_CMD_DELETE
  | USR_CMD_REPORT | USR_CMD_DELVOTE

definition ADMIN_CMD_BITS :: "mod_cmd_t list" where
  "ADMIN_CMD_BITS = [ADM_CMD_BAN, ADM_CMD_SBAN, ADM_CMD_UNBAN, ADM_CMD_KICK, ADM_CMD_SKICK, ADM_CMD_WARN, ADM_CMD_MUTE,
     ADM_CMD_TMUTE, ADM_CMD_UNMUTE, ADM_CMD_PIN, ADM_CMD_UNPIN, ADM_CMD_DELETE]"

section \<open>Replies\<close>

definition check_is_sudoer :: "u64 \<Rightarrow> bool" where
  "check_is_sudoer user_id \<longleftrightarrow> user_id \<in> set [133862899, 243692601, 701123895, 1213668471]"

text \<open>\<open>reply_text\<close> is a C string here; an error of the request is only logged.\<close>

definition send_reply :: "bot_env \<Rightarrow> tgev \<Rightarrow> bytes \<Rightarrow> u64 \<Rightarrow> net \<Rightarrow> (int \<times> net) res" where
  "send_reply env evt reply_text msg_id nt =
     ebind (tga_send_msg (tga_screate (be_token env))
       \<lparr> sg_chat_id = tge_get_chat_id evt, sg_reply_to_msg_id = msg_id, sg_text = reply_text,
         sg_parse_mode = PARSE_MODE_HTML \<rparr> nt) (\<lambda>(ret, thandle, nt). Inr (0, nt))"

text \<open>\<open>send_reply\<close> with an array that must hold a string.\<close>

definition reply_array :: "bot_env \<Rightarrow> tgev \<Rightarrow> bytes \<Rightarrow> u64 \<Rightarrow> net \<Rightarrow> (int \<times> net) res" where
  "reply_array env evt reply_text msg_id nt =
     ebind (string_at reply_text) (\<lambda>reply_text. send_reply env evt reply_text msg_id nt)"

definition send_eperm :: "bot_env \<Rightarrow> tgev \<Rightarrow> net \<Rightarrow> (int \<times> net) res" where
  "send_eperm env evt nt =
     send_reply env evt ''Error: Operation not permitted (errno=EPERM) (code=1)'' (tge_get_msg_id evt) nt"

text \<open>A name that is escaped into the buffer; a null pointer is read by \<open>strnlen\<close>.\<close>

definition put_name :: "bytes \<Rightarrow> nat \<Rightarrow> nat \<Rightarrow> bytes option \<Rightarrow> (nat \<times> bytes) res" where
  "put_name buf pos sps name =
     (case name of
        None \<Rightarrow> Inl NullDeref
      | Some s \<Rightarrow> htmlspecialchars_at buf pos sps s (strnlen s 0xFF))"

definition user_link :: "u64 \<Rightarrow> bytes" where
  "user_link uid = ''<a href=\"tg://user?id='' @ fmt_u64 uid @ ''\">''"

definition put_last_name :: "bytes \<Rightarrow> nat \<Rightarrow> nat \<Rightarrow> bytes option \<Rightarrow> (nat \<times> bytes) res" where
  "put_last_name buf ret sps last_name =
     (case last_name of
        None \<Rightarrow> Inr (ret, buf)
      | Some _ \<Rightarrow>
          ebind (buf_set buf ret (CHR '' '')) (\<lambda>buf.
          ebind (put_name buf (Suc ret) sps last_name) (\<lambda>(tmp, buf).
          Inr (Suc ret + tmp - 1, buf))))"

definition gen_name_link :: "bytes \<Rightarrow> nat \<Rightarrow> u64 \<Rightarrow> bytes option \<Rightarrow> bytes option \<Rightarrow> (nat \<times> bytes) res" where
  "gen_name_link buf sps uid first_name last_name =
     (if sps < 32 then Inr (0, buf)
      else
        let sps = sps - 5 in
        ebind (snprintf buf 0 sps (user_link uid)) (\<lambda>(tmp, buf).
        let ret = tmp; sps = size_sub sps tmp in
        ebind (put_name buf ret sps first_name) (\<lambda>(tmp, buf).
        let ret = ret + tmp - 1; sps = sps + tmp in
        ebind (put_last_name buf ret sps last_name) (\<lambda>(ret, buf).
        ebind (buf_put buf ret (''</a>'' @ [NUL])) (\<lambda>buf. Inr (ret + 4, buf))))))"

section \<open>Privileges\<close>

text \<open>
  The list of administrators that the API answers, as \<open>lookup_tg_privilege\<close> and
  \<open>exec_usr_cmd_report\<close> both ask for it: an error with the text that describes it, or the
  array and its length.
\<close>

definition fetch_admins :: "bot_env \<Rightarrow> u64 \<Rightarrow> net \<Rightarrow> ((int \<times> bytes + tga_chat_member list \<times> nat) \<times> net) res" where
  "fetch_admins env chat_id nt =
     ebind (tga_get_chat_admins (tga_screate (be_token env)) chat_id nt) (\<lambda>(ret, thandle, nt).
     if ret \<noteq> 0 then Inr (Inl (ret, ''Error: tga_get_chat_admins(): '' @ prerf env (- ret)), nt)
     else
       (case tge_get_res_body thandle of
          None \<Rightarrow> Inr (Inl (- EINVAL, ''Error: tge_get_res_body(): '' @ prerf env EINVAL), nt)
        | Some json_plain \<Rightarrow>
            ebind (parse_body env (Some json_plain)) (\<lambda>json_obj.
            if json_obj = None then Inr (Inl (- EINVAL, ''Error: json_tokener_parse(): '' @ prerf env EINVAL), nt)
            else
              ebind (parse_tga_admins (be_calloc env) json_obj) (\<lambda>(ret, admins, admin_c).
              if ret \<noteq> 0 then Inr (Inl (ret, ''Error: parse_tga_admins(): '' @ prerf env (- ret)), nt)
              else Inr (Inr (admins, admin_c), nt)))))"

definition lookup_tg_privilege :: "bot_env \<Rightarrow> tgev \<Rightarrow> u64 \<Rightarrow> u64 \<Rightarrow> net \<Rightarrow> (int \<times> net) res" where
  "lookup_tg_privilege env evt user_id chat_id nt =
     (let reply_text = stack_buf nt 128 in
      ebind (fetch_admins env chat_id nt) (\<lambda>(result, nt).
      case result of
        Inl (ret, t) \<Rightarrow>
          ebind (snprintf reply_text 0 128 t) (\<lambda>(_, reply_text).
          if ret \<noteq> - EPERM
          then ebind (reply_array env evt reply_text (tge_get_msg_id evt) nt) (\<lambda>(_, nt). Inr (ret, nt))
          else Inr (ret, nt))
      | Inr (admins, admin_c) \<Rightarrow>
          if \<exists>a \<in> set (take admin_c admins). us_id (cm_user a) = user_id then Inr (0, nt) else Inr (- EPERM, nt)))"

definition is_privileged_user :: "bot_env \<Rightarrow> tgev \<Rightarrow> u64 \<Rightarrow> net \<Rightarrow> (bool \<times> net) res" where
  "is_privileged_user env evt user_id nt =
     (if check_is_sudoer user_id then Inr (True, nt)
      else
        ebind (lookup_tg_privilege env evt user_id (tge_get_chat_id evt) nt) (\<lambda>(ret, nt).
        if ret = 0 then Inr (True, nt)
        else if ret = - EPERM then ebind (send_eperm env evt nt) (\<lambda>(_, nt). Inr (False, nt))
        else Inr (False, nt)))"

section \<open>Requests to the API\<close>

definition err_parse :: bytes where "err_parse = ''Error: Cannot parse JSON response from API'' @ [NUL]"

definition process_json_msg :: "bot_env \<Rightarrow> tga_handle_t \<Rightarrow> bytes \<Rightarrow> (bool \<times> bytes) res" where
  "process_json_msg env thandle reply_text =
     ebind (parse_body env (tge_get_res_body thandle)) (\<lambda>json_obj.
     if json_obj = None then ebind (buf_put reply_text 0 err_parse) (\<lambda>reply_text. Inr (False, reply_text))
     else if get_some json_obj ''ok'' = None
     then ebind (buf_put reply_text 0 (''Cannot find \"ok\" key from JSON API'' @ [NUL])) (\<lambda>reply_text. Inr (False, reply_text))
     else if json_object_get_boolean (get_some json_obj ''ok'') then Inr (True, reply_text)
     else
       (case json_object_object_get_ex json_obj ''description'' of
          None \<Rightarrow> ebind (buf_put reply_text 0 err_parse) (\<lambda>reply_text. Inr (False, reply_text))
        | Some res \<Rightarrow>
            (case json_object_get_string res of
               None \<Rightarrow> ebind (buf_put reply_text 0 err_parse) (\<lambda>reply_text. Inr (False, reply_text))
             | Some str_desc \<Rightarrow>
                 ebind (snprintf reply_text 0 RTB_SIZE (''Error: '' @ cstr str_desc)) (\<lambda>(_, reply_text).
                 Inr (False, reply_text)))))"

text \<open>
  The body that \<open>do_kick\<close>, \<open>do_unban\<close>, \<open>do_mute\<close>, \<open>do_pin\<close>, \<open>do_unpin\<close> and \<open>do_del_msg\<close> share: a
  failed call leaves \<open>ok\<close> true, as in the code.
\<close>

definition do_request ::
  "bot_env \<Rightarrow> bytes \<Rightarrow> bytes \<Rightarrow> (int \<times> tga_handle_t \<times> net) res \<Rightarrow> (bool \<times> bytes \<times> net) res" where
  "do_request env name reply_text call =
     ebind call (\<lambda>(ret, thandle, nt).
     if ret \<noteq> 0
     then ebind (snprintf reply_text 0 RTB_SIZE (''Error: '' @ name @ ''(): '' @ prerf env (- ret))) (\<lambda>(_, reply_text).
            Inr (True, reply_text, nt))
     else ebind (process_json_msg env thandle reply_text) (\<lambda>(ok, reply_text). Inr (ok, reply_text, nt)))"

definition do_kick :: "bot_env \<Rightarrow> bytes \<Rightarrow> tga_kick_cm_t \<Rightarrow> net \<Rightarrow> (bool \<times> bytes \<times> net) res" where
  "do_kick env reply_text arg nt =
     do_request env ''tga_kick_chat_member'' reply_text (tga_kick_chat_member (tga_screate (be_token env)) arg nt)"

definition do_unban :: "bot_env \<Rightarrow> bytes \<Rightarrow> tga_unban_cm_t \<Rightarrow> net \<Rightarrow> (bool \<times> bytes \<times> net) res" where
  "do_unban env reply_text arg nt =
     do_request env ''tga_unban_chat_member'' reply_text (tga_unban_chat_member (tga_screate (be_token env)) arg nt)"

definition do_mute :: "bot_env \<Rightarrow> bytes \<Rightarrow> tga_restrict_cm_t \<Rightarrow> net \<Rightarrow> (bool \<times> bytes \<times> net) res" where
  "do_mute env reply_text arg nt =
     do_request env ''tga_restrict_chat_member'' reply_text (tga_restrict_chat_member (tga_screate (be_token env)) arg nt)"

definition do_pin :: "bot_env \<Rightarrow> bytes \<Rightarrow> tga_pin_cm_t \<Rightarrow> net \<Rightarrow> (bool \<times> bytes \<times> net) res" where
  "do_pin env reply_text arg nt =
     do_request env ''tga_pin_chat_msg'' reply_text (tga_pin_chat_msg (tga_screate (be_token env)) arg nt)"

definition do_unpin :: "bot_env \<Rightarrow> bytes \<Rightarrow> tga_unpin_cm_t \<Rightarrow> net \<Rightarrow> (bool \<times> bytes \<times> net) res" where
  "do_unpin env reply_text arg nt =
     do_request env ''tga_unpin_chat_msg'' reply_text (tga_unpin_chat_msg (tga_screate (be_token env)) arg nt)"

definition do_del_msg :: "bot_env \<Rightarrow> bytes \<Rightarrow> tga_delete_msg_t \<Rightarrow> net \<Rightarrow> (bool \<times> bytes \<times> net) res" where
  "do_del_msg env reply_text arg nt =
     do_request env ''tga_delete_msg'' reply_text (tga_delete_msg (tga_screate (be_token env)) arg nt)"

section \<open>What a command answers\<close>

definition put_reason :: "bytes \<Rightarrow> nat \<Rightarrow> nat \<Rightarrow> bytes option \<Rightarrow> bytes res" where
  "put_reason reply_text pos sps reason =
     (case reason of
        None \<Rightarrow> Inr reply_text
      | Some r \<Rightarrow>
          ebind (buf_put reply_text pos ([CHR 0x0A] @ ''<b>Message:</b> '' @ [NUL])) (\<lambda>reply_text.
          let pos = pos + 17; sps = size_sub sps 18 in
          ebind (htmlspecialchars_at reply_text pos sps r (strnlen r sps)) (\<lambda>(n, reply_text).
          buf_set reply_text (pos + n - 1) NUL)))"

text \<open>
  The sentence of \<open>kick_or_unban\<close> and \<open>mute_or_unmute\<close>, which differ in the last word only.
\<close>

definition outcome_text :: "bytes \<Rightarrow> tgev \<Rightarrow> bytes \<Rightarrow> bytes option \<Rightarrow> bytes res" where
  "outcome_text reply_text reply_to done reason =
     ebind (case tge_get_from reply_to of
              Some fr \<Rightarrow>
                let sps = RTB_SIZE - 18 in
                ebind (gen_name_link reply_text sps (fr_id fr) (fr_first_name fr) (fr_last_name fr)) (\<lambda>(pos, reply_text).
                ebind (buf_put reply_text pos '' has been '') (\<lambda>reply_text. Inr (pos + 10, size_sub sps pos, reply_text)))
            | None \<Rightarrow>
                ebind (buf_put reply_text 0 ''(unknown) has been '') (\<lambda>reply_text. Inr (19, RTB_SIZE, reply_text)))
       (\<lambda>(pos, sps, reply_text).
     ebind (buf_put reply_text pos (done @ [NUL])) (\<lambda>reply_text.
     put_reason reply_text (pos + length done) sps reason))"

definition kick_or_unban :: "bot_env \<Rightarrow> tgev \<Rightarrow> u64 \<Rightarrow> bytes option \<Rightarrow> bool \<Rightarrow> bool \<Rightarrow> net \<Rightarrow> (int \<times> net) res" where
  "kick_or_unban env evt target_uid reason is_unban silent nt =
     ebind (do_unban env (stack_buf nt RTB_SIZE)
       \<lparr> ub_chat_id = tge_get_chat_id evt, ub_user_id = target_uid, ub_only_if_banned = is_unban \<rparr> nt) (\<lambda>(tmp, reply_text, nt).
     let reply_to_msg_id = tge_get_msg_id evt in
     if \<not> tmp then reply_array env evt reply_text reply_to_msg_id nt
     else if silent then Inr (0, nt)
     else
       ebind (if ev_null (tge_get_reply_to evt) then Inr reply_text
              else ebind (deref_ev (tge_get_reply_to evt)) (\<lambda>reply_to.
                outcome_text reply_text reply_to (if is_unban then ''unbanned!'' else ''kicked!'') reason)) (\<lambda>reply_text.
       reply_array env evt reply_text reply_to_msg_id nt))"

definition mute_or_unmute :: "bot_env \<Rightarrow> tgev \<Rightarrow> u64 \<Rightarrow> bytes option \<Rightarrow> bool \<Rightarrow> net \<Rightarrow> (int \<times> net) res" where
  "mute_or_unmute env evt target_uid reason is_unmute nt =
     ebind (do_mute env (stack_buf nt RTB_SIZE)
       \<lparr> rc_chat_id = tge_get_chat_id evt, rc_user_id = target_uid, rc_until_date = 0,
         rc_permissions = \<lparr> pm_messages = is_unmute, pm_media = is_unmute, pm_polls = is_unmute, pm_other = is_unmute,
           pm_previews = is_unmute, pm_info = is_unmute, pm_invite = is_unmute, pm_pin = is_unmute \<rparr> \<rparr> nt) (\<lambda>(tmp, reply_text, nt).
     let reply_to_msg_id = tge_get_msg_id evt in
     ebind (if \<not> tmp \<or> ev_null (tge_get_reply_to evt) then Inr reply_text
            else ebind (deref_ev (tge_get_reply_to evt)) (\<lambda>reply_to.
              outcome_text reply_text reply_to (if is_unmute then ''unmuted!'' else ''muted!'') reason)) (\<lambda>reply_text.
     reply_array env evt reply_text reply_to_msg_id nt))"

section \<open>Commands\<close>

text \<open>
  Deleting the command and the replied message: \<open>None\<close> when both deletions went well, the
  text of the error otherwise.
\<close>

definition delete_both :: "bot_env \<Rightarrow> tgev \<Rightarrow> bytes \<Rightarrow> net \<Rightarrow> (bytes option \<times> net) res" where
  "delete_both env evt reply_text nt =
     ebind (do_del_msg env reply_text \<lparr> dm_chat_id = tge_get_chat_id evt, dm_message_id = tge_get_msg_id evt \<rparr> nt)
       (\<lambda>(tmp, reply_text, nt).
     if \<not> tmp then Inr (Some reply_text, nt)
     else if ev_null (tge_get_reply_to evt) then Inr (None, nt)
     else
       ebind (deref_ev (tge_get_reply_to evt)) (\<lambda>reply_to.
       ebind (do_del_msg env reply_text \<lparr> dm_chat_id = tge_get_chat_id evt, dm_message_id = tge_get_msg_id reply_to \<rparr> nt)
         (\<lambda>(tmp, reply_text, nt).
       if \<not> tmp then Inr (Some reply_text, nt) else Inr (None, nt))))"

definition banned_text :: "bytes \<Rightarrow> tgev \<Rightarrow> bytes option \<Rightarrow> bytes res" where
  "banned_text reply_text reply_to reason =
     ebind (case tge_get_from reply_to of
              Some fr \<Rightarrow>
                let sps = RTB_SIZE - 18 in
                ebind (gen_name_link reply_text sps (fr_id fr) (fr_first_name fr) (fr_last_name fr)) (\<lambda>(pos, reply_text).
                ebind (buf_put reply_text pos ('' has been banned!'' @ [NUL])) (\<lambda>reply_text.
                Inr (pos + 17, size_sub sps pos, reply_text)))
            | None \<Rightarrow>
                ebind (buf_put reply_text 0 (''Banned success!'' @ [NUL])) (\<lambda>reply_text. Inr (15, RTB_SIZE - 15, reply_text)))
       (\<lambda>(pos, sps, reply_text). put_reason reply_text pos sps reason)"

definition exec_adm_cmd_ban :: "bot_env \<Rightarrow> tgev \<Rightarrow> u64 \<Rightarrow> bytes option \<Rightarrow> bool \<Rightarrow> net \<Rightarrow> (int \<times> net) res" where
  "exec_adm_cmd_ban env evt target_uid reason silent nt =
     ebind (do_kick env (stack_buf nt RTB_SIZE)
       \<lparr> kc_chat_id = tge_get_chat_id evt, kc_user_id = target_uid, kc_until_date = 0, kc_revoke_msg = True \<rparr> nt)
       (\<lambda>(tmp, reply_text, nt).
     let reply_to_msg_id = tge_get_msg_id evt in
     if \<not> tmp then reply_array env evt reply_text reply_to_msg_id nt
     else if silent then
       ebind (delete_both env evt reply_text nt) (\<lambda>(err, nt).
       case err of None \<Rightarrow> Inr (0, nt) | Some reply_text \<Rightarrow> reply_array env evt reply_text reply_to_msg_id nt)
     else
       ebind (if ev_null (tge_get_reply_to evt) then Inr reply_text
              else ebind (deref_ev (tge_get_reply_to evt)) (\<lambda>reply_to. banned_text reply_text reply_to reason)) (\<lambda>reply_text.
       reply_array env evt reply_text reply_to_msg_id nt))"

definition exec_adm_cmd_unban :: "bot_env \<Rightarrow> tgev \<Rightarrow> u64 \<Rightarrow> bytes option \<Rightarrow> net \<Rightarrow> (int \<times> net) res" where
  "exec_adm_cmd_unban env evt target_uid reason nt = kick_or_unban env evt target_uid reason True False nt"

definition exec_adm_cmd_kick :: "bot_env \<Rightarrow> tgev \<Rightarrow> u64 \<Rightarrow> bytes option \<Rightarrow> bool \<Rightarrow> net \<Rightarrow> (int \<times> net) res" where
  "exec_adm_cmd_kick env evt target_uid reason silent nt =
     ebind (kick_or_unban env evt target_uid reason False silent nt) (\<lambda>(ret, nt).
     if ret = 0 \<and> silent then
       ebind (delete_both env evt (stack_buf nt RTB_SIZE) nt) (\<lambda>(err, nt).
       case err of None \<Rightarrow> Inr (0, nt) | Some reply_text \<Rightarrow> reply_array env evt reply_text (tge_get_msg_id evt) nt)
     else Inr (ret, nt))"

definition exec_adm_cmd_mute :: "bot_env \<Rightarrow> tgev \<Rightarrow> u64 \<Rightarrow> bytes option \<Rightarrow> net \<Rightarrow> (int \<times> net) res" where
  "exec_adm_cmd_mute env evt target_uid reason nt = mute_or_unmute env evt target_uid reason False nt"

definition exec_adm_cmd_unmute :: "bot_env \<Rightarrow> tgev \<Rightarrow> u64 \<Rightarrow> bytes option \<Rightarrow> net \<Rightarrow> (int \<times> net) res" where
  "exec_adm_cmd_unmute env evt target_uid reason nt = mute_or_unmute env evt target_uid reason True nt"

definition exec_adm_cmd_pin :: "bot_env \<Rightarrow> tgev \<Rightarrow> net \<Rightarrow> (int \<times> net) res" where
  "exec_adm_cmd_pin env evt nt =
     ebind (deref_ev (tge_get_reply_to evt)) (\<lambda>reply_to.
     let reply_to_msg_id = tge_get_msg_id reply_to in
     if reply_to_msg_id = 0 then send_reply env evt ''Please reply to message to be pinned!'' (tge_get_msg_id evt) nt
     else
       ebind (do_pin env (stack_buf nt RTB_SIZE)
         \<lparr> pn_chat_id = tge_get_chat_id evt, pn_message_id = reply_to_msg_id, pn_disable_notification = False \<rparr> nt)
         (\<lambda>(tmp, reply_text, nt).
       ebind (if \<not> tmp then Inr (0, reply_text)
              else snprintf reply_text 0 RTB_SIZE (''Message '' @ fmt_u64 reply_to_msg_id @ '' has been pinned!'')) (\<lambda>(_, reply_text).
       reply_array env evt reply_text (tge_get_msg_id evt) nt)))"

definition exec_adm_cmd_unpin :: "bot_env \<Rightarrow> tgev \<Rightarrow> net \<Rightarrow> (int \<times> net) res" where
  "exec_adm_cmd_unpin env evt nt =
     ebind (deref_ev (tge_get_reply_to evt)) (\<lambda>reply_to.
     let reply_to_msg_id = tge_get_msg_id reply_to in
     if reply_to_msg_id = 0 then send_reply env evt ''Please reply to message to be unpinned!'' (tge_get_msg_id evt) nt
     else
       ebind (do_unpin env (stack_buf nt RTB_SIZE)
         \<lparr> up_chat_id = tge_get_chat_id evt, up_message_id = reply_to_msg_id \<rparr> nt)
         (\<lambda>(tmp, reply_text, nt).
       ebind (if \<not> tmp then Inr (0, reply_text)
              else snprintf reply_text 0 RTB_SIZE (''Message '' @ fmt_u64 reply_to_msg_id @ '' has been unpinned!'')) (\<lambda>(_, reply_text).
       reply_array env evt reply_text (tge_get_msg_id evt) nt)))"

definition exec_adm_cmd_delete :: "bot_env \<Rightarrow> tgev \<Rightarrow> net \<Rightarrow> (int \<times> net) res" where
  "exec_adm_cmd_delete env evt nt =
     ebind (deref_ev (tge_get_reply_to evt)) (\<lambda>reply_to.
     let reply_to_msg_id = tge_get_msg_id reply_to in
     if reply_to_msg_id = 0 then send_reply env evt ''Please reply to message to be unpinned!'' (tge_get_msg_id evt) nt
     else
       ebind (do_del_msg env (stack_buf nt RTB_SIZE)
         \<lparr> dm_chat_id = tge_get_chat_id evt, dm_message_id = reply_to_msg_id \<rparr> nt) (\<lambda>(tmp, reply_text, nt).
       if \<not> tmp then reply_array env evt reply_text (tge_get_msg_id evt) nt
       else
         ebind (do_del_msg env reply_text
           \<lparr> dm_chat_id = tge_get_chat_id evt, dm_message_id = tge_get_msg_id evt \<rparr> nt) (\<lambda>(tmp, reply_text, nt).
         ebind (if \<not> tmp then Inr (0, reply_text)
                else snprintf reply_text 0 RTB_SIZE (''Message '' @ fmt_u64 reply_to_msg_id @ '' has been deleted!'')) (\<lambda>(_, reply_text).
         reply_array env evt reply_text (tge_get_msg_id evt) nt))))"

section \<open>Reporting\<close>

text \<open>\<open>sps\<close> and the position run through the loop as in the code, where \<open>sps\<close> can wrap.\<close>

fun report_loop :: "tga_chat_member list \<Rightarrow> nat \<Rightarrow> nat \<Rightarrow> bytes \<Rightarrow> bytes res" where
  "report_loop [] pos sps buf = Inr buf"
| "report_loop (a # as) pos sps buf =
     (if us_is_bot (cm_user a) then report_loop as pos sps buf
      else
        let sps = size_sub sps 6 in
        ebind (snprintf buf pos sps (''Cc: '' @ user_link (us_id (cm_user a)))) (\<lambda>(tmp, buf).
        let pos = pos + tmp; sps = size_sub sps tmp in
        ebind (put_name buf pos sps (us_first_name (cm_user a))) (\<lambda>(tmp, buf).
        let tmp = (if 0 < tmp then tmp - 1 else tmp); pos = pos + tmp; sps = size_sub sps tmp in
        ebind (buf_put buf pos (''</a>'' @ [CHR 0x0A, NUL])) (\<lambda>buf. report_loop as (pos + 5) sps buf))))"

definition construct_report_reply :: "bytes \<Rightarrow> nat \<Rightarrow> tga_chat_member list \<Rightarrow> nat \<Rightarrow> bytes res" where
  "construct_report_reply buf sps admins admin_c =
     ebind (buf_put buf 0 (''Reported to admins!'' @ [CHR 0x0A, NUL])) (\<lambda>buf.
     report_loop (take admin_c admins) 20 (size_sub sps 20) buf)"

definition exec_usr_cmd_report :: "bot_env \<Rightarrow> tgev \<Rightarrow> evptr \<Rightarrow> net \<Rightarrow> (int \<times> net) res" where
  "exec_usr_cmd_report env evt reply_to nt =
     (let reply_text = stack_buf nt 4096 in
      ebind (fetch_admins env (tge_get_chat_id evt) nt) (\<lambda>(result, nt).
      ebind (case result of
               Inl (ret, t) \<Rightarrow> ebind (snprintf reply_text 0 4096 t) (\<lambda>(_, reply_text). Inr reply_text)
             | Inr (admins, admin_c) \<Rightarrow> construct_report_reply reply_text 4096 admins admin_c) (\<lambda>reply_text.
      ebind (if ev_null reply_to then Inr evt else deref_ev reply_to) (\<lambda>evt.
      reply_array env evt reply_text (tge_get_msg_id evt) nt))))"

section \<open>Entry\<close>

fun strtolower_cp :: "bytes \<Rightarrow> nat \<Rightarrow> bytes \<Rightarrow> nat \<Rightarrow> (bool \<times> bytes) res" where
  "strtolower_cp dest i [] dst_len = ebind (buf_set dest i NUL) (\<lambda>dest. Inr (True, dest))"
| "strtolower_cp dest i (c # src) dst_len =
     (if is_ws c then ebind (buf_set dest i NUL) (\<lambda>dest. Inr (True, dest))
      else
        ebind (buf_set dest i (my_tolower c)) (\<lambda>dest.
        if dst_len \<le> Suc i then Inr (False, dest) else strtolower_cp dest (Suc i) src dst_len))"

text \<open>\<open>tx\<close> is a C string, and \<open>yx\<close> an array of ten bytes.\<close>

definition is_an_admin_mention :: "bytes \<Rightarrow> bytes \<Rightarrow> bool res" where
  "is_an_admin_mention yx tx =
     (if head tx \<noteq> CHR ''@'' then Inr False
      else
        let tx = tl tx in
        ebind (strtolower_cp yx 0 tx 9) (\<lambda>(fits, yx).
        if \<not> fits \<or> \<not> strneq ''admin'' yx 5 then Inr False
        else
          let tx = drop 5 tx; tx = (if head tx = CHR ''s'' then tl tx else tx) in
          Inr (tx = [] \<or> is_ws (head tx))))"

text \<open>The chain of comparisons: the length of the name that matches first, and its command.\<close>

definition match_command :: "bytes \<Rightarrow> (nat \<times> mod_cmd_t) option" where
  "match_command yx =
     (if strneq ''ban'' yx 3 then Some (3, ADM_CMD_BAN)
      else if strneq ''sban'' yx 4 then Some (4, ADM_CMD_SBAN)
      else if strneq ''unban'' yx 5 then Some (5, ADM_CMD_UNBAN)
      else if strneq ''kick'' yx 4 then Some (4, ADM_CMD_KICK)
      else if strneq ''skick'' yx 5 then Some (5, ADM_CMD_SKICK)
      else if strneq ''warn'' yx 4 then Some (4, ADM_CMD_WARN)
      else if strneq ''mute'' yx 4 then Some (4, ADM_CMD_MUTE)
      else if strneq ''tmute'' yx 5 then Some (5, ADM_CMD_TMUTE)
      else if strneq ''unmute'' yx 6 then Some (6, ADM_CMD_UNMUTE)
      else if strneq ''pin'' yx 3 then Some (3, ADM_CMD_PIN)
      else if strneq ''unpin'' yx 5 then Some (5, ADM_CMD_UNPIN)
      else if strneq ''delete'' yx 6 then Some (6, ADM_CMD_DELETE)
      else if strneq ''del'' yx 3 then Some (3, ADM_CMD_DELETE)
      else if strneq ''report'' yx 6 then Some (6, USR_CMD_REPORT)
      else if strneq ''admin'' yx 5 then Some (5, USR_CMD_REPORT)
      else if strneq ''delvote'' yx 7 then Some (7, USR_CMD_DELVOTE)
      else None)"

text \<open>From \<open>out_run_priv_chk\<close> on.\<close>

definition run_command ::
  "bot_env \<Rightarrow> tgev \<Rightarrow> mod_cmd_t \<Rightarrow> u64 \<Rightarrow> u64 \<Rightarrow> evptr \<Rightarrow> bytes option \<Rightarrow> net \<Rightarrow> (int \<times> net) res" where
  "run_command env evt cmd user_id target_uid reply_to reason nt =
     ebind (if cmd \<in> set ADMIN_CMD_BITS then is_privileged_user env evt user_id nt else Inr (True, nt)) (\<lambda>(priv, nt).
     if \<not> priv then Inr (0, nt)
     else
       (case cmd of
          CMD_NOP \<Rightarrow> Inl Aborted
        | ADM_CMD_BAN \<Rightarrow> exec_adm_cmd_ban env evt target_uid reason False nt
        | ADM_CMD_SBAN \<Rightarrow> exec_adm_cmd_ban env evt target_uid reason True nt
        | ADM_CMD_UNBAN \<Rightarrow> exec_adm_cmd_unban env evt target_uid reason nt
        | ADM_CMD_KICK \<Rightarrow> exec_adm_cmd_kick env evt target_uid reason False nt
        | ADM_CMD_SKICK \<Rightarrow> exec_adm_cmd_kick env evt target_uid reason True nt
        | ADM_CMD_WARN \<Rightarrow> Inr (- ECANCELED, nt)
        | ADM_CMD_MUTE \<Rightarrow> exec_adm_cmd_mute env evt target_uid reason nt
        | ADM_CMD_TMUTE \<Rightarrow> Inr (- ECANCELED, nt)
        | ADM_CMD_UNMUTE \<Rightarrow> exec_adm_cmd_unmute env evt target_uid reason nt
        | ADM_CMD_PIN \<Rightarrow> exec_adm_cmd_pin env evt nt
        | ADM_CMD_DELETE \<Rightarrow> exec_adm_cmd_delete env evt nt
        | ADM_CMD_UNPIN \<Rightarrow> exec_adm_cmd_unpin env evt nt
        | USR_CMD_REPORT \<Rightarrow> exec_usr_cmd_report env evt reply_to nt
        | USR_CMD_DELVOTE \<Rightarrow> Inr (- ECANCELED, nt)))"

text \<open>
  The code before \<open>out_run_priv_chk\<close>: \<open>None\<close> when it returns \<open>-ECANCELED\<close>, otherwise the command
  with the target and the reason.  \<open>reply_to\<close> is followed here for the first time.
\<close>

definition command_target :: "mod_cmd_t \<Rightarrow> bytes option \<Rightarrow> evptr \<Rightarrow> (mod_cmd_t \<times> u64 \<times> bytes option) option res" where
  "command_target cmd reason reply_to =
     (if ev_null reply_to
      then Inr (if cmd = USR_CMD_REPORT \<and> reason = None then Some (cmd, 0, reason) else None)
      else ebind (deref_ev reply_to) (\<lambda>r. Inr (Some (cmd, tge_get_user_id r, reason))))"

definition slash_command :: "bytes \<Rightarrow> bytes \<Rightarrow> evptr \<Rightarrow> (mod_cmd_t \<times> u64 \<times> bytes option) option res" where
  "slash_command yx tx reply_to =
     ebind (strtolower_cp yx 0 tx 9) (\<lambda>(fits, yx).
     if \<not> fits then Inr None
     else
       (case match_command yx of
          None \<Rightarrow> Inr None
        | Some (n, cmd) \<Rightarrow>
            let tx = drop n tx in
            if tx = [] then command_target cmd None reply_to
            else if \<not> is_ws (head tx) then Inr None
            else command_target cmd (Some (skip_ws tx)) reply_to))"

definition admin_command :: "bytes \<Rightarrow> tgev \<Rightarrow> (mod_cmd_t \<times> u64 \<times> bytes option) option res" where
  "admin_command yx evt =
     (case tge_get_text evt of
        None \<Rightarrow> Inr None
      | Some t \<Rightarrow>
          let tx = cstr t in
          if head tx \<notin> set ''!/.~''
          then ebind (is_an_admin_mention yx tx) (\<lambda>mention. Inr (if mention then Some (USR_CMD_REPORT, 0, None) else None))
          else slash_command yx (tl tx) (tge_get_reply_to evt))"

definition admin_entry :: "bot_env \<Rightarrow> gwbot_thread \<Rightarrow> tgev \<Rightarrow> net \<Rightarrow> (int \<times> net) res" where
  "admin_entry env thread evt nt =
     ebind (admin_command (stack_buf nt 10) evt) (\<lambda>command.
     case command of
       None \<Rightarrow> Inr (- ECANCELED, nt)
     | Some (cmd, target_uid, reason) \<Rightarrow>
         run_command env evt cmd (tge_get_user_id evt) target_uid (tge_get_reply_to evt) reason nt)"

end
