(* ===== verification/Mod_Admin_Auth.thy ===== *)
theory Mod_Admin_Auth
  imports Mod_Admin
begin

text \<open>
  Who may use the administrators' commands: a request that changes the chat is sent only for
  a user of the built-in list or one that the API lists as an administrator of the chat.
\<close>

section \<open>The response as a string\<close>

text \<open>The string that the code reads from a response; without a null byte there is none.\<close>

definition reads :: "tga_res_t \<Rightarrow> bytes \<Rightarrow> bool" where
  "reads res t \<longleftrightarrow> (\<exists>b. rs_body res = Some b \<and> (NUL \<in> set b \<longrightarrow> cstr b = cstr t))"

lemma holds_reads:
  assumes "res_ok res" and "holds res t True"
  shows "reads res t"
proof -
  obtain b where b: "rs_body res = Some b" "take (length t) b = t" "b ! length t = NUL" "length t < length b"
    using assms by (auto simp: res_ok_def holds_def)
  then have "b = t @ NUL # drop (Suc (length t)) b" by (metis append_take_drop_id Cons_nth_drop_Suc)
  then have "cstr b = cstr t" by (metis cstr_terminated)
  then show ?thesis using b(1) by (simp add: reads_def)
qed

lemma deliver_reads:
  assumes "res_ok res" "holds res t b" "reads res t" "curl_deliver env cs res = Inr (True, res')"
  shows "reads res' (t @ concat cs)"
  using assms
proof (induction cs arbitrary: res t b)
  case (Cons c cs)
  obtain n r where w: "write_callback env c res = Inr (n, r)" "res_ok r"
      "if n = length c then c = [] \<and> r = res \<or> holds r (t @ c) True else n = 0 \<and> \<not> (\<forall>k. cr_realloc env k)"
    using write_callback_ok [OF Cons.prems(1,2)] by blast
  then have run: "n = length c" "curl_deliver env cs r = Inr (True, res')" using Cons.prems(4) by (auto split: if_splits)
  then consider "c = []" "r = res" | "holds r (t @ c) True" using w(3) by auto
  then show ?case
  proof cases
    case 1
    then show ?thesis using Cons.IH [OF Cons.prems(1-3)] run(2) by simp
  next
    case 2
    then show ?thesis using Cons.IH [OF w(2) 2 holds_reads [OF w(2) 2] run(2)] by simp
  qed
qed simp

lemma allocate_reads:
  assumes "rs_body res = None" and "tg_api_allocate_res env res = Inr (0, res')"
  shows "reads res' []"
proof -
  have "rs_body res' = Some (replicate 4096 (cr_fill env))" using assms by (auto simp: tg_api_allocate_res_def split: if_splits)
  then show ?thesis by (auto simp: reads_def cstr_def)
qed

lemma post_reads:
  assumes "rs_body (hd_res handle) = None" and "post_method buf meth handle nt = Inr (0, handle', nt')"
  shows "cr_ok (next_reply nt) \<and> reads (hd_res handle') (concat (cr_chunks (next_reply nt)))"
proof -
  let ?env = "nt_reply nt (nt_calls nt)"
  obtain ret res where a: "tg_api_allocate_res ?env (hd_res handle) = Inr (ret, res)"
      "ret = 0 \<and> res_ok res \<and> holds res [] False \<or> ret = - ENOMEM \<and> \<not> cr_malloc ?env"
    using allocate_ok assms(1) by blast
  then have ret: "ret = 0" "\<exists>res'. curl_deliver ?env (cr_chunks ?env) res = Inr (True, res') \<and> handle' = (tga_set_method meth (tga_set_body buf handle))\<lparr> hd_res := res' \<rparr>"
      "cr_ok ?env"
    using assms(2) by (auto simp: post_method_def tga_set_method_def tga_set_body_def tg_api_post_def Let_def run_simps split: option.splits if_splits)
  then have r: "res_ok res" "holds res [] False" "reads res []" using a allocate_reads [OF assms(1)] by auto
  then show ?thesis using ret deliver_reads [OF r] by (auto simp: next_reply_def)
qed

text \<open>A transfer that has what it needs succeeds, and its text is read back.\<close>

definition answers :: "net \<Rightarrow> bytes \<Rightarrow> bool" where
  "answers nt t \<longleftrightarrow> cr_ok (next_reply nt) \<and> (\<forall>k. cr_realloc (next_reply nt) k) \<and> concat (cr_chunks (next_reply nt)) = t \<and> t \<noteq> []"

lemma json_parse_cstr: "cstr b = cstr t \<Longrightarrow> json_tokener_parse strtod b = json_tokener_parse strtod t"
  by (simp add: json_tokener_parse_def)

lemma parse_body_holds:
  assumes "res_ok (hd_res thandle)" and "holds (hd_res thandle) t True"
  shows "parse_body env (tge_get_res_body thandle) = json_tokener_parse (be_strtod env) t"
proof -
  obtain b where b: "rs_body (hd_res thandle) = Some b" "b ! length t = NUL" "length t < length b"
    using assms by (auto simp: res_ok_def holds_def)
  then have "NUL \<in> set b" by (metis nth_mem)
  moreover from this have "cstr b = cstr t" using holds_reads [OF assms] b(1) by (auto simp: reads_def)
  ultimately show ?thesis using b(1) json_parse_cstr [of b t "be_strtod env"]
    by (simp add: parse_body_def tge_get_res_body_def string_at_def)
qed

lemma post_success:
  assumes "rs_body (hd_res handle) = None" and "reaches handle nt" and "answers nt t"
  shows "\<exists>handle' nt'. post_method buf meth handle nt = Inr (0, handle', nt') \<and>
    parse_body env (tge_get_res_body handle') = json_tokener_parse (be_strtod env) t"
proof -
  let ?env = "nt_reply nt (nt_calls nt)"
  obtain token where tok: "hd_token handle = Some token" "cstr token \<noteq> []" "cr_malloc ?env" "cr_init ?env"
    using assms(2) by (auto simp: reaches_def next_reply_def)
  obtain res where a: "tg_api_allocate_res ?env (hd_res handle) = Inr (0, res)" "res_ok res" "holds res [] False"
    using allocate_ok [of "hd_res handle" ?env] assms(1) tok(3) by auto
  obtain taken res' where d: "curl_deliver ?env (cr_chunks ?env) res = Inr (taken, res')" "res_ok res'"
      "taken \<longrightarrow> holds res' ([] @ concat (cr_chunks ?env)) (False \<or> concat (cr_chunks ?env) \<noteq> [])" "taken \<or> \<not> (\<forall>k. cr_realloc ?env k)"
    using deliver_ok [OF a(2,3), of ?env "cr_chunks ?env"] by blast
  have t: "taken" "holds res' t True" "cr_ok ?env" using d assms(3) by (auto simp: answers_def next_reply_def)
  obtain url where "api_url token meth = Inr url" using api_url_ok by blast
  then have "\<exists>nt'. post_method buf meth handle nt = Inr (0, (tga_set_method meth (tga_set_body buf handle))\<lparr> hd_res := res' \<rparr>, nt')"
    using tok a(1) d(1) t by (simp add: post_method_def tga_set_method_def tga_set_body_def tg_api_post_def Let_def)
  then show ?thesis using parse_body_holds [of "(tga_set_method meth (tga_set_body buf handle))\<lparr> hd_res := res' \<rparr>" t env] d(2) t(2) by auto
qed

section \<open>The administrators of a chat\<close>

text \<open>
  The id of an element of the answer, and who is listed in it.  An element without an id is skipped
  by the parser, but the array is searched as if it had as many entries as the answer has elements; the last
  ones are then still zero, so that such an element stands for the user 0.
\<close>

definition admin_id :: "json \<Rightarrow> u64 option" where
  "admin_id x = (case get_some (get_some x ''user'') ''id'' of None \<Rightarrow> None | Some v \<Rightarrow> Some (json_object_get_uint64 (Some v)))"

definition listed :: "json \<Rightarrow> u64 \<Rightarrow> bool" where
  "listed doc uid \<longleftrightarrow> json_object_get_boolean (get_some doc ''ok'') \<and>
     (\<exists>xs. get_some doc ''result'' = Some (JArr xs) \<and> (\<exists>x \<in> set xs. admin_id x = Some uid \<or> admin_id x = None \<and> uid = 0))"

lemma admin_element_skip: "admin_element x a = Inr None \<Longrightarrow> admin_id x = None"
  by (auto simp: admin_element_def admin_id_def Let_def run_simps get_some_def split: if_splits option.splits)

lemma admin_element_id: "admin_element x a = Inr (Some a') \<Longrightarrow> admin_id x = Some (us_id (cm_user a'))"
  by (auto simp: admin_element_def admin_id_def Let_def run_simps split: if_splits option.splits)

lemma admin_loop_ids:
  assumes "admin_loop (Some (JArr xs)) is j arr = Inr arr'" and "\<forall>i \<in> set is. i < length xs"
    and "\<forall>a \<in> set arr. us_id (cm_user a) = 0 \<or> (\<exists>x \<in> set xs. admin_id x = Some (us_id (cm_user a)))"
  shows "\<forall>a \<in> set arr'. us_id (cm_user a) = 0 \<or> (\<exists>x \<in> set xs. admin_id x = Some (us_id (cm_user a)))"
  using assms
proof (induction "Some (JArr xs)" "is" j arr rule: admin_loop.induct)
  case (2 i "is" j arr)
  have x: "json_object_array_get_idx (Some (JArr xs)) i = Inr (xs ! i)" "xs ! i \<in> set xs"
    using 2(4) by (auto simp: array_list_get_idx_def)
  then obtain a where a: "j < length arr" "admin_element (xs ! i) (arr ! j) = Inr a"
    using 2(3) by (auto simp: run_simps)
  show ?case
  proof (cases a)
    case None
    then show ?thesis using 2 x a by (simp add: guard_def)
  next
    case (Some a')
    have "\<forall>b \<in> set (arr[j := a']). us_id (cm_user b) = 0 \<or> (\<exists>x \<in> set xs. admin_id x = Some (us_id (cm_user b)))"
      using 2(5) admin_element_id [of "xs ! i" "arr ! j" a'] a(2) Some x(2) set_update_subset_insert [of arr j a'] by auto
    then show ?thesis using 2 x a Some by (simp add: guard_def)
  qed
qed simp

text \<open>When no element is skipped, every entry of the array is that of an element.\<close>

lemma admin_loop_full:
  assumes "admin_loop (Some (JArr xs)) is j arr = Inr arr'" and "\<forall>i \<in> set is. i < length xs"
    and "\<forall>x \<in> set xs. admin_id x \<noteq> None" and "\<forall>k < j. \<exists>x \<in> set xs. admin_id x = Some (us_id (cm_user (arr ! k)))"
  shows "\<forall>k < j + length is. \<exists>x \<in> set xs. admin_id x = Some (us_id (cm_user (arr' ! k)))"
  using assms
proof (induction "Some (JArr xs)" "is" j arr rule: admin_loop.induct)
  case (2 i "is" j arr)
  have x: "json_object_array_get_idx (Some (JArr xs)) i = Inr (xs ! i)" "xs ! i \<in> set xs"
    using 2(4) by (auto simp: array_list_get_idx_def)
  then obtain a where a: "j < length arr" "admin_element (xs ! i) (arr ! j) = Inr a"
    using 2(3) by (auto simp: run_simps)
  then obtain a' where a': "a = Some a'" using admin_element_skip 2(5) x(2) by (cases a) auto
  then have id: "admin_id (xs ! i) = Some (us_id (cm_user a'))" using admin_element_id a(2) by blast
  have filled: "\<forall>k < Suc j. \<exists>x \<in> set xs. admin_id x = Some (us_id (cm_user (arr[j := a'] ! k)))"
    using 2(6) id x(2) a(1) by (auto simp: less_Suc_eq nth_list_update)
  have loop: "admin_loop (Some (JArr xs)) is (Suc j) (arr[j := a']) = Inr arr'"
    using 2(3) x a a' by (simp add: guard_def)
  show ?case using 2(2) [OF loop _ 2(5) filled] 2(4) by simp
qed simp

lemma parse_tga_admins_ids:
  assumes "parse_tga_admins ok obj = Inr (0, arr, n)" and "a \<in> set (take n arr)"
  shows "listed obj (us_id (cm_user a))"
proof -
  have b: "json_object_get_boolean (get_some obj ''ok'')" using assms(1) by (auto simp: parse_tga_admins_def split: if_splits)
  obtain m where m: "json_object_array_length (get_some obj ''result'') = Inr m" "n = m"
      "admin_loop (get_some obj ''result'') [0..<m] 0 (replicate (m + 1) member_zero) = Inr arr"
    using assms(1) by (auto simp: parse_tga_admins_def run_simps split: if_splits)
  then obtain xs where xs: "get_some obj ''result'' = Some (JArr xs)" "m = length xs"
    by (cases "get_some obj ''result''" rule: json_object_array_length.cases) auto
  have ids: "\<forall>a \<in> set arr. us_id (cm_user a) = 0 \<or> (\<exists>x \<in> set xs. admin_id x = Some (us_id (cm_user a)))"
    by (rule admin_loop_ids [OF m(3) [unfolded xs(1)]]) (auto simp: xs(2) member_zero_def)
  show ?thesis
  proof (cases "\<forall>x \<in> set xs. admin_id x \<noteq> None")
    case True
    have "\<forall>k < m. \<exists>x \<in> set xs. admin_id x = Some (us_id (cm_user (arr ! k)))"
      using admin_loop_full [OF m(3) [unfolded xs(1)] _ True] xs(2) by simp
    moreover obtain k where "k < m" "a = arr ! k" using assms(2) m(2) by (auto simp: in_set_conv_nth)
    ultimately show ?thesis using b xs(1) by (auto simp: listed_def)
  next
    case False
    then show ?thesis using ids in_set_takeD [OF assms(2)] b xs(1) unfolding listed_def by metis
  qed
qed

section \<open>Runs that only talk\<close>

text \<open>The methods that change nothing in the chat but add a message.\<close>

definition talking :: "bytes set" where
  "talking = {''sendMessage'', ''getChatAdministrators''}"

lemma send_reply_talks: "\<exists>nt'. send_reply env evt t msg_id nt = Inr (0, nt') \<and> sends env talking nt nt'"
  using send_msg_sends [of "\<lparr> sg_chat_id = tge_get_chat_id evt, sg_reply_to_msg_id = msg_id, sg_text = t, sg_parse_mode = PARSE_MODE_HTML \<rparr>"
    "''&parse_mode=html''" talking env nt]
  by (auto simp: send_reply_def talking_def)

lemma reply_array_talks: "reply_array env evt t msg_id nt = Inr (ret, nt') \<Longrightarrow> ret = 0 \<and> sends env talking nt nt'"
  using send_reply_talks [of env evt t msg_id nt] by (auto simp: reply_array_def string_at_def run_simps split: if_splits)

text \<open>What the list of administrators rests on: the answer to the first request.\<close>

definition api_listed :: "bot_env \<Rightarrow> net \<Rightarrow> u64 \<Rightarrow> bool" where
  "api_listed env nt uid \<longleftrightarrow> cr_ok (next_reply nt) \<and>
     (\<exists>doc. json_tokener_parse (be_strtod env) (concat (cr_chunks (next_reply nt))) = Inr doc \<and> listed doc uid)"

lemma parse_body_reads:
  assumes "reads (hd_res thandle) t" and "parse_body env (tge_get_res_body thandle) = Inr doc"
  shows "json_tokener_parse (be_strtod env) t = Inr doc"
proof -
  obtain b where b: "rs_body (hd_res thandle) = Some b" "NUL \<in> set b \<longrightarrow> cstr b = cstr t" using assms(1) by (auto simp: reads_def)
  then show ?thesis using assms(2)
    by (auto simp: parse_body_def tge_get_res_body_def string_at_def json_tokener_parse_def run_simps split: if_splits)
qed

text \<open>The first request of a run asks for the administrators of the chat.\<close>

definition asked_first :: "bot_env \<Rightarrow> u64 \<Rightarrow> net \<Rightarrow> net \<Rightarrow> bool" where
  "asked_first env chat_id nt nt' \<longleftrightarrow>
     (\<exists>r rs. nt_sent nt' = nt_sent nt @ r # rs \<and>
        request_of (tga_screate (be_token env)) ''getChatAdministrators'' (form_text [(''chat_id'', fmt_d64 chat_id)]) r)"

lemma asked_first_later: "asked_first env chat_id nt nt1 \<Longrightarrow> sends env ms nt1 nt' \<Longrightarrow> asked_first env chat_id nt nt'"
  by (force simp: asked_first_def sends_def)

lemma fetch_admins_talks:
  assumes "fetch_admins env chat_id nt = Inr (result, nt')"
  shows "sends env talking nt nt' \<and>
    (\<forall>admins n a. result = Inr (admins, n) \<longrightarrow> a \<in> set (take n admins) \<longrightarrow>
       api_listed env nt (us_id (cm_user a)) \<and> asked_first env chat_id nt nt')"
proof -
  obtain buf where buf: "tga_get_chat_admins (tga_screate (be_token env)) chat_id nt = post_method buf ''getChatAdministrators'' (tga_screate (be_token env)) nt"
      "cstr buf = form_text [(''chat_id'', fmt_d64 chat_id)]"
    using get_chat_admins_form [of "tga_screate (be_token env)" chat_id nt] unfolding posts_def by blast
  obtain ret thandle nt1 where call: "tga_get_chat_admins (tga_screate (be_token env)) chat_id nt = Inr (ret, thandle, nt1)" "sends env talking nt nt1"
    using form_sends [OF get_chat_admins_form, of talking env chat_id nt] by (auto simp: talking_def)
  have nt: "nt' = nt1" using assms call(1)
    by (auto simp: fetch_admins_def run_simps split: if_splits option.splits)
  have "api_listed env nt (us_id (cm_user a)) \<and> asked_first env chat_id nt nt'"
    if res: "result = Inr (admins, n)" and a: "a \<in> set (take n admins)" for admins n a
  proof -
    obtain doc where d: "ret = 0" "parse_body env (tge_get_res_body thandle) = Inr doc" "parse_tga_admins (be_calloc env) doc = Inr (0, admins, n)"
      using assms call(1) res by (auto simp: fetch_admins_def run_simps split: if_splits option.splits)
    have r: "cr_ok (next_reply nt) \<and> reads (hd_res thandle) (concat (cr_chunks (next_reply nt)))"
      using call(1) d(1) buf(1) by (intro post_reads [OF screate_empty]) simp
    have "\<exists>r. nt_sent nt1 = nt_sent nt @ [r] \<and> request_of (tga_screate (be_token env)) ''getChatAdministrators'' (cstr buf) r"
      using post_method_ok [OF screate_empty [of "be_token env"], of buf "''getChatAdministrators''" nt] call(1) buf(1) d(1)
      by (auto simp: called_def length_Suc_conv)
    then have "asked_first env chat_id nt nt'" unfolding asked_first_def nt buf(2) by blast
    then show ?thesis using r parse_body_reads [OF _ d(2)] parse_tga_admins_ids [OF d(3) a] by (auto simp: api_listed_def)
  qed
  then show ?thesis using call(2) nt by blast
qed

lemma lookup_talks:
  assumes "lookup_tg_privilege env evt uid chat_id nt = Inr (ret, nt')"
  shows "sends env talking nt nt' \<and> (ret = 0 \<longrightarrow> api_listed env nt uid \<and> asked_first env chat_id nt nt')"
proof -
  obtain result nt1 where f: "fetch_admins env chat_id nt = Inr (result, nt1)"
    using assms by (auto simp: lookup_tg_privilege_def run_simps)
  note talks = fetch_admins_talks [OF f]
  show ?thesis
  proof (cases result)
    case (Inl e)
    obtain r t where e: "e = (r, t)" by (cases e)
    have "r \<noteq> 0" using f Inl e by (auto simp: fetch_admins_def run_simps split: if_splits option.splits)
    moreover have "sends env talking nt1 nt'" "ret = r"
      using assms f Inl e by (auto simp: lookup_tg_privilege_def run_simps sends_refl split: if_splits dest!: reply_array_talks)
    ultimately show ?thesis using talks by (auto intro: sends_trans)
  next
    case (Inr p)
    obtain admins n where p: "p = (admins, n)" by (cases p)
    have "nt' = nt1" "ret = 0 \<longrightarrow> (\<exists>a \<in> set (take n admins). us_id (cm_user a) = uid)"
      using assms f Inr p by (auto simp: lookup_tg_privilege_def run_simps split: if_splits)
    then show ?thesis using talks Inr p by blast
  qed
qed

lemma privileged_talks:
  assumes "is_privileged_user env evt uid nt = Inr (priv, nt')"
  shows "sends env talking nt nt' \<and>
    (priv \<longrightarrow> check_is_sudoer uid \<or> api_listed env nt uid \<and> asked_first env (tge_get_chat_id evt) nt nt')"
proof (cases "check_is_sudoer uid")
  case True
  then show ?thesis using assms by (simp add: is_privileged_user_def sends_refl)
next
  case False
  obtain ret nt1 where l: "lookup_tg_privilege env evt uid (tge_get_chat_id evt) nt = Inr (ret, nt1)"
    using assms False by (auto simp: is_privileged_user_def run_simps)
  note talks = lookup_talks [OF l]
  obtain nt2 where e: "send_eperm env evt nt1 = Inr (0, nt2)" "sends env talking nt1 nt2"
    using send_reply_talks unfolding send_eperm_def by blast
  have "priv \<and> ret = 0 \<and> nt' = nt1 \<or> \<not> priv \<and> (nt' = nt1 \<or> nt' = nt2)"
    using assms False l e(1) by (auto simp: is_privileged_user_def split: if_splits)
  then show ?thesis using talks e(2) by (auto intro: sends_trans)
qed

section \<open>Runs that act\<close>

text \<open>The requests of the commands, whatever they are, come after those that have been sent before.\<close>

lemma acts_sends: "sends env talking nt nt' \<Longrightarrow> sends env UNIV nt nt'"
  by (rule sends_mono) simp_all

lemma reply_array_acts: "reply_array env evt t msg_id nt = Inr (ret, nt') \<Longrightarrow> sends env UNIV nt nt'"
  using reply_array_talks acts_sends by blast

lemma do_request_acts:
  assumes "posts run ((tga_screate (be_token env))\<lparr> hd_content_type := ct \<rparr>) meth nt body"
    and "do_request env name rt run = Inr (ok, rt', nt')"
  shows "sends env UNIV nt nt'"
  using posts_sends [OF assms(1), of UNIV] assms(2) by (auto simp: do_request_def run_simps split: if_splits)

lemmas form_acts = do_request_acts [where ct = APP_X_WWW_FORM_URLENCODED, simplified]

lemma do_acts:
  "do_kick env rt kc nt = Inr (ok, rt', nt') \<Longrightarrow> sends env UNIV nt nt'"
  "do_unban env rt ub nt = Inr (ok, rt', nt') \<Longrightarrow> sends env UNIV nt nt'"
  "do_mute env rt rc nt = Inr (ok, rt', nt') \<Longrightarrow> sends env UNIV nt nt'"
  "do_pin env rt pn nt = Inr (ok, rt', nt') \<Longrightarrow> sends env UNIV nt nt'"
  "do_unpin env rt up nt = Inr (ok, rt', nt') \<Longrightarrow> sends env UNIV nt nt'"
  "do_del_msg env rt dm nt = Inr (ok, rt', nt') \<Longrightarrow> sends env UNIV nt nt'"
  by (auto simp: do_kick_def do_unban_def do_mute_def do_pin_def do_unpin_def do_del_msg_def
      intro: form_acts [OF kick_chat_member_form] form_acts [OF unban_chat_member_form] do_request_acts [OF restrict_form]
        form_acts [OF pin_chat_msg_form] form_acts [OF unpin_chat_msg_form] form_acts [OF delete_msg_form])

lemma delete_both_acts: "delete_both env evt rt nt = Inr (err, nt') \<Longrightarrow> sends env UNIV nt nt'"
  by (auto simp: delete_both_def run_simps split: if_splits dest!: do_acts intro: sends_trans)

lemma kick_or_unban_acts: "kick_or_unban env evt uid reason b silent nt = Inr (ret, nt') \<Longrightarrow> sends env UNIV nt nt'"
  by (auto simp: kick_or_unban_def run_simps Let_def split: if_splits dest!: do_acts reply_array_acts intro: sends_trans)

lemma mute_or_unmute_acts: "mute_or_unmute env evt uid reason b nt = Inr (ret, nt') \<Longrightarrow> sends env UNIV nt nt'"
  by (auto simp: mute_or_unmute_def run_simps Let_def split: if_splits dest!: do_acts reply_array_acts intro: sends_trans)

lemma send_reply_acts: "send_reply env evt t msg_id nt = Inr (ret, nt') \<Longrightarrow> sends env UNIV nt nt'"
  using send_reply_talks [of env evt t msg_id nt] acts_sends by auto

lemma delete_tail_acts:
  assumes "ebind (delete_both env evt rt nt) (\<lambda>(err, nt).
      case err of None \<Rightarrow> Inr (0, nt) | Some rt \<Rightarrow> reply_array env evt rt i nt) = Inr (ret, nt')"
  shows "sends env UNIV nt nt'"
proof -
  obtain err nt1 where d: "delete_both env evt rt nt = Inr (err, nt1)" using assms by (auto simp: run_simps)
  then have "nt1 = nt' \<or> (\<exists>t. reply_array env evt t i nt1 = Inr (ret, nt'))" using assms by (cases err) auto
  then show ?thesis using delete_both_acts [OF d] reply_array_acts sends_trans by blast
qed

lemmas parts_act = do_acts delete_both_acts kick_or_unban_acts mute_or_unmute_acts reply_array_acts send_reply_acts

lemma exec_acts:
  "exec_adm_cmd_ban env evt uid reason silent nt = Inr (ret, nt') \<Longrightarrow> sends env UNIV nt nt'"
  "exec_adm_cmd_unban env evt uid reason nt = Inr (ret, nt') \<Longrightarrow> sends env UNIV nt nt'"
  "exec_adm_cmd_kick env evt uid reason silent nt = Inr (ret, nt') \<Longrightarrow> sends env UNIV nt nt'"
  "exec_adm_cmd_mute env evt uid reason nt = Inr (ret, nt') \<Longrightarrow> sends env UNIV nt nt'"
  "exec_adm_cmd_unmute env evt uid reason nt = Inr (ret, nt') \<Longrightarrow> sends env UNIV nt nt'"
  "exec_adm_cmd_pin env evt nt = Inr (ret, nt') \<Longrightarrow> sends env UNIV nt nt'"
  "exec_adm_cmd_unpin env evt nt = Inr (ret, nt') \<Longrightarrow> sends env UNIV nt nt'"
  "exec_adm_cmd_delete env evt nt = Inr (ret, nt') \<Longrightarrow> sends env UNIV nt nt'"
proof -
  show "sends env UNIV nt nt'" if run: "exec_adm_cmd_ban env evt uid reason silent nt = Inr (ret, nt')"
  proof -
    obtain tmp rt nt1 where k: "do_kick env (stack_buf nt RTB_SIZE)
        \<lparr> kc_chat_id = tge_get_chat_id evt, kc_user_id = uid, kc_until_date = 0, kc_revoke_msg = True \<rparr> nt = Inr (tmp, rt, nt1)"
      using run unfolding exec_adm_cmd_ban_def ebind_eq_Inr by auto
    consider "\<not> tmp" | "tmp" "silent" | "tmp" "\<not> silent" by blast
    then have "sends env UNIV nt1 nt'"
    proof cases
      case 2
      then show ?thesis using run k delete_tail_acts [of env evt rt nt1] by (simp add: exec_adm_cmd_ban_def Let_def)
    qed (use run k in \<open>auto simp: exec_adm_cmd_ban_def Let_def run_simps dest: reply_array_acts\<close>)
    then show ?thesis using do_acts(1) [OF k] sends_trans by blast
  qed
  show "exec_adm_cmd_unban env evt uid reason nt = Inr (ret, nt') \<Longrightarrow> sends env UNIV nt nt'"
    unfolding exec_adm_cmd_unban_def by (rule kick_or_unban_acts)
  show "sends env UNIV nt nt'" if run: "exec_adm_cmd_kick env evt uid reason silent nt = Inr (ret, nt')"
  proof -
    obtain r nt1 where k: "kick_or_unban env evt uid reason False silent nt = Inr (r, nt1)"
      using run unfolding exec_adm_cmd_kick_def ebind_eq_Inr by auto
    have "sends env UNIV nt1 nt'"
      using run k delete_tail_acts [of env evt "stack_buf nt1 RTB_SIZE" nt1] sends_refl by (auto simp: exec_adm_cmd_kick_def split: if_splits)
    then show ?thesis using kick_or_unban_acts [OF k] sends_trans by blast
  qed
  show "exec_adm_cmd_mute env evt uid reason nt = Inr (ret, nt') \<Longrightarrow> sends env UNIV nt nt'"
    unfolding exec_adm_cmd_mute_def by (rule mute_or_unmute_acts)
  show "exec_adm_cmd_unmute env evt uid reason nt = Inr (ret, nt') \<Longrightarrow> sends env UNIV nt nt'"
    unfolding exec_adm_cmd_unmute_def by (rule mute_or_unmute_acts)
  show "exec_adm_cmd_pin env evt nt = Inr (ret, nt') \<Longrightarrow> sends env UNIV nt nt'"
    by (auto simp: exec_adm_cmd_pin_def run_simps Let_def split: if_splits dest!: parts_act intro: sends_trans)
  show "exec_adm_cmd_unpin env evt nt = Inr (ret, nt') \<Longrightarrow> sends env UNIV nt nt'"
    by (auto simp: exec_adm_cmd_unpin_def run_simps Let_def split: if_splits dest!: parts_act intro: sends_trans)
  show "exec_adm_cmd_delete env evt nt = Inr (ret, nt') \<Longrightarrow> sends env UNIV nt nt'"
    by (auto simp: exec_adm_cmd_delete_def run_simps Let_def split: if_splits dest!: parts_act intro: sends_trans)
qed

lemma report_talks:
  assumes "exec_usr_cmd_report env evt reply_to nt = Inr (ret, nt')"
  shows "sends env talking nt nt'"
proof -
  obtain result nt1 e t m where "fetch_admins env (tge_get_chat_id evt) nt = Inr (result, nt1)" "reply_array env e t m nt1 = Inr (ret, nt')"
    using assms by (auto simp: exec_usr_cmd_report_def Let_def run_simps)
  then show ?thesis using fetch_admins_talks reply_array_talks by (meson sends_trans)
qed

lemma run_command_talks:
  assumes "run_command env evt cmd uid target reply_to reason nt = Inr (ret, nt')" and "\<not> check_is_sudoer uid"
  shows "sends env talking nt nt' \<or>
    sends env UNIV nt nt' \<and> api_listed env nt uid \<and> asked_first env (tge_get_chat_id evt) nt nt'"
proof (cases "cmd \<in> set ADMIN_CMD_BITS")
  case True
  then obtain priv nt1 where p: "is_privileged_user env evt uid nt = Inr (priv, nt1)" using assms(1) by (auto simp: run_command_def run_simps)
  note talks = privileged_talks [OF p]
  show ?thesis
  proof (cases priv)
    case priv: True
    have acts: "sends env UNIV nt1 nt'"
      using assms(1) True p priv by (cases cmd) (auto simp: run_command_def ADMIN_CMD_BITS_def sends_refl dest: exec_acts)
    moreover from talks have "sends env UNIV nt nt1" using acts_sends by blast
    ultimately show ?thesis using talks priv assms(2) sends_trans asked_first_later [OF _ acts] by blast
  next
    case False
    then show ?thesis using assms(1) True p talks by (simp add: run_command_def)
  qed
next
  case False
  then show ?thesis using assms(1) report_talks
    by (cases cmd) (auto simp: run_command_def ADMIN_CMD_BITS_def sends_refl)
qed

lemma fetch_admins_answer:
  assumes "reaches (tga_screate (be_token env)) nt" and "answers nt t"
    and "json_tokener_parse (be_strtod env) t = Inr doc" "doc \<noteq> None" and "parse_tga_admins (be_calloc env) doc = Inr (0, admins, n)"
  shows "\<exists>nt1. fetch_admins env chat_id nt = Inr (Inr (admins, n), nt1)"
proof -
  obtain buf where buf: "tga_get_chat_admins (tga_screate (be_token env)) chat_id nt = post_method buf ''getChatAdministrators'' (tga_screate (be_token env)) nt"
    using get_chat_admins_form [of "tga_screate (be_token env)" chat_id nt] by (auto simp: posts_def)
  obtain h nt1 where "post_method buf ''getChatAdministrators'' (tga_screate (be_token env)) nt = Inr (0, h, nt1)"
      "parse_body env (tge_get_res_body h) = json_tokener_parse (be_strtod env) t"
    using post_success [OF screate_empty assms(1,2)] by blast
  then show ?thesis using buf assms(3-5) by (cases "tge_get_res_body h") (auto simp: fetch_admins_def parse_body_def)
qed

lemma refused:
  assumes "admin_command (stack_buf nt 10) evt = Inr (Some (cmd, target, reason))" and "cmd \<in> set ADMIN_CMD_BITS"
    and "\<not> check_is_sudoer (tge_get_user_id evt)" and "fetch_admins env (tge_get_chat_id evt) nt = Inr (Inr (admins, n), nt1)"
    and "\<forall>a \<in> set (take n admins). us_id (cm_user a) \<noteq> tge_get_user_id evt"
  shows "\<exists>nt'. admin_entry env thread evt nt = Inr (0, nt') \<and> send_eperm env evt nt1 = Inr (0, nt')"
proof -
  obtain nt' where e: "send_eperm env evt nt1 = Inr (0, nt')" using send_reply_talks unfolding send_eperm_def by blast
  have "lookup_tg_privilege env evt (tge_get_user_id evt) (tge_get_chat_id evt) nt = Inr (- EPERM, nt1)"
    using assms(4,5) by (auto simp: lookup_tg_privilege_def)
  then have "is_privileged_user env evt (tge_get_user_id evt) nt = Inr (False, nt')"
    using assms(3) e by (simp add: is_privileged_user_def)
  then show ?thesis using assms(1,2) e by (simp add: admin_entry_def run_command_def)
qed

section \<open>Properties\<close>

text \<open>
  C12. Only administrators act: in a run of the admin module, for any event whose sender is not one of the
  four built-in users, either every request sends a message or asks for the administrators, so that nobody is banned,
  kicked or muted and nothing is pinned or deleted, or the first request asks for the
  administrators of the chat of the event and the answer to it lists the sender.  The answer lists those whose id is in one of its
  elements; as the code treats it, an element without an id lists the user 0 (\<open>skipped_entry_lists_zero\<close> below).
\<close>

theorem only_admins_act:
  assumes "admin_entry env thread evt nt = Inr (ret, nt')" and "\<not> check_is_sudoer (tge_get_user_id evt)"
  shows "\<exists>rs. nt_sent nt' = nt_sent nt @ rs \<and>
    ((\<forall>r \<in> set rs. \<exists>meth \<in> {''sendMessage'', ''getChatAdministrators''}. \<exists>post ct.
        request_of ((tga_screate (be_token env))\<lparr> hd_content_type := ct \<rparr>) meth post r) \<or>
     (rs \<noteq> [] \<and> api_listed env nt (tge_get_user_id evt) \<and>
        request_of (tga_screate (be_token env)) ''getChatAdministrators''
          (form_text [(''chat_id'', fmt_d64 (tge_get_chat_id evt))]) (hd rs)))"
proof -
  have "nt' = nt \<or> (\<exists>cmd target reply_to reason. run_command env evt cmd (tge_get_user_id evt) target reply_to reason nt = Inr (ret, nt'))"
    using assms(1) by (auto simp: admin_entry_def run_simps split: option.splits)
  then have "sends env talking nt nt' \<or> api_listed env nt (tge_get_user_id evt) \<and> asked_first env (tge_get_chat_id evt) nt nt'"
    using run_command_talks assms(2) sends_refl by blast
  then show ?thesis unfolding sends_def talking_def asked_first_def by (elim disjE conjE exE) (blast, fastforce)
qed

definition demo_ban :: tgev where
  "demo_ban = Tgev None 1 False (MsgText (zero_text\<lparr> tx_text := Some ''/ban'', tc_msg_id := 5, tc_from := (tc_from zero_text)\<lparr> fr_id := 3 \<rparr> \<rparr>)
     (Reply 0 (text_event ''x'' NullReply)))"

abbreviation admins_answer :: bytes where
  "admins_answer \<equiv> ''{\"ok\":true,\"result\":[{\"user\":{\"id\":9}}]}''"

theorem only_admins_act_witness:
  "\<exists>nt'. admin_entry demo_bot thread_zero demo_ban (demo_net [admins_answer]) = Inr (0, nt') \<and>
     (\<forall>r \<in> set (nt_sent nt'). \<exists>meth \<in> {''sendMessage'', ''getChatAdministrators''}. \<exists>post ct.
         request_of ((tga_screate (Some ''t''))\<lparr> hd_content_type := ct \<rparr>) meth post r)"
proof -
  let ?nt = "demo_net [admins_answer]"
  have uid: "tge_get_user_id demo_ban = 3" by code_simp
  have cmd: "admin_command (stack_buf ?nt 10) demo_ban = Inr (Some (ADM_CMD_BAN, 0, None))" by code_simp
  define doc where "doc = Some (JObj [(''ok'', Some (JBool True)), (''result'', Some (JArr [Some (JObj [(''user'', Some (JObj [(''id'', Some (JInt64 9))]))])]))])"
  have parse: "json_tokener_parse (be_strtod demo_bot) admins_answer = Inr doc" unfolding doc_def by code_simp
  have net: "reaches (tga_screate (be_token demo_bot)) ?nt" "answers ?nt admins_answer" "be_calloc demo_bot"
    by (simp_all add: reaches_def answers_def next_reply_def demo_net_def demo_reply_def demo_bot_def tga_screate_def cstr_def NUL_def)
  have "parse_tga_admins True doc = Inr (0, [member_zero\<lparr> cm_user := (cm_user member_zero)\<lparr> us_id := 9 \<rparr> \<rparr>, member_zero], 1)"
    unfolding doc_def by code_simp
  then obtain nt1 where f: "fetch_admins demo_bot (tge_get_chat_id demo_ban) ?nt = Inr (Inr ([member_zero\<lparr> cm_user := (cm_user member_zero)\<lparr> us_id := 9 \<rparr> \<rparr>, member_zero], 1), nt1)"
    using fetch_admins_answer [OF net(1,2) parse] net(3) by (auto simp: doc_def)
  have others: "\<forall>a \<in> set (take 1 [member_zero\<lparr> cm_user := (cm_user member_zero)\<lparr> us_id := 9 \<rparr> \<rparr>, member_zero]). us_id (cm_user a) \<noteq> tge_get_user_id demo_ban"
    by (simp add: uid)
  have sudo: "\<not> check_is_sudoer (tge_get_user_id demo_ban)" unfolding uid by (simp add: check_is_sudoer_def)
  obtain nt' where run: "admin_entry demo_bot thread_zero demo_ban ?nt = Inr (0, nt')"
    using refused [OF cmd _ sudo f others] by (auto simp: ADMIN_CMD_BITS_def)
  have "json_tokener_parse (be_strtod demo_bot) (concat (cr_chunks (next_reply ?nt))) = Inr doc"
    using parse by (simp add: next_reply_def demo_net_def demo_reply_def)
  moreover have "\<not> listed doc 3" by (simp add: listed_def doc_def get_some_def admin_id_def)
  ultimately have "\<not> api_listed demo_bot ?nt (tge_get_user_id demo_ban)" by (simp add: api_listed_def uid)
  with only_admins_act [OF run sudo] show ?thesis using run by (auto simp: demo_net_def demo_bot_def)
qed

text \<open>
  A sender without an id, whose event has the id 0, passes for an administrator as soon as one element of the answer has no
  id: the array has an entry for it that was never written.
\<close>

lemma skipped_entry_lists_zero:
  assumes "fetch_admins env (tge_get_chat_id evt) nt = Inr (Inr ([member_zero, member_zero], 1), nt1)" and "tge_get_user_id evt = 0"
  shows "is_privileged_user env evt (tge_get_user_id evt) nt = Inr (True, nt1)"
  using assms by (simp add: is_privileged_user_def lookup_tg_privilege_def check_is_sudoer_def member_zero_def)

lemma skipped_entry_array:
  "parse_tga_admins True (Some (JObj [(''ok'', Some (JBool True)), (''result'', Some (JArr [None]))])) = Inr (0, [member_zero, member_zero], 1)"
  by code_simp

end
