(* ===== verification/Mod_Admin_Reply.thy ===== *)
theory Mod_Admin_Reply
  imports Mod_Admin_Auth
begin

text \<open>
  What the commands answer: the sentence that names the user, and where the code says
  something else than what happened, or writes too far.
\<close>

section \<open>Names\<close>

lemma filled_split: "filled buf w n \<Longrightarrow> buf = w @ drop (length w) buf"
  by (metis append_take_drop_id filled_def)

lemma filled_html:
  assumes "filled buf w n" "pos = length w" and "len \<le> length s" "e = htmlenc (take len s)"
    and "length e < outlen" "outlen < 2 ^ 64" "length w + length e + 2 \<le> n"
  shows "\<exists>b. htmlspecialchars_at buf pos outlen s len = Inr (length e + 1, b) \<and> filled b (w @ e) n"
proof -
  let ?out = "drop (length w) buf"
  have len: "length buf = n" "take (length w) buf = w" "length w \<le> n" using assms(1) by (auto simp: filled_def)
  have "htmlspecialchars ?out outlen s len = Inr (length e + 1, e @ [?out ! length e, NUL] @ drop (length e + 2) ?out)"
    using htmlspecialchars_eq [of len s e outlen ?out] assms len by simp
  then have "htmlspecialchars_at buf pos outlen s len = Inr (length e + 1, w @ e @ [?out ! length e, NUL] @ drop (length e + 2) ?out)"
    using assms(2) len by (simp add: htmlspecialchars_at_def)
  moreover have "filled (w @ e @ [?out ! length e, NUL] @ drop (length e + 2) ?out) (w @ e) n"
    using assms len by (simp add: filled_def)
  ultimately show ?thesis by blast
qed

lemma filled_snprintf:
  assumes "filled buf w n" "pos = length w" and "length u < space" "length w + length u < n"
  shows "\<exists>b. snprintf buf pos space u = Inr (length u, b) \<and> filled b (w @ u) n"
proof -
  have "length buf = n" using assms(1) by (simp add: filled_def)
  then have "snprintf (w @ drop (length w) buf) (length w) space u = Inr (length u, (w @ u) @ NUL # drop (Suc (length u)) (drop (length w) buf))"
    using assms by (intro snprintf_after) simp_all
  then show ?thesis using filled_split [OF assms(1)] assms \<open>length buf = n\<close> by (simp add: filled_def)
qed

lemma filled_set:
  assumes "filled buf w n" "pos = length w" "length w < n"
  shows "\<exists>b. buf_set buf pos c = Inr b \<and> filled b (w @ [c]) n"
  using assms by (simp add: filled_def take_Suc_conv_app_nth nth_list_update)

definition last_text :: "bytes option \<Rightarrow> bytes" where
  "last_text l = (case l of None \<Rightarrow> [] | Some l \<Rightarrow> '' '' @ htmlenc l)"

definition name_text :: "u64 \<Rightarrow> bytes \<Rightarrow> bytes option \<Rightarrow> bytes" where
  "name_text uid f l = user_link uid @ htmlenc f @ last_text l @ ''</a>''"

text \<open>A name that fits: a C string of at most 255 bytes, at most 400 when escaped.\<close>

definition name_ok :: "bytes \<Rightarrow> bool" where
  "name_ok s \<longleftrightarrow> NUL \<notin> set s \<and> length s \<le> 255 \<and> length (htmlenc s) \<le> 400"

lemma length_user_link: "length (user_link uid) \<le> 44"
  using length_fmt(2) [of uid] by (simp add: user_link_def)

lemma filled_name:
  assumes "filled buf w n" "pos = length w" "name_ok s" and "400 < sps" "sps < 2 ^ 64" "length w + 402 \<le> n"
  shows "\<exists>b. put_name buf pos sps (Some s) = Inr (length (htmlenc s) + 1, b) \<and> filled b (w @ htmlenc s) n"
proof -
  have s: "strnlen s 255 = length s" using assms(3) by (simp add: name_ok_def strnlen_eq)
  then show ?thesis
    using filled_html [OF assms(1,2), of "strnlen s 255" s "htmlenc s" sps] assms by (simp add: put_name_def name_ok_def)
qed

lemma filled_last_name:
  assumes "filled buf w n" "pos = length w" and l: "case l of None \<Rightarrow> True | Some l \<Rightarrow> name_ok l"
    and "400 < sps" "sps < 2 ^ 64" "length w + 403 \<le> n"
  shows "\<exists>b. put_last_name buf pos sps l = Inr (length (w @ last_text l), b) \<and> filled b (w @ last_text l) n"
proof (cases l)
  case None
  then show ?thesis using assms by (simp add: put_last_name_def last_text_def)
next
  case (Some g)
  then have g: "name_ok g" using l by simp
  obtain b where b: "buf_set buf pos (CHR '' '') = Inr b" "filled b (w @ [CHR '' '']) n"
    using filled_set [OF assms(1,2), of "CHR '' ''"] assms by auto
  have "\<exists>b'. put_name b (Suc pos) sps (Some g) = Inr (length (htmlenc g) + 1, b') \<and> filled b' ((w @ [CHR '' '']) @ htmlenc g) n"
    using assms by (intro filled_name [OF b(2) _ g]) simp_all
  then show ?thesis using Some b(1) assms(2) by (auto simp: put_last_name_def last_text_def)
qed

lemma name_link_writes:
  assumes "filled buf [] 1024" and f: "name_ok f" and l: "case l of None \<Rightarrow> True | Some l \<Rightarrow> name_ok l"
  shows "\<exists>b. gen_name_link buf 1006 uid (Some f) l = Inr (length (name_text uid f l), b) \<and> filled b (name_text uid f l) 1024"
proof -
  let ?L = "user_link uid" and ?F = "htmlenc f"
  have L: "length ?L \<le> 44" by (rule length_user_link)
  have F: "length ?F \<le> 400" using f by (simp add: name_ok_def)
  define k where "k = 1001 - length ?L"
  have sps: "size_sub 1001 (length ?L) = k" "957 \<le> k" "k \<le> 1001" using L by (simp_all add: size_sub_def k_def)
  obtain b1 where 1: "snprintf buf 0 1001 ?L = Inr (length ?L, b1)" "filled b1 ?L 1024"
    using filled_snprintf [OF assms(1), of 0 ?L 1001] L by auto
  obtain b2 where 2: "put_name b1 (length ?L) k (Some f) = Inr (length ?F + 1, b2)" "filled b2 (?L @ ?F) 1024"
    using filled_name [OF 1(2) refl f, of k] L sps by auto
  have pos: "length ?L + (length ?F + 1) - 1 = length (?L @ ?F)" by simp
  obtain b3 where 3: "put_last_name b2 (length (?L @ ?F)) (k + (length ?F + 1)) l = Inr (length ((?L @ ?F) @ last_text l), b3)"
      "filled b3 ((?L @ ?F) @ last_text l) 1024"
    using filled_last_name [OF 2(2) refl l, of "k + (length ?F + 1)"] L F sps by auto
  have "length (last_text l) \<le> 401" using l by (auto simp: last_text_def name_ok_def split: option.splits)
  then obtain b4 where 4: "buf_put b3 (length ((?L @ ?F) @ last_text l)) (''</a>'' @ [NUL]) = Inr b4" "filled b4 (((?L @ ?F) @ last_text l) @ ''</a>'') 1024"
    using filled_put [OF 3(2) refl, of "''</a>''" "[NUL]"] L F by auto
  have "(1006 :: nat) - 5 = 1001" "\<not> (1006 :: nat) < 32" by simp_all
  then have "gen_name_link buf 1006 uid (Some f) l = Inr (length ((?L @ ?F) @ last_text l) + 4, b4)"
    unfolding gen_name_link_def Let_def by (simp only: if_False 1(1) ebind.simps prod.case sps(1) 2(1) pos 3(1) 4(1))
  then show ?thesis using 4(2) by (simp add: name_text_def)
qed

section \<open>The sentence\<close>

lemma name_text_no_NUL: "name_ok f \<Longrightarrow> case l of None \<Rightarrow> True | Some l \<Rightarrow> name_ok l \<Longrightarrow> NUL \<notin> set (name_text uid f l)"
  by (auto simp: name_text_def user_link_def last_text_def name_ok_def NUL_literal split: option.splits)

lemma length_name_text:
  assumes "name_ok f" and "case l of None \<Rightarrow> True | Some l \<Rightarrow> name_ok l"
  shows "length (name_text uid f l) \<le> 850"
  using assms length_user_link [of uid] by (auto simp: name_text_def last_text_def name_ok_def split: option.splits)

lemma filled_cstr: "filled b (w @ [NUL]) n \<Longrightarrow> NUL \<notin> set w \<Longrightarrow> cstr b = w \<and> NUL \<in> set b"
  using filled_split [of b "w @ [NUL]" n] cstr_append_NUL [of w "drop (length (w @ [NUL])) b"]
  by (metis append.assoc append_Cons append_Nil in_set_conv_decomp)

lemma banned_text_writes:
  assumes n: "length rt = 1024" and fr: "tge_get_from target = Some fr" "fr_first_name fr = Some f" "name_ok f"
    and l: "case fr_last_name fr of None \<Rightarrow> True | Some l \<Rightarrow> name_ok l"
  shows "\<exists>b. banned_text rt target None = Inr b \<and> NUL \<in> set b \<and> cstr b = name_text (fr_id fr) f (fr_last_name fr) @ '' has been banned!''"
proof -
  let ?t = "name_text (fr_id fr) f (fr_last_name fr)" and ?s = "'' has been banned!''"
  obtain b where b: "gen_name_link rt 1006 (fr_id fr) (Some f) (fr_last_name fr) = Inr (length ?t, b)" "filled b ?t 1024"
    using name_link_writes [OF filled_start [OF n] fr(3) l] by blast
  have len: "length ?t \<le> 850" by (rule length_name_text [OF fr(3) l])
  obtain c where c: "buf_put b (length ?t) ((?s @ [NUL]) @ []) = Inr c" "filled c (?t @ ?s @ [NUL]) 1024"
    using filled_put [OF b(2) refl, of "?s @ [NUL]" "[]"] len by auto
  have "(1024 :: nat) - 18 = 1006" by simp
  then have "banned_text rt target None = Inr c"
    using b(1) c(1) fr(1,2) by (simp add: banned_text_def Let_def put_reason_def)
  moreover have "NUL \<notin> set (?t @ ?s)" using name_text_no_NUL [OF fr(3) l] by (simp add: NUL_literal)
  then have "cstr c = ?t @ ?s \<and> NUL \<in> set c" using c(2) by (intro filled_cstr) simp_all
  ultimately show ?thesis by blast
qed

text \<open>A request that fails leaves a flag that says the opposite.\<close>

lemma failed_request:
  assumes "posts run ((tga_screate (be_token env))\<lparr> hd_content_type := ct \<rparr>) meth nt body" and "\<not> cr_ok (next_reply nt)" and "length rt = 1024"
  shows "\<exists>rt' nt1. do_request env name rt run = Inr (True, rt', nt1) \<and> length rt' = 1024 \<and>
    nt_calls nt1 = Suc (nt_calls nt) \<and> nt_reply nt1 = nt_reply nt"
proof -
  let ?h = "(tga_screate (be_token env))\<lparr> hd_content_type := ct \<rparr>"
  obtain buf where buf: "run = post_method buf meth ?h nt" using assms(1) by (auto simp: posts_def)
  obtain ret h' nt1 rs where p: "run = Inr (ret, h', nt1)" "called nt nt1 rs" "ret \<noteq> 0"
    using post_method_ok [of ?h buf meth nt] assms(2) buf by auto
  let ?t = "''Error: '' @ name @ ''(): '' @ prerf env (- ret)"
  have "1024 = (0 :: nat) \<longleftrightarrow> False" by simp
  then obtain rt' where "snprintf rt 0 1024 ?t = Inr (length ?t, rt')" "length rt' = 1024"
    using assms(3) by (auto simp: snprintf_def)
  then show ?thesis using p by (simp add: do_request_def called_def)
qed

lemma send_reply_text_sent:
  assumes "reaches (tga_screate (be_token env)) nt" and "length (cstr t) \<le> 8000"
  shows "\<exists>nt' r post. send_reply env evt t msg_id nt = Inr (0, nt') \<and> nt_sent nt' = nt_sent nt @ [r] \<and>
    request_of (tga_screate (be_token env)) ''sendMessage'' post r \<and>
    (\<exists>fs. form_decode post = Some (fs @ [(''text'', cstr t)]))"
proof -
  let ?ctx = "\<lparr> sg_chat_id = tge_get_chat_id evt, sg_reply_to_msg_id = msg_id, sg_text = t, sg_parse_mode = PARSE_MODE_HTML \<rparr>"
  have pm: "parse_mode_field (sg_parse_mode ?ctx) = Some ''&parse_mode=html''" by simp
  obtain ret h nt' rs where send: "tga_send_msg (tga_screate (be_token env)) ?ctx nt = Inr (ret, h, nt')" "called nt nt' rs" "length rs = 1"
      "\<forall>r \<in> set rs. request_of (tga_screate (be_token env)) ''sendMessage'' (form_text (send_fields ?ctx (urlenc True))) r"
    using posts_run [OF send_msg_form [OF pm] screate_empty] assms(1) by blast
  then obtain r where r: "rs = [r]" by (auto simp: length_Suc_conv)
  have "sent_text ?ctx = cstr t" using sent_whole [OF pm] assms(2) by simp
  then have "\<exists>fs. send_fields ?ctx (\<lambda>t. t) = fs @ [(''text'', cstr t)]" by (simp add: send_fields_def)
  moreover have "send_reply env evt t msg_id nt = Inr (0, nt')" using send(1) by (simp add: send_reply_def)
  ultimately show ?thesis using send(2,4) r send_fields_decode [OF pm]
    by (intro exI [of _ nt'] exI [of _ r] exI [of _ "form_text (send_fields ?ctx (urlenc True))"]) (simp add: called_def)
qed

section \<open>The byte too far\<close>

lemma reason_overrun:
  assumes b: "filled b w 1024" and pos: "pos = length w" and r: "NUL \<notin> set r" "length (htmlenc r) + 1 = k"
    and k: "sps = k + 18" "length w + 17 + k = 1024"
  shows "put_reason b pos sps (Some r) = Inl OutOfBounds"
proof -
  let ?m = "[CHR 0x0A] @ ''<b>Message:</b> ''"
  have buf: "length b = 1024" using b by (simp add: filled_def)
  obtain c where c: "buf_put b pos (?m @ [NUL]) = Inr c" "length c = 1024"
    using pos k r(2) buf by (simp add: buf_put_def)
  have "strnlen r k = length r" using length_htmlenc_ge [of r] r by (simp add: strnlen_eq)
  moreover have "htmlspecialchars (drop (pos + 17) c) k r (length r) = Inl OutOfBounds"
    using pos k c(2) r(2) by (intro htmlspecialchars_one_too_far) simp_all
  moreover have "size_sub sps 18 = k" using k by (simp add: size_sub_def)
  moreover have "pos + 17 \<le> length c" using pos k c(2) by simp
  ultimately show ?thesis using c(1) by (simp add: put_reason_def Let_def htmlspecialchars_at_def)
qed

section \<open>Properties\<close>

text \<open>
  C38. A ban that failed is announced as a success: when the transfer of the \<open>kickChatMember\<close>
  request fails, the module still answers that the user has been banned.
\<close>

theorem ban_failure_announced:
  assumes target: "tge_get_reply_to evt = EvAt a target" "tge_get_from target = Some fr" "fr_first_name fr = Some f" "name_ok f"
      "case fr_last_name fr of None \<Rightarrow> True | Some l \<Rightarrow> name_ok l"
    and fails: "\<not> cr_ok (nt_reply nt (nt_calls nt))"
    and reply: "be_token env = Some token" "cstr token \<noteq> []" "cr_malloc (nt_reply nt (Suc (nt_calls nt)))" "cr_init (nt_reply nt (Suc (nt_calls nt)))"
  shows "\<exists>nt' rs r post fs. exec_adm_cmd_ban env evt uid None False nt = Inr (0, nt') \<and> nt_sent nt' = rs @ [r] \<and>
    request_of (tga_screate (be_token env)) ''sendMessage'' post r \<and>
    form_decode post = Some (fs @ [(''text'', name_text (fr_id fr) f (fr_last_name fr) @ '' has been banned!'')])"
proof -
  let ?arg = "\<lparr> kc_chat_id = tge_get_chat_id evt, kc_user_id = uid, kc_until_date = 0, kc_revoke_msg = True \<rparr>"
  have form: "posts (tga_kick_chat_member (tga_screate (be_token env)) ?arg nt)
      ((tga_screate (be_token env))\<lparr> hd_content_type := APP_X_WWW_FORM_URLENCODED \<rparr>) ''kickChatMember'' nt (form_text (kick_fields ?arg))"
    using kick_chat_member_form [of "tga_screate (be_token env)" ?arg nt] by simp
  obtain rt nt1 where kick: "do_kick env (stack_buf nt 1024) ?arg nt = Inr (True, rt, nt1)" "length rt = 1024"
      "nt_calls nt1 = Suc (nt_calls nt)" "nt_reply nt1 = nt_reply nt"
    using failed_request [OF form, of "stack_buf nt 1024" "''tga_kick_chat_member''"] fails by (auto simp: next_reply_def do_kick_def)
  obtain b where b: "banned_text rt target None = Inr b" "NUL \<in> set b" "cstr b = name_text (fr_id fr) f (fr_last_name fr) @ '' has been banned!''"
    using banned_text_writes [OF kick(2) target(2-5)] by blast
  have "reaches (tga_screate (be_token env)) nt1"
    using reply kick(3,4) by (simp add: reaches_def next_reply_def tga_screate_def)
  moreover have "length (cstr b) \<le> 8000" using b(3) length_name_text [OF target(4,5), of "fr_id fr"] by simp
  ultimately obtain nt' r post fs where "send_reply env evt b (tge_get_msg_id evt) nt1 = Inr (0, nt')" "nt_sent nt' = nt_sent nt1 @ [r]"
      "request_of (tga_screate (be_token env)) ''sendMessage'' post r" "form_decode post = Some (fs @ [(''text'', cstr b)])"
    using send_reply_text_sent by blast
  moreover have "exec_adm_cmd_ban env evt uid None False nt = send_reply env evt b (tge_get_msg_id evt) nt1"
    using kick(1) b(1,2) target(1) by (simp add: exec_adm_cmd_ban_def reply_array_def string_at_def)
  ultimately show ?thesis using b(3) by metis
qed

definition demo_target :: tgev where
  "demo_target = Tgev None 0 True (MsgText (zero_text\<lparr> tx_text := Some ''x'', tc_msg_id := 4,
     tc_from := (tc_from zero_text)\<lparr> fr_id := 2, fr_first_name := Some ''b'', fr_last_name := None \<rparr> \<rparr>) NullReply)"

definition demo_reply_event :: "bytes \<Rightarrow> tgev" where
  "demo_reply_event t = Tgev None 1 False (MsgText (zero_text\<lparr> tx_text := Some t, tc_msg_id := 5 \<rparr>) (Reply 0 demo_target))"

definition failing_net :: net where
  "failing_net = (demo_net [])\<lparr> nt_reply := (\<lambda>n. if n = 0 then (demo_reply [])\<lparr> cr_ok := False \<rparr> else demo_reply []) \<rparr>"

theorem ban_failure_announced_witness:
  "\<not> cr_ok (nt_reply failing_net 0) \<and>
   (\<exists>nt' rs r post fs. exec_adm_cmd_ban demo_bot (demo_reply_event ''/ban'') 2 None False failing_net = Inr (0, nt') \<and>
     nt_sent nt' = rs @ [r] \<and> request_of (tga_screate (Some ''t'')) ''sendMessage'' post r \<and>
     form_decode post = Some (fs @ [(''text'', name_text 2 ''b'' None @ '' has been banned!'')]))"
proof -
  let ?fr = "(tc_from zero_text)\<lparr> fr_id := 2, fr_first_name := Some ''b'', fr_last_name := None \<rparr>"
  have 1: "tge_get_reply_to (demo_reply_event ''/ban'') = EvAt 0 demo_target"
    by (simp add: demo_reply_event_def tge_get_reply_to_def)
  have 2: "tge_get_from demo_target = Some ?fr" by (simp add: demo_target_def tge_get_from_def)
  have 3: "fr_first_name ?fr = Some ''b''" "name_ok ''b''" "case fr_last_name ?fr of None \<Rightarrow> True | Some l \<Rightarrow> name_ok l"
    by (simp_all add: name_ok_def NUL_literal html_char_def html_map_def)
  have 4: "\<not> cr_ok (nt_reply failing_net (nt_calls failing_net))" "cr_malloc (nt_reply failing_net (Suc (nt_calls failing_net)))"
      "cr_init (nt_reply failing_net (Suc (nt_calls failing_net)))" "nt_calls failing_net = 0"
    by (simp_all add: failing_net_def demo_net_def demo_reply_def)
  have 5: "be_token demo_bot = Some ''t''" "cstr ''t'' \<noteq> []" by (simp_all add: demo_bot_def NUL_literal)
  from ban_failure_announced [OF 1 2 3 4(1) 5 4(2,3), of 2] 4(1,4) 5(1) show ?thesis by simp
qed

text \<open>
  The reason of an unban can overrun the reply: the sentence for \<open>unban\<close> is one byte longer
  than what was set aside for it, so the escaped reason that just fits by the code's own
  count makes \<open>htmlspecialchars\<close> write behind the 1024 bytes.
\<close>

theorem unban_reason_overrun:
  assumes target: "tge_get_from target = Some fr" "fr_first_name fr = Some f" "name_ok f"
      "case fr_last_name fr of None \<Rightarrow> True | Some l \<Rightarrow> name_ok l"
    and reason: "NUL \<notin> set reason" "length (htmlenc reason) + length (name_text (fr_id fr) f (fr_last_name fr)) = 987"
    and rt: "length rt = 1024"
  shows "outcome_text rt target ''unbanned!'' (Some reason) = Inl OutOfBounds"
proof -
  let ?t = "name_text (fr_id fr) f (fr_last_name fr)"
  have len: "length ?t \<le> 850" by (rule length_name_text [OF target(3,4)])
  obtain b where b: "gen_name_link rt 1006 (fr_id fr) (Some f) (fr_last_name fr) = Inr (length ?t, b)" "filled b ?t 1024"
    using name_link_writes [OF filled_start [OF rt] target(3,4)] by blast
  obtain c where c: "buf_put b (length ?t) ('' has been '' @ []) = Inr c" "filled c (?t @ '' has been '') 1024"
    using filled_put [OF b(2) refl, of "'' has been ''" "[]"] len by auto
  have pos: "length ?t + 10 = length (?t @ '' has been '')" by simp
  obtain d where d: "buf_put c (length ?t + 10) (''unbanned!'' @ [NUL]) = Inr d" "filled d ((?t @ '' has been '') @ ''unbanned!'') 1024"
    using filled_put [OF c(2) pos, of "''unbanned!''" "[NUL]"] len by auto
  have "put_reason d (19 + length ?t) (1006 - length ?t) (Some reason) = Inl OutOfBounds"
    by (rule reason_overrun [OF d(2) _ reason(1) refl]) (use reason(2) len in simp_all)
  moreover have "size_sub 1006 (length ?t) = 1006 - length ?t" using len by (simp add: size_sub_def)
  moreover have "(1024 :: nat) - 18 = 1006" by simp
  ultimately show ?thesis using b(1) c(1) d(1) target(1,2) by (simp add: outcome_text_def Let_def)
qed

theorem unban_reason_overrun_witness:
  "outcome_text (replicate 1024 NUL) demo_target ''unbanned!'' (Some (replicate 957 (CHR ''r''))) = Inl OutOfBounds"
proof -
  let ?fr = "(tc_from zero_text)\<lparr> fr_id := 2, fr_first_name := Some ''b'', fr_last_name := None \<rparr>"
  have 1: "tge_get_from demo_target = Some ?fr" by (simp add: demo_target_def tge_get_from_def)
  have 2: "fr_first_name ?fr = Some ''b''" "name_ok ''b''" "case fr_last_name ?fr of None \<Rightarrow> True | Some l \<Rightarrow> name_ok l"
    by (simp_all add: name_ok_def NUL_literal html_char_def html_map_def)
  have 3: "NUL \<notin> set (replicate 957 (CHR ''r''))" by (simp add: NUL_literal)
  have "htmlenc (replicate n (CHR ''r'')) = replicate n (CHR ''r'')" for n
    by (induction n) (simp_all add: html_char_def html_map_def)
  moreover have "length (name_text (fr_id ?fr) ''b'' (fr_last_name ?fr)) = 30" by code_simp
  ultimately have 4: "length (htmlenc (replicate 957 (CHR ''r''))) + length (name_text (fr_id ?fr) ''b'' (fr_last_name ?fr)) = 987" by simp
  show ?thesis by (rule unban_reason_overrun [OF 1 2 3 4]) simp
qed

text \<open>
  C37. A photo with a caption crashes the bot: when a caption is a command of the admin module,
  which as a text in reply to a message would be carried out or refused, and the photo has
  caption entities (as Telegram adds them for every bot command), the module follows the
  number of entities as if it was a pointer.
\<close>

theorem photo_command_crashes:
  assumes "ev_msg evt = MsgPhoto p r" "ph_caption p = Some c" "ph_entity_c p \<noteq> 0"
    and "head (cstr c) \<in> set ''!/.~''" "slash_command (stack_buf nt 10) (tl (cstr c)) (EvAt a target) = Inr (Some command)"
  shows "admin_entry env thread evt nt = Inl WildPointer"
proof -
  have reply: "tge_get_reply_to evt = EvInt (ucast (ph_entity_c p))" and t: "tge_get_text evt = Some c"
    using assms(1-3) by (simp_all add: tge_get_reply_to_def tge_get_text_def)
  have wild: "command_target cmd reason (EvInt n) = Inl WildPointer" for cmd reason n by (simp add: command_target_def)
  obtain yx where yx: "strtolower_cp (stack_buf nt 10) 0 (tl (cstr c)) 9 = Inr (True, yx)" "match_command yx \<noteq> None"
    using assms(5) unfolding slash_command_def by (auto simp: ebind_eq_Inr split: if_splits option.splits)
  then obtain n cmd where m: "match_command yx = Some (n, cmd)" by auto
  then have "drop n (tl (cstr c)) = [] \<or> is_ws (head (drop n (tl (cstr c))))"
    using assms(5) yx(1) unfolding slash_command_def Let_def by (auto split: if_splits)
  then have "slash_command (stack_buf nt 10) (tl (cstr c)) (EvInt n) = Inl WildPointer" for n
    unfolding slash_command_def Let_def yx(1) using m by (auto simp: wild)
  then show ?thesis using assms(4) t reply by (auto simp: admin_entry_def admin_command_def)
qed

definition photo_event :: "bytes \<Rightarrow> tgev" where
  "photo_event c = Tgev None 1 False (MsgPhoto (zero_photo\<lparr> ph_caption := Some c, ph_entity_c := 1 \<rparr>) NullReply)"

theorem photo_command_crashes_witness: "admin_entry demo_bot thread_zero (photo_event ''/ban'') (demo_net []) = Inl WildPointer"
proof -
  have 1: "ev_msg (photo_event ''/ban'') = MsgPhoto (zero_photo\<lparr> ph_caption := Some ''/ban'', ph_entity_c := 1 \<rparr>) NullReply"
    by (simp add: photo_event_def)
  have 2: "slash_command (stack_buf (demo_net []) 10) (tl (cstr ''/ban'')) (EvAt 0 demo_target) = Inr (Some (ADM_CMD_BAN, 2, None))"
    by code_simp
  have 3: "head (cstr ''/ban'') \<in> set ''!/.~''" by code_simp
  from photo_command_crashes [OF 1 _ _ 3 2, of demo_bot thread_zero] show ?thesis by simp
qed

end
