(* ===== verification/Gw_Modules.thy ===== *)
theory Gw_Modules
  imports Mod_Admin_Reply
begin

text \<open>
  The four modules in the table of \<open>module_table.h\<close>: the contract that the dispatch relies on,
  its instances, and what the handler does with messages that are no commands.
\<close>

section \<open>The table\<close>

definition bot_ops :: "bot_env \<Rightarrow> bytes \<Rightarrow> net module_ops" where
  "bot_ops env name =
     \<lparr> mo_name = (if name = ''000_debug'' then ''GNUWeebBot Debug Module (first created module)''
                  else if name = ''001_standard'' then ''Standard module''
                  else if name = ''002_translate'' then ''Translate module''
                  else ''Admin module''),
       mo_startup = module_nop, mo_shutdown = module_nop,
       mo_entry = (if name = ''000_debug'' then debug_entry env
                   else if name = ''001_standard'' then standard_entry
                   else if name = ''002_translate'' then translate_entry env
                   else admin_entry env) \<rparr>"

section \<open>The contract of a module\<close>

text \<open>
  A module says which events it takes; it declines every other one without any effect.  Only
  events whose reply pointer is sound are promised anything.
\<close>

definition sound_reply :: "tgev \<Rightarrow> bool" where
  "sound_reply evt \<longleftrightarrow> tge_get_reply_to evt = EvNull \<or> (\<exists>a r. tge_get_reply_to evt = EvAt a r)"

locale bot_module =
  fixes entry :: "bot_env \<Rightarrow> gwbot_thread \<Rightarrow> tgev \<Rightarrow> net \<Rightarrow> (int \<times> net) res" and takes :: "tgev \<Rightarrow> bool"
  assumes declines: "sound_reply evt \<Longrightarrow> \<not> takes evt \<Longrightarrow> entry env th evt nt = Inr (- ECANCELED, nt)"
begin

lemma passes_on:
  "sound_reply evt \<Longrightarrow> \<not> takes evt \<Longrightarrow> ask_in_order (entry env # es) th evt nt = ask_in_order es th evt nt"
  by (simp add: declines)

lemma no_effect: "sound_reply evt \<Longrightarrow> entry env th evt nt = Inr (ret, nt') \<Longrightarrow> nt' \<noteq> nt \<Longrightarrow> takes evt"
  using declines by fastforce

end

definition debug_takes :: "tgev \<Rightarrow> bool" where
  "debug_takes evt \<longleftrightarrow> (case tge_get_text evt of None \<Rightarrow> False | Some t \<Rightarrow> strneq t ''/debug'' 6)"

definition translate_takes :: "tgev \<Rightarrow> bool" where
  "translate_takes evt \<longleftrightarrow> (case tge_get_text evt of None \<Rightarrow> False | Some t \<Rightarrow> tr_command (cstr t) \<noteq> None)"

definition admin_takes :: "tgev \<Rightarrow> bool" where
  "admin_takes evt \<longleftrightarrow> (case tge_get_text evt of None \<Rightarrow> False | Some t \<Rightarrow> head (cstr t) \<in> set ''!/.~@'')"

interpretation dbg: bot_module debug_entry debug_takes
  by unfold_locales (auto simp: debug_entry_def debug_takes_def split: option.splits)

interpretation std: bot_module "\<lambda>env. standard_entry" "\<lambda>evt. False"
  by unfold_locales (simp add: standard_entry_def)

lemma translate_declines:
  assumes "sound_reply evt" and "\<not> translate_takes evt"
  shows "translate_entry env th evt nt = Inr (- ECANCELED, nt)"
proof (cases "tge_get_text evt")
  case None
  then show ?thesis by (simp add: translate_entry_def do_translate_def)
next
  case (Some t)
  then have no: "tr_command (cstr t) = None" using assms(2) by (simp add: translate_takes_def)
  obtain rt a target where r: "tge_get_reply_to evt = EvNull \<and> rt = None \<or> tge_get_reply_to evt = EvAt a target \<and> rt = tge_get_text target"
    using assms(1) by (auto simp: sound_reply_def)
  have n: "length (stack_buf nt (0x8000 + 0x20 * 2)) = 0x8040" by simp
  obtain p l e where "parse_command t (stack_buf nt (0x8000 + 0x20 * 2)) evt = Inr (- ECANCELED, p, l, e)"
    using parse_command_yields [OF n r, of t] no by (auto simp: yields_def split: if_splits)
  then show ?thesis using Some by (simp add: translate_entry_def do_translate_def)
qed

interpretation tr: bot_module translate_entry translate_takes
  by unfold_locales (rule translate_declines)

lemma admin_declines: "\<not> admin_takes evt \<Longrightarrow> admin_entry env th evt nt = Inr (- ECANCELED, nt)"
  by (auto simp: admin_takes_def admin_entry_def admin_command_def is_an_admin_mention_def split: option.splits)

interpretation adm: bot_module admin_entry admin_takes
  by unfold_locales (rule admin_declines)

lemma bot_entries: "table_entries (bot_ops env) = [debug_entry env, standard_entry, translate_entry env, admin_entry env]"
  by (simp add: table_entries_def bot_ops_def)

lemma nobody_takes:
  assumes "sound_reply evt" "\<not> debug_takes evt" "\<not> translate_takes evt" "\<not> admin_takes evt"
  shows "ask_in_order (table_entries (bot_ops env)) th evt nt = Inr (- ECANCELED, nt)"
  unfolding bot_entries using assms dbg.passes_on std.passes_on tr.passes_on adm.passes_on by simp

lemma modules_start: "gwbot_module_startup (mod_tbl (bot_ops env)) False nt = Inr (0, True, nt)"
  by (simp add: gwbot_module_startup_def mod_tbl_def GWMOD_REG_def GWMOD_REG_END_def bot_ops_def module_nop_def)

section \<open>Properties\<close>

text \<open>
  C13. Chatter is ignored: a text message that starts neither with one of the command characters
  nor with an at sign, and is no \<open>tr\<close> command, is handled without a single request to the
  network; the handler returns \<open>-ECANCELED\<close> and the event is released.
\<close>

theorem chatter_ignored:
  assumes load: "mem_ok m" "event_json_str h th = Inr s" "tg_event_load_str jenv (Some s) m = Inr (0, evt, m')"
    and msg: "ev_msg evt = MsgText t r" "tx_text t = Some u"
    and chatter: "head (cstr u) \<notin> set ''!/.~@''" "tr_command (cstr u) = None"
  shows "\<exists>m''. gwbot_event_handler jenv (mod_tbl (bot_ops env)) h th m nt = Inr (- ECANCELED, m'', nt) \<and>
    released m (tight_ev evt (message_json (ev_json evt))) m''"
proof -
  have text_u: "tge_get_text evt = Some u" using msg by (simp add: tge_get_text_def)
  have "sound_reply evt" using msg(1) by (cases r) (simp_all add: sound_reply_def tge_get_reply_to_def)
  moreover have "\<not> debug_takes evt"
    using chatter(1) text_u by (cases "cstr u") (auto simp: debug_takes_def strneq_def head_def NUL_literal)
  moreover have "\<not> translate_takes evt" "\<not> admin_takes evt"
    using chatter text_u by (simp_all add: translate_takes_def admin_takes_def)
  ultimately have ask: "ask_in_order (table_entries (bot_ops env)) th evt nt = Inr (- ECANCELED, nt)" by (rule nobody_takes)
  have "ev_type evt = TGEV_TEXT" using msg(1) by (simp add: ev_type_def)
  then have "run_entries (mod_tbl (bot_ops env)) (ev_type evt) th evt 0 nt = Inr (- ECANCELED, nt)"
    using mod_tbl_runs [OF ev_types, of "bot_ops env" evt th 0 nt] ask by simp
  moreover obtain m'' where "tg_event_destroy evt m' = Inr m''" "released m (tight_ev evt (message_json (ev_json evt))) m''"
    using load_str_released [OF load(1,3)] by blast
  ultimately show ?thesis using load(2,3) by (simp add: gwbot_event_handler_def)
qed

definition chat_text :: bytes where
  "chat_text = ''{\"update_id\":7,\"message\":{\"message_id\":5,\"from\":{\"id\":3,\"first_name\":\"a\"},\"chat\":{\"id\":-4,\"type\":\"supergroup\",\"title\":\"t\"},\"date\":1,\"text\":\"hello\"}}''"

definition chat_thread :: gwbot_thread where
  "chat_thread = thread_zero\<lparr> th_raw := [NUL, NUL] @ chat_text @ [NUL] \<rparr>"

theorem chatter_ignored_witness:
  "\<exists>m''. gwbot_event_handler demo_env (mod_tbl (bot_ops demo_bot)) fmempty chat_thread demo_mem (demo_net []) =
     Inr (- ECANCELED, m'', demo_net [])"
proof -
  have str: "event_json_str fmempty chat_thread = Inr (chat_text @ [NUL])"
    by (simp add: event_json_str_def chat_thread_def string_at_def thread_zero_def)
  have "case tg_event_load_str demo_env (Some chat_text) demo_mem of
      Inr (ret, evt, m') \<Rightarrow> ret = 0 \<and> (case ev_msg evt of MsgText t r \<Rightarrow> tx_text t = Some ''hello'' | _ \<Rightarrow> False) | Inl e \<Rightarrow> False"
    by code_simp
  then obtain evt m' t r where l: "tg_event_load_str demo_env (Some chat_text) demo_mem = Inr (0, evt, m')"
      "ev_msg evt = MsgText t r" "tx_text t = Some ''hello''"
    by (auto split: sum.splits tgev_msg.splits)
  then have load: "tg_event_load_str demo_env (Some (chat_text @ [NUL])) demo_mem = Inr (0, evt, m')"
    by (simp add: tg_event_load_str_def cstr_terminated)
  have "head (cstr ''hello'') \<notin> set ''!/.~@''" "tr_command (cstr ''hello'') = None" by code_simp+
  from chatter_ignored [OF demo_mem_ok str load l(2,3) this, of demo_bot "demo_net []"] show ?thesis by blast
qed

end
