(* ===== verification/Spec2Isabelle.thy ===== *)
theory Spec2Isabelle
  imports Json_Typed Json_Table Printbuf Server Worker Event_Logger Shell Gw_Modules
begin

text \<open>
  A verification development of GNUWeebBot, a Telegram bot written in C.

  \<^bold>\<open>The program.\<close>  \<open>main.c\<close> reads the arguments (\<open>argv.c\<close>) and the INI file (\<open>config.c\<close>, with the
  vendored parser \<open>ext/inih\<close> and the string arena \<open>lib/arena.c\<close>) and enters the server
  (\<open>core/server.c\<close>).  A web front end connects over TCP and sends packets of a 16-bit length
  and a JSON update.  The main thread runs an epoll loop: it accepts connections into
  numbered channel slots, collects packets that arrive in pieces, and gives every complete
  packet to an idle worker, or queues it (\<open>lib/que.h\<close>) when no worker is idle; the free
  slots and the idle workers are stacks of indexes (\<open>lib/tstack.h\<close>).  A worker calls
  \<open>gwbot_event_handler\<close> (\<open>core/event_handler.c\<close>), which parses the update with the vendored json-c,
  builds an event of one of five kinds (\<open>lib/tg_event.c\<close>, \<open>lib/tg_event/*.h\<close>), asks the modules of
  \<open>module_table.h\<close> in turn until one takes it, and releases the event.  The modules (\<open>modules/*\<close>) answer through
  the Telegram API (\<open>lib/tg_api.c\<close>, \<open>lib/tg_api/*.c\<close>), with the encoders of \<open>lib/string.c\<close>.

  \<^bold>\<open>The style of the model.\<close>  Every C function is a HOL function of the same name over explicit state.
  A struct is a record, an enum a datatype, a tagged union a datatype with one constructor per tag;
  fixed-width integers are words wherever a wrap-around can matter.  The result type \<open>'a res\<close> is \<open>fault + 'a\<close>: a failed
  assertion, an access out of bounds, a null, dangling or wild pointer, a call of \<open>abort\<close> or a loop
  that never ends is \<open>Inl\<close>, and an \<open>int\<close> return code is an ordinary value.  Answers of the operating
  system and of libraries outside the repository (\<open>accept\<close>, \<open>recv\<close>, \<open>epoll_wait\<close>,
  \<open>gettimeofday\<close>, \<open>malloc\<close>, \<open>strtod\<close>, libcurl) are arguments, so that the theorems hold
  for every behaviour of theirs that they do not exclude by a named hypothesis.

  \<^bold>\<open>The theories.\<close>

  \<^item> \<open>Gw_Prelude\<close>: faults, the error monad and its rules (\<open>run_simps\<close>), C strings, buffers, decimal
    numbers, 16-bit network order.  \<open>Gw_Interfaces\<close>: the contracts of a bounded stack, a bounded queue,
    a string store and an ordered table, as locales with their client lemmas.
  \<^item> \<open>Tstack\<close> (\<open>lib/tstack.h\<close>), \<open>Que\<close> (\<open>lib/que.h\<close>, a linked list in an explicit heap) and \<open>Arena\<close>
    (\<open>lib/arena.c\<close>): all operations, and the interpretations of the contracts.  A stack returns
    what was pushed in reverse order, the queue refines a list, every node is freed once, strings in
    the arena keep their contents.
  \<^item> \<open>Inih\<close> (\<open>ext/inih/inih.c\<close>): the parser as compiled in; a file printed from a list of settings causes exactly
    the handler calls of these settings.  \<open>Config\<close> (\<open>config.c\<close>, \<open>argv.c\<close>, \<open>main.c\<close>, the validation in
    \<open>core/server.c\<close>): the settings end up in the fields they name, and the validation accepts
    exactly the usable configurations.
  \<^item> \<open>Gw_String\<close> (\<open>lib/string.c\<close>): every encoder against a decoder of its format, with the
    bounds of its buffer.
  \<^item> \<open>Server_State\<close>, \<open>Server_Event\<close>, \<open>Server_Loop\<close> (\<open>core/server.c\<close>, \<open>gwbot.h\<close>, \<open>gwthread.h\<close>): the state,
    initialisation and teardown, the handlers of one epoll event, and the loop.  \<open>Server_Inv\<close>: the invariant
    (slots, epoll map, idle workers, queue) and its preservation.  \<open>Server\<close>: the properties.  A packet
    that arrives in pieces reaches an idle worker, or the end of the queue, byte for byte; the oldest queued
    packet is dispatched first; malformed lengths close the connection.  An event keeps the invariant and
    causes no fault, with two exceptions, which are proved to overrun an array: a descriptor that \<open>epl_map\<close> has no place for, and
    a packet of exactly the maximal size.
  \<^item> \<open>Worker\<close> (\<open>handle_thread\<close>, \<open>submit_to_thread\<close>, \<open>spawn_thread\<close>): worker and main thread as a step relation
    over their critical sections.  Without a stop and with at most 300 time-outs every packet is processed exactly
    once; the 301st time-out can race with a submission and lose the packet.  \<open>Event_Logger\<close>
    (\<open>core/event_logger.c\<close>, \<open>init_logger_thread\<close>): the same for the logger and its start, which cannot hang unless a
    stop is requested before it is over.  \<open>Shell\<close> (\<open>lib/shell.c\<close>): the output of a command in a buffer.
  \<^item> \<open>Json_Object\<close>, \<open>Json_Tokener\<close> (\<open>ext/json-c\<close>): documents, accessors, printer and the state machine of the
    parser, one function per state.  \<open>Json_Safe\<close>: the parser ends on every input, without a fault.
    \<open>Json_Roundtrip\<close>: what the printer prints, in every format, is parsed back to the same document.
    \<open>Json_Typed\<close>: every parsed document is well typed, so that the round trip also holds from the side of the text.
  \<^item> \<open>Linkhash\<close>, \<open>Linkhash_Rep\<close> (\<open>linkhash.c\<close>), \<open>Arraylist\<close> (\<open>arraylist.c\<close>), \<open>Printbuf\<close> (\<open>printbuf.c\<close>): the containers below
    the documents, with slots, links and growing buffers, and their refinement to lists, return codes included; \<open>Json_Table\<close>: the objects
    of \<open>json_object.c\<close> on the hash table answer as the lists of members of \<open>Json_Object\<close> do.
  \<^item> \<open>Tg_Event\<close>, \<open>Tg_Event_Mem\<close>, \<open>Tg_Event_Load\<close> (\<open>lib/tg_event.c\<close>, \<open>lib/tg_event.h\<close>, \<open>lib/tg_event/*.h\<close>): the
    events, their construction from a document, the blocks of memory they own, and the theorems:
    what the accessors of a loaded event give, of each kind, which inputs make loading abort, and that release
    gives back exactly what loading took.
  \<^item> \<open>Event_Handler\<close> (\<open>core/event_handler.c\<close>, \<open>module.h\<close>, \<open>module_table.h\<close>): start, stop and dispatch; the dispatch
    asks the modules in the order of the table and stops at the first that takes the event.
  \<^item> \<open>Tg_Api\<close>, \<open>Tg_Api_Forms\<close> (\<open>lib/tg_api.c\<close>, \<open>lib/tg_api/*.c\<close>): requests and responses; bodies of requests decode to
    the arguments, and a response in pieces is collected into a terminated string.
  \<^item> \<open>Mod_Debug\<close> (also \<open>001_standard\<close> and what the modules share), \<open>Mod_Translate\<close>, \<open>Mod_Admin\<close>,
    \<open>Mod_Admin_Auth\<close>, \<open>Mod_Admin_Reply\<close> (\<open>modules/*\<close>): the four modules.  Only the four users named in the source and the
    administrators of the chat, as the API lists them, can make the bot act on a member; an element of that list without an id
    counts as the user 0.  \<open>Gw_Modules\<close>: the
    contract of a module as a locale, interpreted on the four modules; a message that is no command
    has no effect at all.
  \<^item> This theory: the way of any text below the maximal size from the socket through the parser to the modules, as one refinement.

  \<^bold>\<open>Loops and fuel.\<close>  Loops over data are structural recursion, the parsers of json-c and inih
  recurse with a measure.  The event loop and the collection of a response consume a list of answers of the system, and
  their results are stated for every list.  \<open>tokener_feed\<close> repeats the parser while it answers
  \<open>json_tokener_continue\<close>, which need not end: it has the fuel \<open>je_fuel\<close>.  With a terminated
  string one round is enough (\<open>0 < je_fuel\<close> is all the theorems ask), and without the
  terminator no fuel is, which is proved.  Insertion and growth of the hash table call each other to the depth
  \<open>LH_DEPTH\<close>; the invariant shows that a depth of 2 is enough.  A walk along its links has one more step than there are slots,
  and a search for a free slot as many as there are slots; beyond that they would go round for ever.

  \<^bold>\<open>Not modelled.\<close>  Log messages (\<open>print.c\<close>), the help text (\<open>help.c\<close>) and \<open>db.c\<close>, which only includes a
  header, have no influence on the state.  \<open>gwbot.c\<close> is a copy of \<open>core/server.c\<close> that is not compiled, and
  \<open>lib/tg_api.old.c\<close> is not compiled either.  Of json-c, the functions the bot does not reach (pointers, visitors, setters, comparison,
  file input, strict mode, UTF-8 validation), its refusal of texts of more than \<open>INT32_MAX\<close> bytes, which no caller has, and its hash function: the
  table is proved correct for every hash function.  OpenSSL, liburing and criterion are
  vendored, and no modelled code calls them; of MySQL only the calls that start and end the library occur, which are
  recorded as such.
\<close>

section \<open>From the socket to the modules\<close>

text \<open>
  What the handler does with a JSON document that it already has: the specification of the
  way from the text to the modules.
\<close>

definition load_document :: "json \<Rightarrow> mem \<Rightarrow> (int \<times> tgev \<times> mem) res" where
  "load_document doc m =
     (case parse_update_id doc of (ret, uid) \<Rightarrow>
      if ret \<noteq> 0 then
        ebind (tg_event_destroy (Tgev doc uid False NoMsg) m) (\<lambda>m. Inr (ret, Tgev None uid False NoMsg, m))
      else
        ebind (parse_message doc m) (\<lambda>(ret, msg, m).
        if ret \<noteq> 0 then
          ebind (tg_event_destroy (Tgev doc uid False msg) m) (\<lambda>m. Inr (ret, Tgev None uid False msg, m))
        else Inr (0, Tgev doc uid False msg, m)))"

definition handle_document ::
  "'w module_entry list \<Rightarrow> gwbot_thread \<Rightarrow> json \<Rightarrow> mem \<Rightarrow> 'w \<Rightarrow> (int \<times> mem \<times> 'w) res" where
  "handle_document tbl th doc m w =
     ebind (load_document doc (if doc = None then m else m\<lparr> mm_json := Suc (mm_json m) \<rparr>)) (\<lambda>(ret, evt, m).
     if ret \<noteq> 0 then Inr (ret, m, w)
     else
       ebind (run_entries tbl (ev_type evt) th evt 0 w) (\<lambda>(ret, w).
       ebind (tg_event_destroy evt m) (\<lambda>m. Inr (ret, m, w))))"

lemma handle_no_document: "handle_document tbl th None m w = Inr (- EINVAL, m, w)"
  by (simp add: handle_document_def load_document_def parse_update_id_def)

lemma load_parsed:
  assumes env: "je_tok_ok env" "0 < je_fuel env"
  shows "\<exists>doc. json_tokener_parse (je_strtod env) s = Inr doc \<and>
    tg_event_load_str env (Some s) m = load_document doc (if doc = None then m else m\<lparr> mm_json := Suc (mm_json m) \<rparr>)"
proof -
  obtain n where n: "je_fuel env = Suc n" using env(2) by (cases "je_fuel env") auto
  obtain j err tok where t: "json_tokener_parse_ex (je_strtod env) json_tokener_new (cstr s @ [NUL]) = Inr (j, err, tok)"
      "err \<noteq> json_tokener_continue" "err = json_tokener_success \<or> j = None"
    using parse_ex_decides [of "je_strtod env" "cstr s"] by blast
  have "tg_event_json_parse env (cstr s @ [NUL]) m = Inr (if err \<noteq> json_tokener_success then - EINVAL else 0, j,
      if j = None then m else m\<lparr> mm_json := Suc (mm_json m) \<rparr>)"
    using env(1) n t(1,2) by (simp add: tg_event_json_parse_def)
  then have "tg_event_load_str env (Some s) m = load_document j (if j = None then m else m\<lparr> mm_json := Suc (mm_json m) \<rparr>)"
    by (simp add: tg_event_load_str_def internal_tg_event_load_str_def load_document_def bool_int_def)
  moreover have "json_tokener_parse (je_strtod env) s = Inr j" using t(1,3) by (auto simp: json_tokener_parse_def)
  ultimately show ?thesis by blast
qed

lemma event_json_str_packet:
  assumes "\<not> th_from_sqe th" and "take (3 + length data) (th_raw th) = store16 k @ data @ [NUL]"
  shows "\<exists>s. event_json_str h th = Inr s \<and> cstr s = cstr data"
proof -
  have "th_raw th = (store16 k @ data @ [NUL]) @ drop (3 + length data) (th_raw th)"
    using assms(2) by (metis append_take_drop_id)
  moreover have "length (store16 k) = 2" by (simp add: store16_def)
  ultimately have "drop 2 (th_raw th) = data @ NUL # drop (3 + length data) (th_raw th)"
    by (metis append.assoc append_Cons append_Nil append_eq_conv_conj)
  then show ?thesis using assms(1) by (simp add: event_json_str_def string_at_def cstr_terminated)
qed

text \<open>
  C1. From the socket to the modules: a client sends any text of less than the maximal size 0x6000, with
  its length in front and in any pieces, on a fresh connection while a worker is idle.  The packet is received
  without a fault, and when the worker runs its handler on what it got, json-c decides the text up to its first null byte.  If there is
  a document, the modules are asked with the event of exactly this document, and the event is released, as if the document had
  been handed over directly; if there is none, the handler returns an error and asks nobody.  The document of a text that json-c has printed for a
  document without doubles and of at most 32 levels is this document.
\<close>

theorem update_reaches_modules:
  assumes "srv_inv st" and "epl_map_at st fd = Inr m" "m \<noteq> 0" and "ch_recv_s (st_chans st ! (unat m - 1)) = 0"
    and "errno_env (cl_submit env)" and "tss_list (st_thread_stk st) = k # ks"
    and data: "length text < 24576" "concat cs = net16 (length text) @ text" "[] \<notin> set cs"
    and jenv: "je_tok_ok jenv" "0 < je_fuel jenv"
  shows "\<exists>st' doc. recv_chunks env fd st cs = Inr (0, st') \<and> json_tokener_parse (je_strtod jenv) text = Inr doc \<and>
    gwbot_event_handler jenv tbl (st_heap st') (st_threads st' ! unat k) mem w =
      handle_document tbl (st_threads st' ! unat k) doc mem w \<and>
    (doc = None \<longrightarrow> handle_document tbl (st_threads st' ! unat k) doc mem w = Inr (- EINVAL, mem, w)) \<and>
    (\<forall>d fl. text = json_object_to_json_string_ext (Some d) fl \<and> json_ptr_ok (Some d) \<and> json_ptr_depth (Some d) < 32 \<longrightarrow>
       doc = Some d)"
proof -
  obtain st' where st': "recv_chunks env fd st cs = Inr (0, st')" "\<not> th_from_sqe (st_threads st' ! unat k)"
      "take (3 + length text) (th_raw (st_threads st' ! unat k)) = store16 (of_nat (length text)) @ text @ [NUL]"
    using packet_delivered [OF assms(1-5) data assms(6)] by blast
  obtain s where s: "event_json_str (st_heap st') (st_threads st' ! unat k) = Inr s" "cstr s = cstr text"
    using event_json_str_packet [OF st'(2,3)] by blast
  obtain doc where doc: "json_tokener_parse (je_strtod jenv) s = Inr doc"
      "tg_event_load_str jenv (Some s) mem = load_document doc (if doc = None then mem else mem\<lparr> mm_json := Suc (mm_json mem) \<rparr>)"
    using load_parsed [OF jenv] by blast
  have parse: "json_tokener_parse (je_strtod jenv) text = Inr doc" using doc(1) s(2) by (simp add: json_tokener_parse_def)
  have handled: "gwbot_event_handler jenv tbl (st_heap st') (st_threads st' ! unat k) mem w =
      handle_document tbl (st_threads st' ! unat k) doc mem w"
    using s(1) doc(2) by (auto simp: gwbot_event_handler_def handle_document_def intro!: arg_cong2 [where f = ebind])
  have printed: "doc = Some d" if "text = json_object_to_json_string_ext (Some d) fl" "json_ptr_ok (Some d)" "json_ptr_depth (Some d) < 32" for d fl
    using print_parse_ex [OF that(2,3), of "je_strtod jenv" fl] print_string [OF that(2), of fl] parse that(1)
    by (auto simp: json_tokener_parse_def)
  show ?thesis
  proof (intro exI [of _ st'] exI [of _ doc] conjI impI allI)
    show "handle_document tbl (st_threads st' ! unat k) doc mem w = Inr (- EINVAL, mem, w)" if "doc = None"
      unfolding that by (rule handle_no_document)
    show "doc = Some d" if "text = json_object_to_json_string_ext (Some d) fl \<and> json_ptr_ok (Some d) \<and> json_ptr_depth (Some d) < 32" for d fl
      using that printed by blast
  qed (rule st'(1) parse handled)+
qed

definition demo_update :: json_object where
  "demo_update = JObj [(''update_id'', Some (JInt64 7)), (''message'', Some (JObj [(''message_id'', Some (JInt64 5)),
     (''from'', Some (JObj [(''id'', Some (JInt64 3)), (''first_name'', Some (JStr ''a''))])),
     (''chat'', Some (JObj [(''id'', Some (JInt64 4)), (''type'', Some (JStr ''supergroup'')), (''title'', Some (JStr ''t''))])),
     (''date'', Some (JInt64 1)), (''text'', Some (JStr ''/hi''))]))]"

abbreviation demo_printed :: bytes where
  "demo_printed \<equiv> json_object_to_json_string_ext (Some demo_update) spaced_flags"

lemma demo_handled:
  "\<exists>m. handle_document (mod_tbl demo_ops) th (Some demo_update) demo_mem [] = Inr (0, m, [''000_debug'', ''001_standard''])"
proof -
  have "case load_document (Some demo_update) (demo_mem\<lparr> mm_json := Suc (mm_json demo_mem) \<rparr>) of
      Inl e \<Rightarrow> False | Inr (ret, evt, m) \<Rightarrow> ret = 0 \<and> ev_type evt = TGEV_TEXT \<and> \<not> isl (tg_event_destroy evt m)"
    by code_simp
  then obtain evt m where l: "load_document (Some demo_update) (demo_mem\<lparr> mm_json := Suc (mm_json demo_mem) \<rparr>) = Inr (0, evt, m)"
      "ev_type evt = TGEV_TEXT" "\<not> isl (tg_event_destroy evt m)"
    by (auto split: sum.splits)
  then obtain m' where "tg_event_destroy evt m = Inr m'" by (cases "tg_event_destroy evt m") simp_all
  then show ?thesis using l mod_tbl_runs [OF ev_types, of demo_ops evt th 0 "[]"]
    by (simp add: handle_document_def table_entries_def demo_ops_def)
qed

theorem update_reaches_modules_witness:
  "\<exists>st' m. recv_chunks demo_client 5 demo_state [net16 (length demo_printed) @ demo_printed] = Inr (0, st') \<and>
     gwbot_event_handler demo_env (mod_tbl demo_ops) (st_heap st') (st_threads st' ! 0) demo_mem [] =
       Inr (0, m, [''000_debug'', ''001_standard''])"
proof -
  have doc: "json_ptr_ok (Some demo_update)" "json_ptr_depth (Some demo_update) < 32"
    by (simp_all add: demo_update_def NUL_def)
  have len: "length demo_printed < 24576" by code_simp
  have env: "je_tok_ok demo_env" "0 < je_fuel demo_env" by (simp_all add: demo_env_def)
  have cs: "concat [net16 (length demo_printed) @ demo_printed] = net16 (length demo_printed) @ demo_printed"
      "[] \<notin> set [net16 (length demo_printed) @ demo_printed]"
    by (simp_all add: net16_def)
  obtain st' doc' where "recv_chunks demo_client 5 demo_state [net16 (length demo_printed) @ demo_printed] = Inr (0, st')"
      "gwbot_event_handler demo_env (mod_tbl demo_ops) (st_heap st') (st_threads st' ! unat 0) demo_mem [] =
       handle_document (mod_tbl demo_ops) (st_threads st' ! unat 0) doc' demo_mem []"
      "\<forall>d fl. demo_printed = json_object_to_json_string_ext (Some d) fl \<and> json_ptr_ok (Some d) \<and> json_ptr_depth (Some d) < 32 \<longrightarrow>
         doc' = Some d"
    using update_reaches_modules [OF demo_inv demo_simps(6) _ _ demo_simps(7) _ len cs env, of 0 "[]" "mod_tbl demo_ops" demo_mem "[]"]
    by (auto simp: demo_simps chan_zero_def)
  then show ?thesis using demo_handled doc by auto
qed

end
